(* ===== verification/Nachos_Prelude.thy ===== *)
theory Nachos_Prelude
  imports Main "HOL-Library.Word"
begin

unbundle bit_operations_syntax

text \<open>
  Shared vocabulary of the development: the failure values of the C++ code, the result type
  that carries them, the \<^verbatim>\<open>ASSERT\<close> macro and the rounding macros of
  \<^verbatim>\<open>threads/utility.h\<close>, fixed-width integers, byte-level encodings of the \<^verbatim>\<open>int\<close>s the
  kernel writes to disk, and generic lemmas on lists that several components use.

  Conventions.  A C++ \<^verbatim>\<open>int\<close> whose overflow the code never provokes is an \<^typ>\<open>int\<close>; machine
  registers, bitmap words and bytes are words of their width.  The build modelled is the
  little-endian 32-bit host of \<^verbatim>\<open>Makefile.dep\<close> (\<^verbatim>\<open>-DHOST_i386\<close>).
\<close>

named_theorems nachos_defs \<open>definitions that component proofs unfold\<close>
named_theorems nachos_simps \<open>rewrite rules shared by the components\<close>

subsection \<open>Failures and results\<close>

text \<open>
  \<open>AssertFail\<close>: an \<^verbatim>\<open>ASSERT\<close> failed and the process aborts.  \<open>NullDeref\<close>: a null or dangling
  pointer is dereferenced.  \<open>OutOfBounds\<close>: an access outside a C array.  \<open>Halted\<close>: the kernel
  shut the machine down (\<^verbatim>\<open>Cleanup\<close> never returns).  \<open>ThreadExit\<close>: the running thread called
  \<^verbatim>\<open>Finish\<close>, which never returns to it.  \<open>HostTrap\<close>: the host processor traps (division overflow).
  \<open>NoReturnValue\<close>: control falls off the end
  of a non-void function.  \<open>Blocked\<close>: the thread sleeps and nothing will wake it.  \<open>StackOverflow\<close>: a
  recursion deeper than the host stack.
\<close>

datatype nachos_error = AssertFail | NullDeref | OutOfBounds | Halted | ThreadExit | HostTrap | NoReturnValue
  | Blocked | StackOverflow

type_synonym 'a result = "nachos_error + 'a"

primrec rbind :: "'e + 'a \<Rightarrow> ('a \<Rightarrow> 'e + 'b) \<Rightarrow> 'e + 'b" where
  "rbind (Inl e) f = Inl e"
| "rbind (Inr x) f = f x"

definition ASSERT :: "bool \<Rightarrow> 'a result \<Rightarrow> 'a result" where
  "ASSERT condition rest = (if condition then rest else Inl AssertFail)"

lemma rbind_Inr_iff [simp]: "rbind m f = Inr y \<longleftrightarrow> (\<exists>x. m = Inr x \<and> f x = Inr y)"
  by (cases m) auto

lemma rbind_Inl_iff: "rbind m f = Inl e \<longleftrightarrow> m = Inl e \<or> (\<exists>x. m = Inr x \<and> f x = Inl e)"
  by (cases m) auto

lemma rbind_assoc: "rbind (rbind m f) g = rbind m (\<lambda>x. rbind (f x) g)"
  by (cases m) auto

lemma rbind_cong [fundef_cong]:
  "m = m' \<Longrightarrow> (\<And>x. m' = Inr x \<Longrightarrow> f x = f' x) \<Longrightarrow> rbind m f = rbind m' f'"
  by (cases m') auto

lemma ASSERT_True [simp]: "ASSERT True r = r"
  and ASSERT_False [simp]: "ASSERT False r = Inl AssertFail"
  by (simp_all add: ASSERT_def)

lemma ASSERT_Inr_iff [simp]: "ASSERT c r = Inr y \<longleftrightarrow> c \<and> r = Inr y"
  by (simp add: ASSERT_def)

lemma ASSERT_holds: "c \<Longrightarrow> ASSERT c r = r"
  by (simp add: ASSERT_def)

lemma ASSERT_cong [fundef_cong]: "c = c' \<Longrightarrow> (c' \<Longrightarrow> r = r') \<Longrightarrow> ASSERT c r = ASSERT c' r'"
  by (simp add: ASSERT_def)

text \<open>
  Postconditions of fallible code: a value satisfies \<open>Q\<close> and a failure is one of \<open>E\<close>.
\<close>

definition rpost :: "nachos_error set \<Rightarrow> ('a \<Rightarrow> bool) \<Rightarrow> 'a result \<Rightarrow> bool" where
  "rpost E Q r = (case r of Inl e \<Rightarrow> e \<in> E | Inr x \<Rightarrow> Q x)"

lemma rpost_Inr [simp]: "rpost E Q (Inr x) = Q x"
  and rpost_Inl [simp]: "rpost E Q (Inl e) = (e \<in> E)"
  by (simp_all add: rpost_def)

lemma rpost_rbind: "rpost E P r \<Longrightarrow> (\<And>x. P x \<Longrightarrow> rpost E Q (f x)) \<Longrightarrow> rpost E Q (rbind r f)"
  by (cases r) auto

lemma rpost_ASSERT: "AssertFail \<in> E \<Longrightarrow> (c \<Longrightarrow> rpost E Q r) \<Longrightarrow> rpost E Q (ASSERT c r)"
  by (simp add: ASSERT_def)

lemma rpost_mono: "rpost E P r \<Longrightarrow> E \<subseteq> F \<Longrightarrow> (\<And>x. P x \<Longrightarrow> Q x) \<Longrightarrow> rpost F Q r"
  by (auto simp: rpost_def split: sum.splits)

lemma rpostD: "rpost E Q r \<Longrightarrow> r = Inr x \<Longrightarrow> Q x"
  and rpost_errorD: "rpost E Q r \<Longrightarrow> r = Inl e \<Longrightarrow> e \<in> E"
  by auto

subsection \<open>Rounding macros and C division\<close>

text \<open>C division truncates towards zero and the remainder has the sign of the dividend.\<close>

definition cdiv :: "int \<Rightarrow> int \<Rightarrow> int" where
  "cdiv n s = sgn n * sgn s * (\<bar>n\<bar> div \<bar>s\<bar>)"

definition cmod :: "int \<Rightarrow> int \<Rightarrow> int" where
  "cmod n s = n - cdiv n s * s"

definition divRoundDown :: "int \<Rightarrow> int \<Rightarrow> int" where
  "divRoundDown n s = cdiv n s"

definition divRoundUp :: "int \<Rightarrow> int \<Rightarrow> int" where
  "divRoundUp n s = cdiv n s + (if cmod n s > 0 then 1 else 0)"

lemma cdiv_nonneg [simp]: "0 \<le> n \<Longrightarrow> 0 < s \<Longrightarrow> cdiv n s = n div s"
  by (cases "n = 0") (auto simp: cdiv_def)

lemma cmod_nonneg [simp]: "0 \<le> n \<Longrightarrow> 0 < s \<Longrightarrow> cmod n s = n mod s"
  by (simp add: cmod_def minus_div_mult_eq_mod)

lemma cmod_eq: "cmod n s = sgn n * (\<bar>n\<bar> mod \<bar>s\<bar>)"
proof -
  have "cdiv n s * s = sgn n * (\<bar>n\<bar> div \<bar>s\<bar> * \<bar>s\<bar>)"
    by (simp add: cdiv_def abs_sgn [of s] ac_simps)
  also have "\<dots> = sgn n * (\<bar>n\<bar> - \<bar>n\<bar> mod \<bar>s\<bar>)" by (simp add: minus_mod_eq_div_mult)
  also have "\<dots> = n - sgn n * (\<bar>n\<bar> mod \<bar>s\<bar>)" by (simp add: right_diff_distrib sgn_mult_abs)
  finally show ?thesis by (simp add: cmod_def)
qed

lemma cmod_bound: "s \<noteq> 0 \<Longrightarrow> \<bar>cmod n s\<bar> < \<bar>s\<bar>" and cmod_sign: "0 \<le> cmod n s * n"
  and cdiv_cmod: "n = cdiv n s * s + cmod n s" and abs_cdiv: "s \<noteq> 0 \<Longrightarrow> \<bar>cdiv n s\<bar> = \<bar>n\<bar> div \<bar>s\<bar>"
proof -
  show "s \<noteq> 0 \<Longrightarrow> \<bar>cmod n s\<bar> < \<bar>s\<bar>" by (cases "n = 0") (simp_all add: cmod_eq abs_mult)
  show "0 \<le> cmod n s * n" by (cases "s = 0") (auto simp: cmod_eq sgn_if mult_nonneg_nonpos)
  show "n = cdiv n s * s + cmod n s" by (simp add: cmod_def)
  show "s \<noteq> 0 \<Longrightarrow> \<bar>cdiv n s\<bar> = \<bar>n\<bar> div \<bar>s\<bar>"
    by (cases "n = 0") (simp_all add: cdiv_def abs_mult abs_sgn_eq pos_imp_zdiv_nonneg_iff)
qed

lemma divRoundUp_le_iff:
  assumes "0 \<le> n" and "0 < s"
  shows "divRoundUp n s \<le> k \<longleftrightarrow> n \<le> k * s"
proof -
  have eq: "n = n div s * s + n mod s" by simp
  have lt: "n mod s < s" "0 \<le> n mod s" using assms by simp_all
  show ?thesis
  proof (cases "n mod s = 0")
    case True
    then have "n \<le> k * s \<longleftrightarrow> n div s * s \<le> k * s" using eq by simp
    also have "\<dots> \<longleftrightarrow> n div s \<le> k" using assms by simp
    finally show ?thesis using True assms by (simp add: divRoundUp_def)
  next
    case False
    have "n \<le> k * s \<longleftrightarrow> n div s < k"
    proof
      assume "n \<le> k * s"
      then have "n div s * s < k * s" using eq lt False by linarith
      then show "n div s < k" using assms by simp
    next
      assume "n div s < k"
      then have "(n div s + 1) * s \<le> k * s" using assms by (intro mult_right_mono) auto
      then have "n div s * s + s \<le> k * s" by (simp add: distrib_right)
      then show "n \<le> k * s" using eq lt by linarith
    qed
    moreover have "0 < n mod s" using lt False by linarith
    ultimately show ?thesis using assms by (auto simp: divRoundUp_def)
  qed
qed

lemma divRoundUp_nonneg: "0 \<le> n \<Longrightarrow> 0 < s \<Longrightarrow> 0 \<le> divRoundUp n s"
  by (simp add: divRoundUp_def pos_imp_zdiv_nonneg_iff)

lemma divRoundUp_covers: "0 \<le> n \<Longrightarrow> 0 < s \<Longrightarrow> n \<le> divRoundUp n s * s"
  using divRoundUp_le_iff [of n s "divRoundUp n s"] by simp

subsection \<open>32-bit integers\<close>

definition fits32 :: "int \<Rightarrow> bool" where
  "fits32 z \<longleftrightarrow> - (2 ^ 31) \<le> z \<and> z < 2 ^ 31"

lemma sint_bounds: "- (2 ^ 31) \<le> sint w" "sint w < 2 ^ 31" for w :: "32 word"
  using sint_ge [of w] sint_lt [of w] by simp_all

lemma sint_of_int: "fits32 z \<Longrightarrow> sint (of_int z :: 32 word) = z"
  by (simp add: fits32_def signed_of_int signed_take_bit_int_eq_self)

subsection \<open>Little-endian encodings\<close>

text \<open>The four bytes of a 32-bit integer and the two of a 16-bit one, least significant first.\<close>

definition bytes4 :: "32 word \<Rightarrow> 8 word list" where
  "bytes4 w = [ucast w, ucast (drop_bit 8 w), ucast (drop_bit 16 w), ucast (drop_bit 24 w)]"

definition word4 :: "8 word \<Rightarrow> 8 word \<Rightarrow> 8 word \<Rightarrow> 8 word \<Rightarrow> 32 word" where
  "word4 a b c d = ucast a OR push_bit 8 (ucast b) OR push_bit 16 (ucast c) OR push_bit 24 (ucast d)"

definition bytes2 :: "16 word \<Rightarrow> 8 word list" where
  "bytes2 w = [ucast w, ucast (drop_bit 8 w)]"

definition word2 :: "8 word \<Rightarrow> 8 word \<Rightarrow> 16 word" where
  "word2 a b = ucast a OR push_bit 8 (ucast b)"

lemma length_bytes4 [simp]: "length (bytes4 w) = 4"
  by (simp add: bytes4_def)

lemma length_bytes2 [simp]: "length (bytes2 w) = 2"
  by (simp add: bytes2_def)

lemma word4_bytes4 [simp]:
  "word4 (ucast w) (ucast (drop_bit 8 w)) (ucast (drop_bit 16 w)) (ucast (drop_bit 24 w)) = w"
proof (rule bit_word_eqI)
  fix n
  assume "n < LENGTH(32)"
  then consider "n < 8" | "8 \<le> n" "n < 16" | "16 \<le> n" "n < 24" | "24 \<le> n" "n < 32"
    by fastforce
  then show "bit (word4 (ucast w) (ucast (drop_bit 8 w)) (ucast (drop_bit 16 w)) (ucast (drop_bit 24 w))) n
      = bit w n"
    by cases (auto simp: word4_def bit_simps)
qed

lemma bytes4_word4 [simp]: "bytes4 (word4 a b c d) = [a, b, c, d]"
  unfolding bytes4_def word4_def
  by (simp, intro conjI; rule bit_word_eqI; auto simp: bit_simps dest: bit_imp_le_length)

lemma word2_bytes2 [simp]: "word2 (ucast w) (ucast (drop_bit 8 w)) = w"
  by (rule bit_word_eqI) (auto simp: word2_def bit_simps)

text \<open>An array of 32-bit integers in memory or on disk, and reading one back.\<close>

definition words_bytes :: "32 word list \<Rightarrow> 8 word list" where
  "words_bytes ws = concat (map bytes4 ws)"

fun bytes_words :: "8 word list \<Rightarrow> 32 word list" where
  "bytes_words (a # b # c # d # bs) = word4 a b c d # bytes_words bs"
| "bytes_words bs = []"

lemma length_words_bytes [simp]: "length (words_bytes ws) = 4 * length ws"
  by (induction ws) (simp_all add: words_bytes_def)

lemma bytes_words_words_bytes [simp]: "bytes_words (words_bytes ws @ bs) = ws @ bytes_words bs"
  by (induction ws) (simp_all add: words_bytes_def bytes4_def)

lemma bytes_words_id [simp]: "bytes_words (words_bytes ws) = ws"
  using bytes_words_words_bytes [of ws "[]"] by simp

subsection \<open>Byte arrays\<close>

text \<open>Copying \<open>bs\<close> into an array at \<open>pos\<close>, and \<open>n\<close> elements out of it.\<close>

definition put_bytes :: "nat \<Rightarrow> 'a list \<Rightarrow> 'a list \<Rightarrow> 'a list" where
  "put_bytes pos bs mem = take pos mem @ bs @ drop (pos + length bs) mem"

definition get_bytes :: "nat \<Rightarrow> nat \<Rightarrow> 'a list \<Rightarrow> 'a list" where
  "get_bytes pos n mem = take n (drop pos mem)"

lemma length_put_bytes [simp]: "pos + length bs \<le> length mem \<Longrightarrow> length (put_bytes pos bs mem) = length mem"
  by (simp add: put_bytes_def)

lemma put_bytes_0: "put_bytes 0 bs mem = bs @ drop (length bs) mem"
  by (simp add: put_bytes_def)

lemma nth_put_bytes:
  "pos + length bs \<le> length mem \<Longrightarrow> i < length mem \<Longrightarrow>
   put_bytes pos bs mem ! i = (if pos \<le> i \<and> i < pos + length bs then bs ! (i - pos) else mem ! i)"
  by (auto simp: put_bytes_def nth_append)

lemma length_get_bytes [simp]: "pos + n \<le> length mem \<Longrightarrow> length (get_bytes pos n mem) = n"
  by (simp add: get_bytes_def)

lemma nth_get_bytes: "pos + n \<le> length mem \<Longrightarrow> i < n \<Longrightarrow> get_bytes pos n mem ! i = mem ! (pos + i)"
  by (simp add: get_bytes_def)

lemma get_put_same [simp]: "pos + length bs \<le> length mem \<Longrightarrow> get_bytes pos (length bs) (put_bytes pos bs mem) = bs"
  by (simp add: get_bytes_def put_bytes_def)

lemma get_put_other:
  assumes "pos + length bs \<le> length mem" "pos' + n \<le> length mem" "pos' + n \<le> pos \<or> pos + length bs \<le> pos'"
  shows "get_bytes pos' n (put_bytes pos bs mem) = get_bytes pos' n mem"
  by (rule nth_equalityI) (use assms in \<open>auto simp: nth_get_bytes nth_put_bytes\<close>)

text \<open>A list cut into blocks of equal length.\<close>

lemma drop_concat: "\<forall>x\<in>set xs. length (f x) = k \<Longrightarrow> drop (k * a) (concat (map f xs)) = concat (map f (drop a xs))"
proof (induction a arbitrary: xs)
  case (Suc a)
  then show ?case by (cases xs) simp_all
qed simp

lemma take_concat: "\<forall>x\<in>set xs. length (f x) = k \<Longrightarrow> take (k * a) (concat (map f xs)) = concat (map f (take a xs))"
proof (induction a arbitrary: xs)
  case (Suc a)
  then show ?case by (cases xs) simp_all
qed simp

lemma concat_slice:
  "\<forall>x\<in>set xs. length (f x) = k \<Longrightarrow> take (k * c) (drop (k * a) (concat (map f xs))) = concat (map f (take c (drop a xs)))"
  by (simp add: drop_concat take_concat in_set_dropD)

lemma upto_int: "[int a..int b] = map int [a..<Suc b]"
  by (rule nth_equalityI) (auto simp: nth_upto simp del: upt_Suc)

subsection \<open>Step systems\<close>

text \<open>
  The contract shared by the components whose behaviour is an interleaving of steps: an invariant
  that holds at the start and that every step keeps holds in every state that can be reached.
\<close>

locale step_system =
  fixes start :: "'s \<Rightarrow> bool"
    and step :: "'s \<Rightarrow> 's \<Rightarrow> bool"
    and inv :: "'s \<Rightarrow> bool"
  assumes inv_start: "start s \<Longrightarrow> inv s"
    and inv_step: "inv s \<Longrightarrow> step s s' \<Longrightarrow> inv s'"
begin

lemma inv_steps: "step\<^sup>*\<^sup>* s s' \<Longrightarrow> inv s \<Longrightarrow> inv s'"
  by (induction rule: rtranclp_induct) (auto intro: inv_step)

lemma inv_reachable: "start s \<Longrightarrow> step\<^sup>*\<^sup>* s s' \<Longrightarrow> inv s'"
  using inv_start inv_steps by blast

end

end
