(* ===== verification/Nachos_List.thy ===== *)
theory Nachos_List
  imports Nachos_Prelude "HOL-Library.Multiset"
begin

text \<open>
  The singly linked list of \<^verbatim>\<open>threads/list.h\<close> and \<^verbatim>\<open>threads/list.cc\<close>, at pointer level: list
  elements live in an explicit store, a null pointer is \<^const>\<open>None\<close>, \<^verbatim>\<open>new\<close> takes the next unused
  address and \<^verbatim>\<open>delete\<close> removes the cell.  Loops over the links are partial functions, so a walk
  around a cycle is \<^const>\<open>None\<close>.  The second half gives the abstract list of (key, item) pairs that
  the rest of the kernel uses, an interface locale, and the refinement between the two.
\<close>

subsection \<open>Data\<close>

record 'a ListElement =
  le_next :: "nat option"
  le_key :: int
  le_item :: "'a option"

record 'a list_store =
  cells :: "nat \<rightharpoonup> 'a ListElement"
  brk :: nat

record klist =
  l_first :: "nat option"
  l_last :: "nat option"

definition new_ListElement :: "'a list_store \<Rightarrow> 'a option \<Rightarrow> int \<Rightarrow> 'a list_store \<times> nat" where
  "new_ListElement h itemPtr sortKey =
     (h\<lparr>cells := (cells h)(brk h \<mapsto> \<lparr>le_next = None, le_key = sortKey, le_item = itemPtr\<rparr>),
        brk := Suc (brk h)\<rparr>, brk h)"

definition deref :: "'a list_store \<Rightarrow> nat option \<Rightarrow> 'a ListElement result" where
  "deref h p = (case p of None \<Rightarrow> Inl NullDeref
     | Some a \<Rightarrow> (case cells h a of None \<Rightarrow> Inl NullDeref | Some e \<Rightarrow> Inr e))"

definition set_next :: "'a list_store \<Rightarrow> nat option \<Rightarrow> nat option \<Rightarrow> 'a list_store result" where
  "set_next h p q = (case p of None \<Rightarrow> Inl NullDeref
     | Some a \<Rightarrow> (case cells h a of None \<Rightarrow> Inl NullDeref
         | Some e \<Rightarrow> Inr (h\<lparr>cells := (cells h)(a \<mapsto> e\<lparr>le_next := q\<rparr>)\<rparr>)))"

definition delete_cell :: "'a list_store \<Rightarrow> nat \<Rightarrow> 'a list_store" where
  "delete_cell h a = h\<lparr>cells := (cells h)(a := None)\<rparr>"

subsection \<open>Operations\<close>

definition List_List :: klist where
  "List_List = \<lparr>l_first = None, l_last = None\<rparr>"

definition List_IsEmpty :: "klist \<Rightarrow> bool" where
  "List_IsEmpty l = (l_first l = None)"

definition List_Append :: "'a list_store \<Rightarrow> klist \<Rightarrow> 'a option \<Rightarrow> ('a list_store \<times> klist) result" where
  "List_Append h l item =
     (let (h, element) = new_ListElement h item 0 in
      if List_IsEmpty l then Inr (h, \<lparr>l_first = Some element, l_last = Some element\<rparr>)
      else rbind (set_next h (l_last l) (Some element)) (\<lambda>h.
           Inr (h, l\<lparr>l_last := Some element\<rparr>)))"

definition List_Prepend :: "'a list_store \<Rightarrow> klist \<Rightarrow> 'a option \<Rightarrow> ('a list_store \<times> klist) result" where
  "List_Prepend h l item =
     (let (h, element) = new_ListElement h item 0 in
      if List_IsEmpty l then Inr (h, \<lparr>l_first = Some element, l_last = Some element\<rparr>)
      else rbind (set_next h (Some element) (l_first l)) (\<lambda>h.
           Inr (h, l\<lparr>l_first := Some element\<rparr>)))"

text \<open>The \<^verbatim>\<open>for\<close> loop of \<^verbatim>\<open>SortedInsert\<close>, with \<open>ptr\<close> as its variable.\<close>

partial_function (option) insert_loop ::
  "'a list_store \<Rightarrow> klist \<Rightarrow> nat option \<Rightarrow> nat \<Rightarrow> int \<Rightarrow> ('a list_store \<times> klist) result option" where
  "insert_loop h l ptr element sortKey =
     (case deref h ptr of
        Inl e \<Rightarrow> Some (Inl e)
      | Inr c \<Rightarrow>
         (case le_next c of
            None \<Rightarrow> Some (rbind (set_next h (l_last l) (Some element)) (\<lambda>h.
                          Inr (h, l\<lparr>l_last := Some element\<rparr>)))
          | Some q \<Rightarrow>
             (case deref h (Some q) of
                Inl e \<Rightarrow> Some (Inl e)
              | Inr d \<Rightarrow>
                  if sortKey < le_key d
                  then Some (rbind (set_next h (Some element) (Some q)) (\<lambda>h.
                             rbind (set_next h ptr (Some element)) (\<lambda>h. Inr (h, l))))
                  else insert_loop h l (Some q) element sortKey)))"

definition List_SortedInsert ::
  "'a list_store \<Rightarrow> klist \<Rightarrow> 'a option \<Rightarrow> int \<Rightarrow> ('a list_store \<times> klist) result option" where
  "List_SortedInsert h l item sortKey =
     (let (h, element) = new_ListElement h item sortKey in
      if List_IsEmpty l
      then Some (Inr (h, \<lparr>l_first = Some element, l_last = Some element\<rparr>))
      else (case deref h (l_first l) of
              Inl e \<Rightarrow> Some (Inl e)
            | Inr c \<Rightarrow>
                if sortKey < le_key c
                then Some (rbind (set_next h (Some element) (l_first l)) (\<lambda>h.
                           Inr (h, l\<lparr>l_first := Some element\<rparr>)))
                else insert_loop h l (l_first l) element sortKey))"

text \<open>The result carries the removed item and the key stored through \<^verbatim>\<open>keyPtr\<close>.\<close>

definition List_SortedRemove ::
  "'a list_store \<Rightarrow> klist \<Rightarrow> ('a list_store \<times> klist \<times> 'a option \<times> int option) result" where
  "List_SortedRemove h l =
     (case l_first l of
        None \<Rightarrow> Inr (h, l, None, None)
      | Some element \<Rightarrow>
          rbind (deref h (Some element)) (\<lambda>c.
            let thing = le_item c;
                l' = (if l_first l = l_last l then \<lparr>l_first = None, l_last = None\<rparr>
                      else l\<lparr>l_first := le_next c\<rparr>)
            in Inr (delete_cell h element, l', thing, Some (le_key c))))"

definition List_Remove :: "'a list_store \<Rightarrow> klist \<Rightarrow> ('a list_store \<times> klist \<times> 'a option) result" where
  "List_Remove h l = rbind (List_SortedRemove h l) (\<lambda>(h, l, thing, _). Inr (h, l, thing))"

partial_function (option) Mapcar_loop ::
  "('a option \<Rightarrow> 's \<Rightarrow> 's) \<Rightarrow> 'a list_store \<Rightarrow> nat option \<Rightarrow> 's \<Rightarrow> 's result option" where
  "Mapcar_loop func h ptr s =
     (case ptr of
        None \<Rightarrow> Some (Inr s)
      | Some a \<Rightarrow>
         (case deref h (Some a) of
            Inl e \<Rightarrow> Some (Inl e)
          | Inr c \<Rightarrow> Mapcar_loop func h (le_next c) (func (le_item c) s)))"

definition List_Mapcar :: "('a option \<Rightarrow> 's \<Rightarrow> 's) \<Rightarrow> 'a list_store \<Rightarrow> klist \<Rightarrow> 's \<Rightarrow> 's result option" where
  "List_Mapcar func h l s = Mapcar_loop func h (l_first l) s"

text \<open>The destructor removes until \<^verbatim>\<open>Remove\<close> returns a null pointer.\<close>

partial_function (option) List_Destruct ::
  "'a list_store \<Rightarrow> klist \<Rightarrow> ('a list_store \<times> klist) result option" where
  "List_Destruct h l =
     (case List_Remove h l of
        Inl e \<Rightarrow> Some (Inl e)
      | Inr r \<Rightarrow> (case r of (h', l', thing) \<Rightarrow>
          (case thing of None \<Rightarrow> Some (Inr (h', l')) | Some x \<Rightarrow> List_Destruct h' l')))"

text \<open>
  \<^verbatim>\<open>GetListLength\<close> compares \<open>p\<close> with \<open>last\<close> but never advances \<open>p\<close>.
\<close>

partial_function (option) length_loop :: "nat option \<Rightarrow> nat option \<Rightarrow> int \<Rightarrow> int option" where
  "length_loop p l i = (if p \<noteq> l then length_loop p l (i + 1) else Some i)"

definition List_GetListLength :: "klist \<Rightarrow> int option" where
  "List_GetListLength l =
     (if l_first l = None then Some 0 else length_loop (l_first l) (l_last l) 1)"

subsection \<open>The abstract list\<close>

text \<open>
  What the clients of the list see: a sequence of (key, item) pairs.  Appending and prepending use
  key 0, as \<^verbatim>\<open>Append\<close> and \<^verbatim>\<open>Prepend\<close> do; sorted insertion goes in front of the first element
  with a bigger key.
\<close>

type_synonym 'a klist_abs = "(int \<times> 'a) list"

definition lst_append :: "'a klist_abs \<Rightarrow> 'a \<Rightarrow> 'a klist_abs" where
  "lst_append xs x = xs @ [(0, x)]"

definition lst_prepend :: "'a klist_abs \<Rightarrow> 'a \<Rightarrow> 'a klist_abs" where
  "lst_prepend xs x = (0, x) # xs"

fun lst_sorted_insert :: "'a klist_abs \<Rightarrow> 'a \<Rightarrow> int \<Rightarrow> 'a klist_abs" where
  "lst_sorted_insert [] x k = [(k, x)]"
| "lst_sorted_insert ((k', y) # r) x k =
     (if k < k' then (k, x) # (k', y) # r else (k', y) # lst_sorted_insert r x k)"

fun lst_sorted_remove :: "'a klist_abs \<Rightarrow> ((int \<times> 'a) \<times> 'a klist_abs) option" where
  "lst_sorted_remove [] = None"
| "lst_sorted_remove (kx # r) = Some (kx, r)"

abbreviation key_sorted :: "'a klist_abs \<Rightarrow> bool" where
  "key_sorted xs \<equiv> sorted (map fst xs)"

lemma set_lst_sorted_insert [simp]: "set (lst_sorted_insert xs x k) = insert (k, x) (set xs)"
  by (induction xs x k rule: lst_sorted_insert.induct) auto

lemma length_lst_sorted_insert [simp]: "length (lst_sorted_insert xs x k) = Suc (length xs)"
  by (induction xs x k rule: lst_sorted_insert.induct) auto

lemma lst_sorted_insert_not_Nil [simp]: "lst_sorted_insert xs x k \<noteq> []"
  by (induction xs x k rule: lst_sorted_insert.induct) auto

lemma key_sorted_lst_sorted_insert: "key_sorted xs \<Longrightarrow> key_sorted (lst_sorted_insert xs x k)"
  by (induction xs x k rule: lst_sorted_insert.induct) fastforce+

text \<open>Stability: the new element comes after every element with the same key.\<close>

lemma filter_lst_sorted_insert:
  assumes "key_sorted xs"
  shows "filter (\<lambda>p. fst p = j) (lst_sorted_insert xs x k) =
         filter (\<lambda>p. fst p = j) xs @ (if j = k then [(k, x)] else [])"
  using assms
proof (induction xs x k rule: lst_sorted_insert.induct)
  case (2 k' y r x k)
  have "filter (\<lambda>p. fst p = k) r = []" if "k < k'"
    using 2 that by (auto simp: filter_empty_conv)
  with 2 show ?case by auto
qed simp

lemma lst_sorted_insert_split:
  "lst_sorted_insert xs x k =
     takeWhile (\<lambda>p. fst p \<le> k) xs @ (k, x) # dropWhile (\<lambda>p. fst p \<le> k) xs"
  by (induction xs x k rule: lst_sorted_insert.induct) auto

subsection \<open>Representation\<close>

text \<open>\<open>lseg c p as q\<close>: following \<open>next\<close> from \<open>p\<close> visits exactly the addresses \<open>as\<close> and ends at \<open>q\<close>.\<close>

fun lseg :: "(nat \<rightharpoonup> 'a ListElement) \<Rightarrow> nat option \<Rightarrow> nat list \<Rightarrow> nat option \<Rightarrow> bool" where
  "lseg c p [] q = (p = q)"
| "lseg c p (a # as) q =
     (p = Some a \<and> (case c a of None \<Rightarrow> False | Some e \<Rightarrow> lseg c (le_next e) as q))"

definition elt :: "(nat \<rightharpoonup> 'a ListElement) \<Rightarrow> nat \<Rightarrow> int \<times> 'a option" where
  "elt c a = (le_key (the (c a)), le_item (the (c a)))"

definition list_rep :: "'a list_store \<Rightarrow> klist \<Rightarrow> nat list \<Rightarrow> bool" where
  "list_rep h l as \<longleftrightarrow>
     lseg (cells h) (l_first l) as None \<and> distinct as \<and> (\<forall>a\<in>set as. a < brk h)
     \<and> l_last l = (if as = [] then None else Some (last as))"

definition list_abs :: "'a list_store \<Rightarrow> nat list \<Rightarrow> (int \<times> 'a option) list" where
  "list_abs h as = map (elt (cells h)) as"

text \<open>What an operation may touch: the list's own cells and fresh ones.\<close>

definition same_outside :: "nat set \<Rightarrow> 'a list_store \<Rightarrow> 'a list_store \<Rightarrow> bool" where
  "same_outside A h h' \<longleftrightarrow> brk h \<le> brk h' \<and> (\<forall>a. a < brk h \<longrightarrow> a \<notin> A \<longrightarrow> cells h' a = cells h a)"

lemma lseg_upd_fresh [simp]: "a \<notin> set as \<Longrightarrow> lseg (c(a := v)) p as q = lseg c p as q"
  by (induction as arbitrary: p) (auto split: option.splits)

lemma lseg_append: "lseg c p (as @ bs) q \<longleftrightarrow> (\<exists>r. lseg c p as r \<and> lseg c r bs q)"
  by (induction as arbitrary: p) (auto split: option.splits)

lemma lseg_redirect:
  "lseg c p (as @ [a]) q \<Longrightarrow> a \<notin> set as \<Longrightarrow> c a = Some e \<Longrightarrow>
   lseg (c(a \<mapsto> e\<lparr>le_next := q'\<rparr>)) p (as @ [a]) q'"
  by (auto simp: lseg_append)

lemma lseg_mem: "lseg c p as q \<Longrightarrow> a \<in> set as \<Longrightarrow> \<exists>e. c a = Some e"
  by (induction as arbitrary: p) (auto split: option.splits)

lemma elt_upd_other [simp]: "a \<noteq> b \<Longrightarrow> elt (c(b := v)) a = elt c a"
  by (simp add: elt_def)

lemma elt_set_next [simp]: "c b = Some e \<Longrightarrow> elt (c(b \<mapsto> e\<lparr>le_next := q\<rparr>)) a = elt c a"
  by (simp add: elt_def)

lemma map_elt_upd_fresh [simp]: "b \<notin> set as \<Longrightarrow> map (elt (c(b := v))) as = map (elt c) as"
  by (auto simp: elt_def)

lemma list_rep_IsEmpty: "list_rep h l as \<Longrightarrow> List_IsEmpty l \<longleftrightarrow> as = []"
  by (cases as) (auto simp: list_rep_def List_IsEmpty_def)

lemma list_rep_new:
  assumes "list_rep h l as"
  shows "list_rep (fst (new_ListElement h x k)) l as"
    and "list_abs (fst (new_ListElement h x k)) as = list_abs h as"
    and "snd (new_ListElement h x k) \<notin> set as"
    and "same_outside A h (fst (new_ListElement h x k))"
  using assms
  by (auto simp: list_rep_def list_abs_def new_ListElement_def same_outside_def elt_def
      intro!: map_cong split: if_splits)

lemma List_List_rep: "list_rep h List_List []"
  by (simp add: list_rep_def List_List_def)

lemma List_Append_rep:
  assumes rep: "list_rep h l as"
  shows "\<exists>h' l'. List_Append h l x = Inr (h', l') \<and> list_rep h' l' (as @ [brk h])
     \<and> list_abs h' (as @ [brk h]) = lst_append (list_abs h as) x \<and> same_outside (set as) h h'"
proof (cases as rule: rev_cases)
  case Nil
  with rep show ?thesis
    by (auto simp: List_Append_def list_rep_def List_IsEmpty_def new_ListElement_def list_abs_def
        lst_append_def elt_def same_outside_def)
next
  case (snoc bs b)
  from rep snoc obtain e where e: "cells h b = Some e"
    unfolding list_rep_def by (metis lseg_mem in_set_conv_decomp)
  have fresh: "brk h \<notin> set as" and b: "b \<noteq> brk h" "b \<notin> set bs"
    using rep snoc by (auto simp: list_rep_def)
  have first: "l_first l \<noteq> None" using list_rep_IsEmpty [OF rep] snoc by (simp add: List_IsEmpty_def)
  let ?c = "(cells h)(brk h \<mapsto> \<lparr>le_next = None, le_key = 0, le_item = x\<rparr>)"
  let ?c' = "?c(b \<mapsto> e\<lparr>le_next := Some (brk h)\<rparr>)"
  have run: "List_Append h l x =
      Inr (h\<lparr>cells := ?c', brk := Suc (brk h)\<rparr>, l\<lparr>l_last := Some (brk h)\<rparr>)"
    using rep snoc e b first
    by (auto simp: List_Append_def new_ListElement_def List_IsEmpty_def set_next_def list_rep_def)
  have "lseg ?c (l_first l) (bs @ [b]) None"
    using rep snoc fresh by (simp add: list_rep_def)
  then have "lseg ?c' (l_first l) (bs @ [b]) (Some (brk h))"
    using b e by (intro lseg_redirect) auto
  then have "lseg ?c' (l_first l) ((bs @ [b]) @ [brk h]) None"
    using b by (subst lseg_append) auto
  then have "list_rep (h\<lparr>cells := ?c', brk := Suc (brk h)\<rparr>) (l\<lparr>l_last := Some (brk h)\<rparr>) (as @ [brk h])"
    using rep snoc by (auto simp: list_rep_def)
  moreover have "list_abs (h\<lparr>cells := ?c', brk := Suc (brk h)\<rparr>) (as @ [brk h]) = lst_append (list_abs h as) x"
    using snoc fresh b e by (auto simp: list_abs_def lst_append_def elt_def)
  moreover have "same_outside (set as) h (h\<lparr>cells := ?c', brk := Suc (brk h)\<rparr>)"
    using snoc by (auto simp: same_outside_def)
  ultimately show ?thesis using run by auto
qed

lemma List_Prepend_rep:
  assumes rep: "list_rep h l as"
  shows "\<exists>h' l'. List_Prepend h l x = Inr (h', l') \<and> list_rep h' l' (brk h # as)
     \<and> list_abs h' (brk h # as) = lst_prepend (list_abs h as) x \<and> same_outside (set as) h h'"
proof -
  have fresh: "brk h \<notin> set as" using rep by (auto simp: list_rep_def)
  show ?thesis
  proof (cases as)
    case Nil
    with rep show ?thesis
      by (auto simp: List_Prepend_def list_rep_def List_IsEmpty_def new_ListElement_def list_abs_def
          lst_prepend_def elt_def same_outside_def)
  next
    case (Cons a bs)
    with rep fresh show ?thesis
      by (auto simp: List_Prepend_def list_rep_def List_IsEmpty_def new_ListElement_def list_abs_def
          lst_prepend_def elt_def same_outside_def set_next_def split: option.splits)
  qed
qed

lemma lst_sorted_insert_skip:
  "\<forall>p\<in>set xs. fst p \<le> k \<Longrightarrow> lst_sorted_insert (xs @ ys) x k = xs @ lst_sorted_insert ys x k"
  by (induction xs) auto

lemma insert_loop_rep:
  assumes "list_rep h l (pre @ a # suf)" and "element \<notin> set (pre @ a # suf)" and "element < brk h"
    and "cells h element = Some \<lparr>le_next = None, le_key = k, le_item = x\<rparr>"
  shows "\<exists>h' l' as1 as2. insert_loop h l (Some a) element k = Some (Inr (h', l'))
     \<and> suf = as1 @ as2 \<and> list_rep h' l' (pre @ a # as1 @ element # as2)
     \<and> list_abs h' (pre @ a # as1 @ element # as2) =
         list_abs h (pre @ [a]) @ lst_sorted_insert (list_abs h suf) x k
     \<and> brk h' = brk h \<and> same_outside (insert element (set (pre @ a # suf))) h h'"
  using assms
proof (induction suf arbitrary: pre a)
  case Nil
  from Nil.prems(1) have seg: "lseg (cells h) (l_first l) (pre @ [a]) None"
    and d: "a \<notin> set pre" and la: "l_last l = Some a" by (auto simp: list_rep_def)
  then obtain c where c: "cells h a = Some c" and cn: "le_next c = None"
    by (auto simp: lseg_append split: option.splits)
  let ?h = "h\<lparr>cells := (cells h)(a \<mapsto> c\<lparr>le_next := Some element\<rparr>)\<rparr>"
  let ?l = "l\<lparr>l_last := Some element\<rparr>"
  have run: "insert_loop h l (Some a) element k = Some (Inr (?h, ?l))"
    by (subst insert_loop.simps) (simp add: deref_def c cn set_next_def la)
  have "lseg (cells ?h) (l_first l) (pre @ [a]) (Some element)"
    using lseg_redirect [OF seg d c] by simp
  then have "lseg (cells ?h) (l_first l) ((pre @ [a]) @ [element]) None"
    using Nil.prems(2,4) by (subst lseg_append) auto
  then have "list_rep ?h ?l (pre @ a # [] @ element # [])"
    using Nil.prems by (auto simp: list_rep_def)
  moreover have "list_abs ?h (pre @ a # [] @ element # []) =
      list_abs h (pre @ [a]) @ lst_sorted_insert (list_abs h []) x k"
    using Nil.prems c by (simp add: list_abs_def) (simp add: elt_def)
  moreover have "same_outside (insert element (set (pre @ [a]))) h ?h"
    by (auto simp: same_outside_def)
  ultimately show ?case using run by fastforce
next
  case (Cons b suf)
  from Cons.prems(1) have seg: "lseg (cells h) (l_first l) ((pre @ [a]) @ b # suf) None"
    and d: "a \<notin> set pre" "a \<noteq> b" "a \<notin> set suf" "b \<notin> set pre" "b \<notin> set suf"
    by (auto simp: list_rep_def)
  then obtain r where s1: "lseg (cells h) (l_first l) (pre @ [a]) (Some b)"
    and s2: "lseg (cells h) (Some b) (b # suf) None"
    by (subst (asm) lseg_append) auto
  then obtain c e where c: "cells h a = Some c" and cn: "le_next c = Some b"
    and e: "cells h b = Some e"
    by (auto simp: lseg_append split: option.splits)
  have ae: "a \<noteq> element" "b \<noteq> element" using Cons.prems(2) by auto
  show ?case
  proof (cases "k < le_key e")
    case True
    let ?n = "\<lparr>le_next = None, le_key = k, le_item = x\<rparr>\<lparr>le_next := Some b\<rparr>"
    let ?c1 = "(cells h)(element \<mapsto> ?n)"
    let ?h = "h\<lparr>cells := ?c1(a \<mapsto> c\<lparr>le_next := Some element\<rparr>)\<rparr>"
    have run: "insert_loop h l (Some a) element k = Some (Inr (?h, l))"
      using ae Cons.prems(4)
      by (subst insert_loop.simps) (simp add: deref_def c cn e True set_next_def)
    have "lseg ?c1 (l_first l) (pre @ [a]) (Some b)"
      using s1 Cons.prems(2) by simp
    then have "lseg (cells ?h) (l_first l) (pre @ [a]) (Some element)"
      using lseg_redirect [of ?c1 "l_first l" pre a "Some b" c "Some element"] d c ae by simp
    moreover have "lseg (cells ?h) (Some b) (b # suf) None"
      using s2 Cons.prems(2) d by (simp del: lseg.simps)
    ultimately have "lseg (cells ?h) (l_first l) ((pre @ [a]) @ element # b # suf) None"
      using ae by (subst lseg_append) (auto simp del: lseg.simps(2) simp add: lseg.simps(2) [of _ _ element])
    then have "list_rep ?h l (pre @ a # [] @ element # b # suf)"
      using Cons.prems by (auto simp: list_rep_def simp del: lseg.simps)
    moreover have "list_abs ?h (pre @ a # [] @ element # b # suf) =
        list_abs h (pre @ [a]) @ lst_sorted_insert (list_abs h (b # suf)) x k"
      using Cons.prems(2) c e d ae True by (simp add: list_abs_def) (simp add: elt_def)
    moreover have "same_outside (insert element (set (pre @ a # b # suf))) h ?h"
      by (auto simp: same_outside_def)
    ultimately show ?thesis using run by fastforce
  next
    case False
    have run: "insert_loop h l (Some a) element k = insert_loop h l (Some b) element k"
      by (subst insert_loop.simps) (simp add: deref_def c cn e False)
    from Cons.IH [of "pre @ [a]" b] Cons.prems obtain h' l' as1 as2 where
      IH: "insert_loop h l (Some b) element k = Some (Inr (h', l'))" "suf = as1 @ as2"
        "list_rep h' l' (pre @ a # b # as1 @ element # as2)"
        "list_abs h' (pre @ a # b # as1 @ element # as2) =
           list_abs h (pre @ [a, b]) @ lst_sorted_insert (list_abs h suf) x k"
        "brk h' = brk h" "same_outside (insert element (set (pre @ a # b # suf))) h h'"
      by auto
    have "list_abs h (pre @ [a, b]) @ lst_sorted_insert (list_abs h suf) x k =
        list_abs h (pre @ [a]) @ lst_sorted_insert (list_abs h (b # suf)) x k"
      using e False by (simp add: list_abs_def elt_def)
    with IH run show ?thesis by (intro exI [of _ h'] exI [of _ l'] exI [of _ "b # as1"] exI [of _ as2]) auto
  qed
qed

lemma List_SortedInsert_rep:
  assumes rep: "list_rep h l as"
  shows "\<exists>h' l' as1 as2. List_SortedInsert h l x k = Some (Inr (h', l')) \<and> as = as1 @ as2
     \<and> list_rep h' l' (as1 @ brk h # as2)
     \<and> list_abs h' (as1 @ brk h # as2) = lst_sorted_insert (list_abs h as) x k
     \<and> same_outside (set as) h h'"
proof -
  obtain h1 where new: "new_ListElement h x k = (h1, brk h)" by (simp add: new_ListElement_def)
  then have h1: "h1 = fst (new_ListElement h x k)" by simp
  have rep1: "list_rep h1 l as" and abs1: "list_abs h1 as = list_abs h as"
    and fresh: "brk h \<notin> set as" and out1: "same_outside (set as) h h1"
    using list_rep_new [OF rep, where x = x and k = k] h1 by (auto simp: new_ListElement_def)
  have cell: "cells h1 (brk h) = Some \<lparr>le_next = None, le_key = k, le_item = x\<rparr>" "brk h1 = Suc (brk h)"
    unfolding h1 by (simp_all add: new_ListElement_def)
  show ?thesis
  proof (cases as)
    case Nil
    then have "List_IsEmpty l" using list_rep_IsEmpty [OF rep] by simp
    then have "List_SortedInsert h l x k =
        Some (Inr (h1, \<lparr>l_first = Some (brk h), l_last = Some (brk h)\<rparr>))"
      by (simp add: List_SortedInsert_def new)
    with Nil cell out1 show ?thesis
      by (intro exI [of _ h1] exI [of _ "\<lparr>l_first = Some (brk h), l_last = Some (brk h)\<rparr>"]
          exI [of _ "[]"]) (auto simp: list_rep_def list_abs_def elt_def)
  next
    case (Cons a bs)
    then have ne: "\<not> List_IsEmpty l" using list_rep_IsEmpty [OF rep] by simp
    from rep1 Cons obtain c where c: "cells h1 a = Some c" and f: "l_first l = Some a"
      by (auto simp: list_rep_def split: option.splits)
    have elt_a: "list_abs h as = (le_key c, le_item c) # list_abs h1 bs"
      using abs1 Cons c by (simp add: list_abs_def elt_def)
    show ?thesis
    proof (cases "k < le_key c")
      case True
      let ?c = "(cells h1)(brk h \<mapsto> \<lparr>le_next = None, le_key = k, le_item = x\<rparr>\<lparr>le_next := Some a\<rparr>)"
      have "List_SortedInsert h l x k = Some (Inr (h1\<lparr>cells := ?c\<rparr>, l\<lparr>l_first := Some (brk h)\<rparr>))"
        using ne f c True cell by (simp add: List_SortedInsert_def new deref_def set_next_def)
      moreover have "list_rep (h1\<lparr>cells := ?c\<rparr>) (l\<lparr>l_first := Some (brk h)\<rparr>) ([] @ brk h # as)"
        using rep1 fresh Cons cell f by (auto simp: list_rep_def split: option.splits)
      moreover have "list_abs (h1\<lparr>cells := ?c\<rparr>) ([] @ brk h # as) = (k, x) # list_abs h as"
        using fresh abs1 by (simp add: list_abs_def) (simp add: elt_def)
      then have "list_abs (h1\<lparr>cells := ?c\<rparr>) ([] @ brk h # as) = lst_sorted_insert (list_abs h as) x k"
        using elt_a True by simp
      moreover have "same_outside (set as) h (h1\<lparr>cells := ?c\<rparr>)"
        using out1 by (auto simp: same_outside_def)
      ultimately show ?thesis by fastforce
    next
      case False
      then have run: "List_SortedInsert h l x k = insert_loop h1 l (Some a) (brk h) k"
        using ne f c by (simp add: List_SortedInsert_def new deref_def)
      from insert_loop_rep [of h1 l "[]" a bs "brk h" k x] rep1 Cons fresh cell
      obtain h' l' as1 as2 where r: "insert_loop h1 l (Some a) (brk h) k = Some (Inr (h', l'))"
        "bs = as1 @ as2" "list_rep h' l' (a # as1 @ brk h # as2)"
        "list_abs h' (a # as1 @ brk h # as2) = list_abs h1 [a] @ lst_sorted_insert (list_abs h1 bs) x k"
        "brk h' = brk h1" "same_outside (insert (brk h) (set as)) h1 h'"
        by auto
      have "list_abs h1 [a] @ lst_sorted_insert (list_abs h1 bs) x k = lst_sorted_insert (list_abs h as) x k"
        using elt_a c False by (simp add: list_abs_def elt_def)
      moreover have "same_outside (set as) h h'"
        using r(5,6) out1 cell(2) by (auto simp: same_outside_def)
      ultimately show ?thesis
        using run r Cons by (intro exI [of _ h'] exI [of _ l'] exI [of _ "a # as1"] exI [of _ as2]) auto
    qed
  qed
qed

lemma List_SortedRemove_Nil:
  "list_rep h l [] \<Longrightarrow> List_SortedRemove h l = Inr (h, l, None, None)"
  by (simp add: List_SortedRemove_def list_rep_def)

lemma List_SortedRemove_rep:
  assumes rep: "list_rep h l (a # as)"
  shows "\<exists>h' l'. List_SortedRemove h l = Inr (h', l', snd (elt (cells h) a), Some (fst (elt (cells h) a)))
     \<and> list_rep h' l' as \<and> list_abs h' as = list_abs h as \<and> same_outside (set (a # as)) h h'"
proof -
  from rep obtain c where c: "cells h a = Some c" and f: "l_first l = Some a"
    and seg: "lseg (cells h) (le_next c) as None" and d: "a \<notin> set as" "distinct as"
    by (auto simp: list_rep_def split: option.splits)
  have one: "l_first l = l_last l \<longleftrightarrow> as = []"
    using rep f d by (auto simp: list_rep_def)
  let ?l = "if as = [] then \<lparr>l_first = None, l_last = None\<rparr> else l\<lparr>l_first := le_next c\<rparr>"
  have "List_SortedRemove h l = Inr (delete_cell h a, ?l, le_item c, Some (le_key c))"
    using f c one by (simp add: List_SortedRemove_def deref_def)
  moreover have "list_rep (delete_cell h a) ?l as"
    using rep seg d by (auto simp: list_rep_def delete_cell_def)
  moreover have "list_abs (delete_cell h a) as = list_abs h as"
    using d by (simp add: list_abs_def delete_cell_def)
  moreover have "same_outside (set (a # as)) h (delete_cell h a)"
    by (auto simp: same_outside_def delete_cell_def)
  ultimately show ?thesis using c by (simp add: elt_def)
qed

lemma Mapcar_loop_seg:
  "lseg (cells h) p as None \<Longrightarrow>
   Mapcar_loop func h p s = Some (Inr (fold (\<lambda>kx. func (snd kx)) (list_abs h as) s))"
proof (induction as arbitrary: p s)
  case Nil
  then show ?case by (subst Mapcar_loop.simps) (simp add: list_abs_def)
next
  case (Cons a as)
  then show ?case
    by (subst Mapcar_loop.simps) (auto simp: list_abs_def elt_def deref_def split: option.splits)
qed

lemma List_Mapcar_rep:
  "list_rep h l as \<Longrightarrow>
   List_Mapcar func h l s = Some (Inr (fold (\<lambda>kx. func (snd kx)) (list_abs h as) s))"
  by (simp add: List_Mapcar_def list_rep_def Mapcar_loop_seg)

text \<open>The destructor frees the whole list when no item is a null pointer.\<close>

lemma List_Destruct_rep:
  "list_rep h l as \<Longrightarrow> \<forall>kx\<in>set (list_abs h as). snd kx \<noteq> None \<Longrightarrow>
   \<exists>h' l'. List_Destruct h l = Some (Inr (h', l')) \<and> list_rep h' l' [] \<and> same_outside (set as) h h'"
proof (induction as arbitrary: h l)
  case Nil
  then show ?case
    by (subst List_Destruct.simps)
      (auto simp: List_Remove_def List_SortedRemove_Nil same_outside_def)
next
  case (Cons a as)
  from List_SortedRemove_rep [OF Cons.prems(1)] obtain h1 l1 where
    r: "List_SortedRemove h l = Inr (h1, l1, snd (elt (cells h) a), Some (fst (elt (cells h) a)))"
      "list_rep h1 l1 as" "list_abs h1 as = list_abs h as" "same_outside (set (a # as)) h h1"
    by blast
  from Cons.prems(2) obtain y where y: "snd (elt (cells h) a) = Some y"
    by (auto simp: list_abs_def)
  have "List_Destruct h l = List_Destruct h1 l1"
    by (subst List_Destruct.simps) (simp add: List_Remove_def r(1) y)
  moreover obtain h' l' where "List_Destruct h1 l1 = Some (Inr (h', l'))" "list_rep h' l' []"
    "same_outside (set as) h1 h'"
    using Cons.IH [OF r(2)] Cons.prems(2) r(3) by (auto simp: list_abs_def)
  ultimately show ?case using r(4) by (auto simp: same_outside_def)
qed

subsection \<open>The length query\<close>

lemma length_loop_diverges: "p \<noteq> l \<Longrightarrow> length_loop p l i = None"
proof (rule ccontr)
  assume ne: "p \<noteq> l" and "length_loop p l i \<noteq> None"
  then obtain r where ret: "length_loop p l i = Some r" by blast
  have "p = l"
  proof (rule length_loop.raw_induct [where P = "\<lambda>p l i r. p = l", OF _ ret])
    fix f p l i r
    assume IH: "\<And>p l i r. f p l i = Some r \<Longrightarrow> p = l"
      and eq: "(if p \<noteq> l then f p l (i + 1) else Some i) = Some r"
    show "p = l" using IH eq by (cases "p = l") auto
  qed
  with ne show False by simp
qed

subsection \<open>The list interface and what its clients rely on\<close>

text \<open>Runs of operations, written once for any implementation of the interface.\<close>

fun append_seq :: "('q \<Rightarrow> 'a option \<Rightarrow> 'q result) \<Rightarrow> 'q \<Rightarrow> 'a option list \<Rightarrow> 'q result" where
  "append_seq app q [] = Inr q"
| "append_seq app q (x # xs) = rbind (app q x) (\<lambda>q. append_seq app q xs)"

fun insert_seq ::
  "('q \<Rightarrow> 'a option \<Rightarrow> int \<Rightarrow> 'q result option) \<Rightarrow> 'q \<Rightarrow> (int \<times> 'a option) list \<Rightarrow> 'q result option" where
  "insert_seq ins q [] = Some (Inr q)"
| "insert_seq ins q ((k, x) # xs) =
     (case ins q x k of None \<Rightarrow> None | Some (Inl e) \<Rightarrow> Some (Inl e) | Some (Inr q) \<Rightarrow> insert_seq ins q xs)"

fun remove_seq ::
  "('q \<Rightarrow> ('q \<times> 'a option \<times> int option) result) \<Rightarrow> nat \<Rightarrow> 'q \<Rightarrow> ('q \<times> (int option \<times> 'a option) list) result" where
  "remove_seq rem 0 q = Inr (q, [])"
| "remove_seq rem (Suc n) q =
     rbind (rem q) (\<lambda>(q, x, k). rbind (remove_seq rem n q) (\<lambda>(q, xs). Inr (q, (k, x) # xs)))"

locale kernel_list =
  fixes rep :: "'q \<Rightarrow> (int \<times> 'a option) list \<Rightarrow> bool"
    and app :: "'q \<Rightarrow> 'a option \<Rightarrow> 'q result"
    and ins :: "'q \<Rightarrow> 'a option \<Rightarrow> int \<Rightarrow> 'q result option"
    and rem :: "'q \<Rightarrow> ('q \<times> 'a option \<times> int option) result"
  assumes app_rep: "rep q xs \<Longrightarrow> \<exists>q'. app q x = Inr q' \<and> rep q' (lst_append xs x)"
    and ins_rep: "rep q xs \<Longrightarrow> \<exists>q'. ins q x k = Some (Inr q') \<and> rep q' (lst_sorted_insert xs x k)"
    and rem_Nil: "rep q [] \<Longrightarrow> rem q = Inr (q, None, None)"
    and rem_rep: "rep q ((k, x) # xs) \<Longrightarrow> \<exists>q'. rem q = Inr (q', x, Some k) \<and> rep q' xs"
begin

lemma append_seq_rep:
  "rep q xs \<Longrightarrow> \<exists>q'. append_seq app q ys = Inr q' \<and> rep q' (xs @ map (Pair 0) ys)"
proof (induction ys arbitrary: q xs)
  case (Cons y ys)
  from app_rep [OF Cons.prems, of y] obtain q1 where "app q y = Inr q1" "rep q1 (xs @ [(0, y)])"
    by (auto simp: lst_append_def)
  with Cons.IH [of q1 "xs @ [(0, y)]"] show ?case by auto
qed auto

lemma insert_seq_rep:
  "rep q xs \<Longrightarrow> \<exists>q'. insert_seq ins q ys = Some (Inr q')
     \<and> rep q' (fold (\<lambda>(k, x) acc. lst_sorted_insert acc x k) ys xs)"
proof (induction ys arbitrary: q xs)
  case (Cons y ys)
  obtain k x where y: "y = (k, x)" by force
  from ins_rep [OF Cons.prems, of x k] obtain q1 where
    "ins q x k = Some (Inr q1)" "rep q1 (lst_sorted_insert xs x k)" by blast
  with Cons.IH [of q1] y show ?case by auto
qed auto

lemma remove_seq_rep:
  "rep q xs \<Longrightarrow>
   \<exists>q'. remove_seq rem (length xs) q = Inr (q', map (\<lambda>(k, x). (Some k, x)) xs) \<and> rep q' []"
proof (induction xs arbitrary: q)
  case (Cons y xs)
  obtain k x where y: "y = (k, x)" by force
  with rem_rep [of q k x xs] Cons.prems obtain q1 where "rem q = Inr (q1, x, Some k)" "rep q1 xs"
    by auto
  with Cons.IH [of q1] y show ?case by auto
qed auto

end

text \<open>A run of sorted insertions into an empty list is a stable sort by key.\<close>

lemma fold_sorted_insert_key_sorted:
  "key_sorted acc \<Longrightarrow> key_sorted (fold (\<lambda>(k, x) acc. lst_sorted_insert acc x k) ys acc)"
  by (induction ys arbitrary: acc) (auto simp: key_sorted_lst_sorted_insert)

lemma mset_lst_sorted_insert [simp]: "mset (lst_sorted_insert xs x k) = add_mset (k, x) (mset xs)"
  by (induction xs x k rule: lst_sorted_insert.induct) auto

lemma mset_fold_sorted_insert:
  "mset (fold (\<lambda>(k, x) acc. lst_sorted_insert acc x k) ys acc) = mset acc + mset ys"
  by (induction ys arbitrary: acc) auto

lemma filter_fold_sorted_insert:
  "key_sorted acc \<Longrightarrow>
   filter (\<lambda>p. fst p = j) (fold (\<lambda>(k, x) acc. lst_sorted_insert acc x k) ys acc) =
   filter (\<lambda>p. fst p = j) acc @ filter (\<lambda>p. fst p = j) ys"
  by (induction ys arbitrary: acc)
    (auto simp: key_sorted_lst_sorted_insert filter_lst_sorted_insert)

lemma fold_sorted_insert_sort_key:
  "fold (\<lambda>(k, x) acc. lst_sorted_insert acc x k) ys [] = sort_key fst ys"
proof (rule properties_for_sort_key [symmetric])
  fix k :: "int \<times> 'a"
  show "filter (\<lambda>x. fst k = fst x) (fold (\<lambda>(k, x) acc. lst_sorted_insert acc x k) ys []) =
        filter (\<lambda>x. fst k = fst x) ys"
    using filter_fold_sorted_insert [of "[]" "fst k" ys] by (simp add: eq_commute)
qed (simp_all add: mset_fold_sorted_insert fold_sorted_insert_key_sorted)

subsection \<open>The pointer implementation provides the interface\<close>

definition plist_rep :: "'a list_store \<times> klist \<Rightarrow> (int \<times> 'a option) list \<Rightarrow> bool" where
  "plist_rep q xs \<longleftrightarrow> (\<exists>as. list_rep (fst q) (snd q) as \<and> xs = list_abs (fst q) as)"

definition plist_append :: "'a list_store \<times> klist \<Rightarrow> 'a option \<Rightarrow> ('a list_store \<times> klist) result" where
  "plist_append q x = List_Append (fst q) (snd q) x"

definition plist_insert ::
  "'a list_store \<times> klist \<Rightarrow> 'a option \<Rightarrow> int \<Rightarrow> ('a list_store \<times> klist) result option" where
  "plist_insert q x k = List_SortedInsert (fst q) (snd q) x k"

definition plist_remove ::
  "'a list_store \<times> klist \<Rightarrow> (('a list_store \<times> klist) \<times> 'a option \<times> int option) result" where
  "plist_remove q = rbind (List_SortedRemove (fst q) (snd q)) (\<lambda>(h, l, x, k). Inr ((h, l), x, k))"

lemma plist_rep_List_List: "plist_rep (h, List_List) []"
  using List_List_rep [of h] by (auto simp: plist_rep_def list_abs_def intro!: exI [of _ "[]"])

interpretation plist: kernel_list plist_rep plist_append plist_insert plist_remove
proof
  fix q :: "'a list_store \<times> klist" and xs x k
  assume "plist_rep q xs"
  then show "\<exists>q'. plist_append q x = Inr q' \<and> plist_rep q' (lst_append xs x)"
    using List_Append_rep [of "fst q" "snd q" _ x] by (fastforce simp: plist_rep_def plist_append_def)
next
  fix q :: "'a list_store \<times> klist" and xs x k
  assume "plist_rep q xs"
  then show "\<exists>q'. plist_insert q x k = Some (Inr q') \<and> plist_rep q' (lst_sorted_insert xs x k)"
    using List_SortedInsert_rep [of "fst q" "snd q" _ x k]
    by (fastforce simp: plist_rep_def plist_insert_def)
next
  fix q :: "'a list_store \<times> klist"
  assume "plist_rep q []"
  then show "plist_remove q = Inr (q, None, None)"
    by (auto simp: plist_rep_def plist_remove_def list_abs_def List_SortedRemove_Nil)
next
  fix q :: "'a list_store \<times> klist" and k x xs
  assume "plist_rep q ((k, x) # xs)"
  then obtain a as where "list_rep (fst q) (snd q) (a # as)" "elt (cells (fst q)) a = (k, x)"
    "xs = list_abs (fst q) as"
    by (auto simp: plist_rep_def list_abs_def Cons_eq_map_conv)
  then show "\<exists>q'. plist_remove q = Inr (q', x, Some k) \<and> plist_rep q' xs"
    using List_SortedRemove_rep [of "fst q" "snd q" a as]
    by (auto simp: plist_rep_def plist_remove_def intro!: exI [of _ as])
qed

subsection \<open>Properties\<close>

text \<open>
  (C11) Sorted insertion refines the abstract list: on a well-formed list the pointer walk of
  \<^verbatim>\<open>List::SortedInsert\<close> always returns, puts the new element before the first element with a
  bigger key, leaves a well-formed list, and changes no cell outside the list.
\<close>

theorem List_SortedInsert_refines:
  assumes "list_rep h l as"
  shows "\<exists>h' l' as1 as2. List_SortedInsert h l x k = Some (Inr (h', l')) \<and> as = as1 @ as2
     \<and> list_rep h' l' (as1 @ brk h # as2)
     \<and> list_abs h' (as1 @ brk h # as2) =
         takeWhile (\<lambda>p. fst p \<le> k) (list_abs h as) @ (k, x) # dropWhile (\<lambda>p. fst p \<le> k) (list_abs h as)
     \<and> same_outside (set as) h h'"
  using List_SortedInsert_rep [OF assms, of x k] by (simp add: lst_sorted_insert_split)

definition example_store :: "string list_store" where
  "example_store = \<lparr>cells = [0 \<mapsto> \<lparr>le_next = Some 1, le_key = 3, le_item = Some ''a''\<rparr>,
     1 \<mapsto> \<lparr>le_next = None, le_key = 7, le_item = Some ''b''\<rparr>], brk = 2\<rparr>"

definition example_list :: klist where
  "example_list = \<lparr>l_first = Some 0, l_last = Some 1\<rparr>"

lemma example_list_rep: "list_rep example_store example_list [0, 1]"
  by (simp add: list_rep_def example_store_def example_list_def)

theorem List_SortedInsert_refines_witness:
  "list_rep example_store example_list [0, 1]
   \<and> (\<exists>h' l' as1 as2. List_SortedInsert example_store example_list (Some ''c'') 5 = Some (Inr (h', l'))
       \<and> [0, 1] = as1 @ as2 \<and> list_rep h' l' (as1 @ 2 # as2)
       \<and> list_abs h' (as1 @ 2 # as2) = [(3, Some ''a''), (5, Some ''c''), (7, Some ''b'')]
       \<and> same_outside {0, 1} example_store h')"
proof -
  have b: "brk example_store = 2"
    and a: "list_abs example_store [0, 1] = [(3, Some ''a''), (7, Some ''b'')]"
    by (simp_all add: example_store_def list_abs_def elt_def)
  show ?thesis
    using example_list_rep List_SortedInsert_refines [OF example_list_rep, of "Some ''c''" 5]
    unfolding b a by simp
qed

text \<open>
  A new list is a stable priority queue: inserting any sequence of keyed items with
  \<^verbatim>\<open>SortedInsert\<close> and then removing them all with \<^verbatim>\<open>SortedRemove\<close> returns them sorted by key,
  items of equal key in insertion order; no operation fails or diverges.
\<close>

theorem List_sorted_run:
  "\<exists>q q'. insert_seq plist_insert (h, List_List) reqs = Some (Inr q)
     \<and> remove_seq plist_remove (length reqs) q = Inr (q', map (\<lambda>(k, x). (Some k, x)) (sort_key fst reqs))"
proof -
  obtain q where q: "insert_seq plist_insert (h, List_List) reqs = Some (Inr q)"
    "plist_rep q (sort_key fst reqs)"
    using plist.insert_seq_rep [OF plist_rep_List_List, of h reqs]
    by (auto simp: fold_sorted_insert_sort_key)
  with plist.remove_seq_rep [OF q(2)] show ?thesis by auto
qed

text \<open>
  A new list is a FIFO queue: appending any items and removing as many returns them in the
  order they were appended.
\<close>

theorem List_fifo_run:
  "\<exists>q q'. append_seq plist_append (h, List_List) items = Inr q
     \<and> remove_seq plist_remove (length items) q = Inr (q', map (Pair (Some 0)) items)"
proof -
  obtain q where q: "append_seq plist_append (h, List_List) items = Inr q"
    "plist_rep q (map (Pair 0) items)"
    using plist.append_seq_rep [OF plist_rep_List_List, of h items] by auto
  with plist.remove_seq_rep [OF q(2)] show ?thesis by (auto simp: o_def)
qed

text \<open>
  (C39) \<^verbatim>\<open>List::GetListLength\<close> returns only on lists of at most one element; on every longer list it
  loops forever, because its loop never advances the pointer it compares.
\<close>

theorem List_GetListLength_result:
  assumes "list_rep h l as"
  shows "List_GetListLength l = (if length as \<le> 1 then Some (int (length as)) else None)"
proof (cases as)
  case Nil
  with assms show ?thesis by (simp add: list_rep_def List_GetListLength_def)
next
  case (Cons a bs)
  then have f: "l_first l = Some a" and la: "l_last l = Some (last (a # bs))"
    and d: "a \<notin> set bs"
    using assms by (auto simp: list_rep_def)
  show ?thesis
  proof (cases "bs = []")
    case True
    then show ?thesis using f la Cons by (simp add: List_GetListLength_def length_loop.simps)
  next
    case False
    then have "l_first l \<noteq> l_last l" using f la d last_in_set [OF False] by auto
    then show ?thesis
      using f Cons False by (cases bs) (auto simp: List_GetListLength_def length_loop_diverges)
  qed
qed

theorem List_GetListLength_result_witness:
  "list_rep example_store example_list [0, 1] \<and> List_GetListLength example_list = None"
  using example_list_rep List_GetListLength_result [OF example_list_rep] by simp

end
