(* ===== verification/Nachos_Bitmap.thy ===== *)
theory Nachos_Bitmap
  imports Nachos_Prelude
begin

text \<open>
  The bitmap of \<^verbatim>\<open>userprog/bitmap.h\<close> and \<^verbatim>\<open>userprog/bitmap.cc\<close> on its array of 32-bit words.
  Every operation is refined to the set of marked bits; an interface locale states what the
  clients (sector allocation, page allocation) rely on, and the bitmap provides it.
\<close>

subsection \<open>Data and operations\<close>

record bitmap =
  numBits :: int
  numWords :: int
  bm_map :: "32 word list"

abbreviation (input) BitsInWord :: int where
  "BitsInWord \<equiv> 32"

text \<open>The \<open>n\<close>-th word of the array, with the access outside it made visible.\<close>

definition map_at :: "bitmap \<Rightarrow> int \<Rightarrow> 32 word result" where
  "map_at bm n = (if 0 \<le> n \<and> n < int (length (bm_map bm)) then Inr (bm_map bm ! nat n) else Inl OutOfBounds)"

definition map_put :: "bitmap \<Rightarrow> int \<Rightarrow> 32 word \<Rightarrow> bitmap" where
  "map_put bm n w = bm\<lparr>bm_map := (bm_map bm)[nat n := w]\<rparr>"

definition BitMap_Mark :: "bitmap \<Rightarrow> int \<Rightarrow> bitmap result" where
  "BitMap_Mark bm which =
     ASSERT (which \<ge> 0 \<and> which < numBits bm)
       (rbind (map_at bm (cdiv which BitsInWord)) (\<lambda>w.
          Inr (map_put bm (cdiv which BitsInWord) (w OR push_bit (nat (cmod which BitsInWord)) 1))))"

definition BitMap_Clear :: "bitmap \<Rightarrow> int \<Rightarrow> bitmap result" where
  "BitMap_Clear bm which =
     ASSERT (which \<ge> 0 \<and> which < numBits bm)
       (rbind (map_at bm (cdiv which BitsInWord)) (\<lambda>w.
          Inr (map_put bm (cdiv which BitsInWord) (w AND NOT (push_bit (nat (cmod which BitsInWord)) 1)))))"

definition BitMap_Test :: "bitmap \<Rightarrow> int \<Rightarrow> bool result" where
  "BitMap_Test bm which =
     ASSERT (which \<ge> 0 \<and> which < numBits bm)
       (rbind (map_at bm (cdiv which BitsInWord)) (\<lambda>w.
          Inr (w AND push_bit (nat (cmod which BitsInWord)) 1 \<noteq> 0)))"

text \<open>
  A \<^verbatim>\<open>for\<close> loop over \<open>0 .. n - 1\<close> is a recursion on the list of the values its variable takes.
  The storage \<^verbatim>\<open>new\<close> returns is uninitialised: \<open>garbage\<close> is what it holds.
\<close>

fun clear_loop :: "bitmap \<Rightarrow> int list \<Rightarrow> bitmap result" where
  "clear_loop bm [] = Inr bm"
| "clear_loop bm (i # is) = rbind (BitMap_Clear bm i) (\<lambda>bm. clear_loop bm is)"

definition BitMap_BitMap :: "(nat \<Rightarrow> 32 word) \<Rightarrow> int \<Rightarrow> bitmap result" where
  "BitMap_BitMap garbage nitems =
     (let nw = divRoundUp nitems BitsInWord
      in clear_loop \<lparr>numBits = nitems, numWords = nw, bm_map = map garbage [0..<nat nw]\<rparr>
           [0..nitems - 1])"

fun find_loop :: "bitmap \<Rightarrow> int list \<Rightarrow> (bitmap \<times> int) result" where
  "find_loop bm [] = Inr (bm, - 1)"
| "find_loop bm (i # is) =
     rbind (BitMap_Test bm i) (\<lambda>t.
       if \<not> t then rbind (BitMap_Mark bm i) (\<lambda>bm. Inr (bm, i)) else find_loop bm is)"

definition BitMap_Find :: "bitmap \<Rightarrow> (bitmap \<times> int) result" where
  "BitMap_Find bm = find_loop bm [0..numBits bm - 1]"

fun test_run :: "bitmap \<Rightarrow> int \<Rightarrow> bool \<Rightarrow> int list \<Rightarrow> bool result" where
  "test_run bm i flag [] = Inr flag"
| "test_run bm i flag (j # js) =
     rbind (BitMap_Test bm (i + j)) (\<lambda>t. test_run bm i (if t then False else flag) js)"

fun mark_run :: "bitmap \<Rightarrow> int \<Rightarrow> int list \<Rightarrow> bitmap result" where
  "mark_run bm i [] = Inr bm"
| "mark_run bm i (j # js) = rbind (BitMap_Mark bm (i + j)) (\<lambda>bm. mark_run bm i js)"

fun first_find_loop :: "bitmap \<Rightarrow> int \<Rightarrow> int list \<Rightarrow> (bitmap \<times> int) result" where
  "first_find_loop bm sz [] = Inr (bm, - 1)"
| "first_find_loop bm sz (i # is) =
     rbind (test_run bm i True [0..sz - 1]) (\<lambda>flag.
       if flag then rbind (mark_run bm i [0..sz - 1]) (\<lambda>bm. Inr (bm, i))
       else first_find_loop bm sz is)"

definition BitMap_FirstFind :: "bitmap \<Rightarrow> int \<Rightarrow> (bitmap \<times> int) result" where
  "BitMap_FirstFind bm sz = first_find_loop bm sz [0..numBits bm - 1]"

fun count_loop :: "bitmap \<Rightarrow> int \<Rightarrow> int list \<Rightarrow> int result" where
  "count_loop bm count [] = Inr count"
| "count_loop bm count (i # is) =
     rbind (BitMap_Test bm i) (\<lambda>t. count_loop bm (if \<not> t then count + 1 else count) is)"

definition BitMap_NumClear :: "bitmap \<Rightarrow> int result" where
  "BitMap_NumClear bm = count_loop bm 0 [0..numBits bm - 1]"

text \<open>\<^verbatim>\<open>Print\<close> returns the bit numbers it prints.\<close>

fun print_loop :: "bitmap \<Rightarrow> int list \<Rightarrow> int list result" where
  "print_loop bm [] = Inr []"
| "print_loop bm (i # is) =
     rbind (BitMap_Test bm i) (\<lambda>t.
       rbind (print_loop bm is) (\<lambda>out. Inr (if t then i # out else out)))"

definition BitMap_Print :: "bitmap \<Rightarrow> int list result" where
  "BitMap_Print bm = print_loop bm [0..numBits bm - 1]"

subsection \<open>The set of marked bits\<close>

definition bm_bit :: "bitmap \<Rightarrow> int \<Rightarrow> bool" where
  "bm_bit bm i = bit (bm_map bm ! nat (i div 32)) (nat (i mod 32))"

definition bits_of :: "bitmap \<Rightarrow> int set" where
  "bits_of bm = {i. 0 \<le> i \<and> i < numBits bm \<and> bm_bit bm i}"

definition bitmap_ok :: "bitmap \<Rightarrow> bool" where
  "bitmap_ok bm \<longleftrightarrow> 0 \<le> numBits bm \<and> numWords bm = divRoundUp (numBits bm) BitsInWord
     \<and> int (length (bm_map bm)) = numWords bm"

definition bm_update :: "bitmap \<Rightarrow> int \<Rightarrow> bool \<Rightarrow> bitmap" where
  "bm_update bm i b =
     map_put bm (i div 32)
       ((if b then set_bit else unset_bit) (nat (i mod 32)) (bm_map bm ! nat (i div 32)))"

lemma bitmap_word_in_range:
  assumes "bitmap_ok bm" "0 \<le> i" "i < numBits bm"
  shows "i div 32 < int (length (bm_map bm))"
proof -
  have "numBits bm \<le> divRoundUp (numBits bm) 32 * 32"
    using assms divRoundUp_covers [of "numBits bm" 32] by simp
  then show ?thesis using assms by (auto simp: bitmap_ok_def)
qed

lemma map_at_ok:
  "bitmap_ok bm \<Longrightarrow> 0 \<le> i \<Longrightarrow> i < numBits bm \<Longrightarrow> map_at bm (i div 32) = Inr (bm_map bm ! nat (i div 32))"
  using bitmap_word_in_range [of bm i] by (simp add: map_at_def pos_imp_zdiv_nonneg_iff)

lemma BitMap_Test_ok:
  "bitmap_ok bm \<Longrightarrow> 0 \<le> i \<Longrightarrow> i < numBits bm \<Longrightarrow> BitMap_Test bm i = Inr (i \<in> bits_of bm)"
  by (simp add: BitMap_Test_def map_at_ok bits_of_def bm_bit_def and_exp_eq_0_iff_not_bit push_bit_of_1)

lemma BitMap_Test_out: "i < 0 \<or> numBits bm \<le> i \<Longrightarrow> BitMap_Test bm i = Inl AssertFail"
  by (auto simp: BitMap_Test_def ASSERT_def)

lemma BitMap_Mark_ok:
  "bitmap_ok bm \<Longrightarrow> 0 \<le> i \<Longrightarrow> i < numBits bm \<Longrightarrow> BitMap_Mark bm i = Inr (bm_update bm i True)"
  by (simp add: BitMap_Mark_def map_at_ok bm_update_def set_bit_eq_or push_bit_of_1)

lemma BitMap_Clear_ok:
  "bitmap_ok bm \<Longrightarrow> 0 \<le> i \<Longrightarrow> i < numBits bm \<Longrightarrow> BitMap_Clear bm i = Inr (bm_update bm i False)"
  by (simp add: BitMap_Clear_def map_at_ok bm_update_def unset_bit_eq_and_not push_bit_of_1)

lemma numBits_bm_update [simp]: "numBits (bm_update bm i b) = numBits bm"
  by (simp add: bm_update_def map_put_def)

lemma bitmap_ok_bm_update [simp]: "bitmap_ok (bm_update bm i b) = bitmap_ok bm"
  by (simp add: bm_update_def map_put_def bitmap_ok_def)

lemma same_word_bit:
  assumes "(i::int) \<ge> 0" "j \<ge> 0" "nat (i div 32) = nat (j div 32)" "nat (i mod 32) = nat (j mod 32)"
  shows "i = j"
proof -
  have "i div 32 = j div 32"
    using assms(1-3) by (subst (asm) eq_nat_nat_iff) (simp_all add: pos_imp_zdiv_nonneg_iff)
  moreover have "i mod 32 = j mod 32"
    using assms(4) by (subst (asm) eq_nat_nat_iff) simp_all
  ultimately show ?thesis by (metis div_mult_mod_eq)
qed

lemma bm_bit_bm_update:
  assumes "bitmap_ok bm" "0 \<le> i" "i < numBits bm" "0 \<le> j"
  shows "bm_bit (bm_update bm i b) j = (if j = i then b else bm_bit bm j)"
proof (cases "nat (j div 32) = nat (i div 32)")
  case True
  have len: "nat (i div 32) < length (bm_map bm)"
    using bitmap_word_in_range [OF assms(1-3)] assms(2) by (simp add: nat_less_iff pos_imp_zdiv_nonneg_iff)
  have bound: "nat (k mod 32) < 32" for k :: int by (simp add: nat_less_iff)
  have "j = i \<longleftrightarrow> nat (j mod 32) = nat (i mod 32)"
    using same_word_bit [OF assms(4,2) True] by auto
  with True len bound [of j] bound [of i] show ?thesis
    by (simp add: bm_bit_def bm_update_def map_put_def bit_simps)
next
  case False
  then show ?thesis by (auto simp: bm_bit_def bm_update_def map_put_def)
qed

lemma bits_of_bm_update:
  assumes "bitmap_ok bm" "0 \<le> i" "i < numBits bm"
  shows "bits_of (bm_update bm i b) = (if b then insert i (bits_of bm) else bits_of bm - {i})"
  using assms by (auto simp: bits_of_def bm_bit_bm_update split: if_splits)

lemma bits_of_subset: "bits_of bm \<subseteq> {0..<numBits bm}"
  by (auto simp: bits_of_def)

lemma finite_bits_of [simp]: "finite (bits_of bm)"
  by (rule finite_subset [OF bits_of_subset]) simp

subsection \<open>The loops\<close>

lemma find_loop_ok:
  assumes "bitmap_ok bm" "set is \<subseteq> {0..<numBits bm}"
  shows "find_loop bm is = (case List.find (\<lambda>i. i \<notin> bits_of bm) is of
           None \<Rightarrow> Inr (bm, - 1) | Some i \<Rightarrow> Inr (bm_update bm i True, i))"
  using assms(2) by (induction "is") (simp_all add: BitMap_Test_ok BitMap_Mark_ok assms(1))

lemma count_loop_ok:
  assumes "bitmap_ok bm" "set is \<subseteq> {0..<numBits bm}"
  shows "count_loop bm c is = Inr (c + int (length (filter (\<lambda>i. i \<notin> bits_of bm) is)))"
  using assms(2) by (induction "is" arbitrary: c) (simp_all add: BitMap_Test_ok assms(1))

lemma print_loop_ok:
  assumes "bitmap_ok bm" "set is \<subseteq> {0..<numBits bm}"
  shows "print_loop bm is = Inr (filter (\<lambda>i. i \<in> bits_of bm) is)"
  using assms(2) by (induction "is") (simp_all add: BitMap_Test_ok assms(1))

lemma clear_loop_ok:
  assumes "bitmap_ok bm" "set is \<subseteq> {0..<numBits bm}"
  shows "\<exists>bm'. clear_loop bm is = Inr bm' \<and> bitmap_ok bm' \<and> numBits bm' = numBits bm
     \<and> bits_of bm' = bits_of bm - set is"
  using assms
proof (induction "is" arbitrary: bm)
  case (Cons i "is")
  then have "BitMap_Clear bm i = Inr (bm_update bm i False)"
    and "bits_of (bm_update bm i False) = bits_of bm - {i}"
    by (simp_all add: BitMap_Clear_ok bits_of_bm_update)
  with Cons.IH [of "bm_update bm i False"] Cons.prems show ?case
    by (auto intro: exI)
qed simp

lemma test_run_ok:
  assumes "bitmap_ok bm" "\<forall>j\<in>set js. 0 \<le> i + j \<and> i + j < numBits bm"
  shows "test_run bm i flag js = Inr (flag \<and> (\<forall>j\<in>set js. i + j \<notin> bits_of bm))"
  using assms(2) by (induction js arbitrary: flag) (auto simp: BitMap_Test_ok assms(1))

lemma test_run_out:
  assumes "bitmap_ok bm" "\<exists>j\<in>set js. i + j < 0 \<or> numBits bm \<le> i + j"
  shows "test_run bm i flag js = Inl AssertFail"
  using assms(2)
proof (induction js arbitrary: flag)
  case (Cons j js)
  show ?case
  proof (cases "i + j < 0 \<or> numBits bm \<le> i + j")
    case True
    then show ?thesis by (simp add: BitMap_Test_out)
  next
    case False
    then show ?thesis using Cons by (simp add: BitMap_Test_ok assms(1))
  qed
qed simp

lemma mark_run_ok:
  assumes "bitmap_ok bm" "\<forall>j\<in>set js. 0 \<le> i + j \<and> i + j < numBits bm"
  shows "\<exists>bm'. mark_run bm i js = Inr bm' \<and> bitmap_ok bm' \<and> numBits bm' = numBits bm
     \<and> bits_of bm' = bits_of bm \<union> (\<lambda>j. i + j) ` set js"
  using assms
proof (induction js arbitrary: bm)
  case (Cons j js)
  then have "BitMap_Mark bm (i + j) = Inr (bm_update bm (i + j) True)"
    and "bits_of (bm_update bm (i + j) True) = insert (i + j) (bits_of bm)"
    by (simp_all add: BitMap_Mark_ok bits_of_bm_update)
  with Cons.IH [of "bm_update bm (i + j) True"] Cons.prems show ?case by auto
qed simp

definition free_run :: "bitmap \<Rightarrow> int \<Rightarrow> int \<Rightarrow> bool" where
  "free_run bm sz i \<longleftrightarrow> 0 \<le> i \<and> i + sz \<le> numBits bm \<and> {i..<i + sz} \<inter> bits_of bm = {}"

lemma run_image: "(\<lambda>j. i + j) ` set [0..sz - 1] = {i..<i + sz}" for i sz :: int
proof -
  have "set [0..sz - 1] = {0..<sz}" by auto
  then show ?thesis using image_add_atLeastLessThan [of i 0 sz] by (simp add: add.commute)
qed

lemma free_run_iff:
  "0 \<le> i \<Longrightarrow> i + sz \<le> numBits bm \<Longrightarrow> free_run bm sz i \<longleftrightarrow> (\<forall>j\<in>set [0..sz - 1]. i + j \<notin> bits_of bm)"
  unfolding free_run_def run_image [symmetric] by blast

lemma test_run_free_run:
  assumes "bitmap_ok bm" "0 \<le> i" "1 \<le> sz"
  shows "test_run bm i True [0..sz - 1] =
    (if i + sz \<le> numBits bm then Inr (free_run bm sz i) else Inl AssertFail)"
proof (cases "i + sz \<le> numBits bm")
  case True
  then show ?thesis using assms by (simp add: test_run_ok free_run_iff)
next
  case False
  then have "\<exists>j\<in>set [0..sz - 1]. i + j < 0 \<or> numBits bm \<le> i + j"
    using assms(3) by (intro bexI [of _ "sz - 1"]) auto
  with False show ?thesis using test_run_out [OF assms(1)] by simp
qed

lemma mark_run_upto:
  assumes "bitmap_ok bm" "0 \<le> i" "i + sz \<le> numBits bm"
  shows "\<exists>bm'. mark_run bm i [0..sz - 1] = Inr bm' \<and> bitmap_ok bm' \<and> numBits bm' = numBits bm
     \<and> bits_of bm' = bits_of bm \<union> {i..<i + sz}"
  using mark_run_ok [OF assms(1), of "[0..sz - 1]" i] assms(2,3) unfolding run_image by simp

lemma first_find_loop_found:
  assumes "bitmap_ok bm" "1 \<le> sz" "0 \<le> k" "k \<le> i" "free_run bm sz i" "\<forall>j. k \<le> j \<and> j < i \<longrightarrow> \<not> free_run bm sz j"
  shows "\<exists>bm'. first_find_loop bm sz [k..numBits bm - 1] = Inr (bm', i) \<and> bitmap_ok bm'
     \<and> numBits bm' = numBits bm \<and> bits_of bm' = bits_of bm \<union> {i..<i + sz}"
  using assms(3,4,6)
proof (induction "nat (i - k)" arbitrary: k)
  case 0
  then have "k = i" by simp
  moreover have "0 \<le> i" "i + sz \<le> numBits bm" "i \<le> numBits bm - 1"
    using assms(2,5) by (auto simp: free_run_def)
  ultimately show ?case
    using mark_run_upto [OF assms(1), of i sz] assms(1,2,5) upto_rec1 [of k "numBits bm - 1"]
    by (auto simp: test_run_free_run)
next
  case (Suc n)
  have lt: "k < i" using Suc by linarith
  have "k + sz \<le> numBits bm" "k \<le> numBits bm - 1"
    using lt assms(2,5) by (auto simp: free_run_def)
  moreover have "\<not> free_run bm sz k" using Suc.prems lt by auto
  moreover have "\<exists>bm'. first_find_loop bm sz [k + 1..numBits bm - 1] = Inr (bm', i) \<and> bitmap_ok bm'
     \<and> numBits bm' = numBits bm \<and> bits_of bm' = bits_of bm \<union> {i..<i + sz}"
    using Suc lt by (intro Suc.hyps(1)) auto
  ultimately show ?case
    using assms(1,2) Suc.prems upto_rec1 [of k "numBits bm - 1"] by (simp add: test_run_free_run)
qed

lemma first_find_loop_none:
  assumes "bitmap_ok bm" "1 \<le> sz" "0 \<le> k" "k \<le> numBits bm" "\<forall>j\<ge>k. \<not> free_run bm sz j"
  shows "first_find_loop bm sz [k..numBits bm - 1] =
    (if sz = 1 \<or> k = numBits bm then Inr (bm, - 1) else Inl AssertFail)"
  using assms(3-5)
proof (induction "nat (numBits bm - k)" arbitrary: k)
  case 0
  then show ?case by simp
next
  case (Suc n)
  have lt: "k \<le> numBits bm - 1" using Suc by linarith
  have IH: "first_find_loop bm sz [k + 1..numBits bm - 1] =
    (if sz = 1 \<or> k + 1 = numBits bm then Inr (bm, - 1) else Inl AssertFail)"
    using Suc lt by (intro Suc.hyps(1)) auto
  have "\<not> free_run bm sz k" using Suc.prems by auto
  then show ?case
    using assms(1,2) Suc.prems lt IH upto_rec1 [of k "numBits bm - 1"]
    by (auto simp: test_run_free_run)
qed

subsection \<open>The allocator interface\<close>

lemma BitMap_FirstFind_run:
  assumes "bitmap_ok bm" "1 \<le> sz" "\<exists>i. free_run bm sz i"
  shows "\<exists>bm' i. BitMap_FirstFind bm sz = Inr (bm', i) \<and> free_run bm sz i \<and> (\<forall>j<i. \<not> free_run bm sz j)
     \<and> bitmap_ok bm' \<and> numBits bm' = numBits bm \<and> bits_of bm' = bits_of bm \<union> {i..<i + sz}"
proof -
  let ?P = "\<lambda>n. free_run bm sz (int n)"
  from assms(3) obtain i where "free_run bm sz i" by blast
  then have ex: "?P (nat i)" by (simp add: free_run_def)
  define i0 where "i0 = int (LEAST n. ?P n)"
  have i0: "free_run bm sz i0" unfolding i0_def by (rule LeastI [of ?P, OF ex])
  have least: "\<not> free_run bm sz j" if "j < i0" for j
    using not_less_Least [of "nat j" ?P] that by (cases "0 \<le> j") (auto simp: i0_def free_run_def)
  then show ?thesis
    using first_find_loop_found [OF assms(1,2), of 0 i0] i0
    by (auto simp: BitMap_FirstFind_def free_run_def)
qed

text \<open>Allocation and release loops of the clients, for any allocator.\<close>

fun find_seq :: "('m \<Rightarrow> ('m \<times> int) result) \<Rightarrow> nat \<Rightarrow> 'm \<Rightarrow> ('m \<times> int list) result" where
  "find_seq alloc 0 m = Inr (m, [])"
| "find_seq alloc (Suc n) m =
     rbind (alloc m) (\<lambda>(m, i). rbind (find_seq alloc n m) (\<lambda>(m, is). Inr (m, i # is)))"

fun clear_seq :: "('m \<Rightarrow> int \<Rightarrow> 'm result) \<Rightarrow> int list \<Rightarrow> 'm \<Rightarrow> 'm result" where
  "clear_seq clear [] m = Inr m"
| "clear_seq clear (i # is) m = rbind (clear m i) (\<lambda>m. clear_seq clear is m)"

locale bit_allocator =
  fixes inv :: "'m \<Rightarrow> bool"
    and used :: "'m \<Rightarrow> int set"
    and cap :: "'m \<Rightarrow> int"
    and alloc :: "'m \<Rightarrow> ('m \<times> int) result"
    and clear :: "'m \<Rightarrow> int \<Rightarrow> 'm result"
    and num_clear :: "'m \<Rightarrow> int result"
  assumes used_sub: "inv m \<Longrightarrow> used m \<subseteq> {0..<cap m}"
    and alloc_free: "inv m \<Longrightarrow> used m \<noteq> {0..<cap m} \<Longrightarrow>
          \<exists>m' i. alloc m = Inr (m', i) \<and> i \<in> {0..<cap m} - used m \<and> used m' = insert i (used m)
            \<and> cap m' = cap m \<and> inv m'"
    and alloc_full: "inv m \<Longrightarrow> used m = {0..<cap m} \<Longrightarrow> alloc m = Inr (m, - 1)"
    and clear_used: "inv m \<Longrightarrow> i \<in> used m \<Longrightarrow>
          \<exists>m'. clear m i = Inr m' \<and> used m' = used m - {i} \<and> cap m' = cap m \<and> inv m'"
    and num_clear_eq: "inv m \<Longrightarrow> num_clear m = Inr (int (card ({0..<cap m} - used m)))"
begin

lemma num_clear_pos:
  "inv m \<Longrightarrow> 0 < card ({0..<cap m} - used m) \<longleftrightarrow> used m \<noteq> {0..<cap m}"
  using used_sub [of m] by (auto simp: card_gt_0_iff)

lemma find_seq_ok:
  assumes "inv m" "n \<le> card ({0..<cap m} - used m)"
  shows "\<exists>m' is. find_seq alloc n m = Inr (m', is) \<and> length is = n \<and> distinct is
     \<and> set is \<subseteq> {0..<cap m} - used m \<and> used m' = used m \<union> set is \<and> cap m' = cap m \<and> inv m'"
  using assms
proof (induction n arbitrary: m)
  case (Suc n)
  then obtain m1 i where 1: "alloc m = Inr (m1, i)" "i \<in> {0..<cap m} - used m"
    "used m1 = insert i (used m)" "cap m1 = cap m" "inv m1"
    using alloc_free [of m] num_clear_pos [of m] by auto
  have "{0..<cap m1} - used m1 = ({0..<cap m} - used m) - {i}" using 1 by auto
  then have "n \<le> card ({0..<cap m1} - used m1)" using Suc.prems 1 by (simp del: Diff_insert)
  with Suc.IH [OF 1(5)] obtain m2 "is" where
    "find_seq alloc n m1 = Inr (m2, is)" "length is = n" "distinct is"
    "set is \<subseteq> {0..<cap m1} - used m1" "used m2 = used m1 \<union> set is" "cap m2 = cap m1" "inv m2" by blast
  with 1 show ?case by (intro exI [of _ m2] exI [of _ "i # is"]) auto
qed simp

lemma clear_seq_ok:
  assumes "inv m" "distinct is" "set is \<subseteq> used m"
  shows "\<exists>m'. clear_seq clear is m = Inr m' \<and> used m' = used m - set is \<and> cap m' = cap m \<and> inv m'"
  using assms
proof (induction "is" arbitrary: m)
  case (Cons i "is")
  then obtain m1 where 1: "clear m i = Inr m1" "used m1 = used m - {i}" "cap m1 = cap m" "inv m1"
    using clear_used [of m i] by auto
  with Cons.prems have "set is \<subseteq> used m1" by auto
  with Cons.IH [OF 1(4)] Cons.prems 1 show ?case by fastforce
qed simp

lemma alloc_release:
  assumes "inv m" "n \<le> card ({0..<cap m} - used m)"
  shows "\<exists>m' is m''. find_seq alloc n m = Inr (m', is) \<and> distinct is \<and> set is \<inter> used m = {}
     \<and> clear_seq clear is m' = Inr m'' \<and> used m'' = used m"
proof -
  obtain m' "is" where f: "find_seq alloc n m = Inr (m', is)" "distinct is"
    "set is \<subseteq> {0..<cap m} - used m" "used m' = used m \<union> set is" "inv m'"
    using find_seq_ok [OF assms] by blast
  with clear_seq_ok [of m' "is"] obtain m'' where "clear_seq clear is m' = Inr m''"
    "used m'' = used m' - set is" by auto
  with f show ?thesis by blast
qed

end

lemma upto_in_range [simp]: "{0..n - 1} \<subseteq> {0..<n}" for n :: int
  by auto

lemma find_sorted:
  "sorted xs \<Longrightarrow> \<exists>x\<in>set xs. P x \<Longrightarrow> List.find P xs = Some (Min {x \<in> set xs. P x})" for xs :: "int list"
proof (induction xs)
  case (Cons a xs)
  show ?case
  proof (cases "P a")
    case True
    then have "Min {x \<in> set (a # xs). P x} = a" using Cons.prems by (intro Min_eqI) auto
    then show ?thesis using True by simp
  next
    case False
    then have "{x \<in> set (a # xs). P x} = {x \<in> set xs. P x}" by auto
    then show ?thesis using False Cons by auto
  qed
qed simp

lemma find_upto:
  assumes "bits_of bm \<noteq> {0..<numBits bm}"
  shows "List.find (\<lambda>i. i \<notin> bits_of bm) [0..numBits bm - 1] = Some (Min ({0..<numBits bm} - bits_of bm))"
proof -
  have "{i \<in> set [0..numBits bm - 1]. i \<notin> bits_of bm} = {0..<numBits bm} - bits_of bm" by auto
  moreover have "\<exists>i\<in>set [0..numBits bm - 1]. i \<notin> bits_of bm"
    using assms bits_of_subset [of bm] by force
  ultimately show ?thesis using find_sorted [OF sorted_upto] by metis
qed

lemma BitMap_Find_free:
  assumes "bitmap_ok bm" "bits_of bm \<noteq> {0..<numBits bm}"
  shows "BitMap_Find bm = Inr (bm_update bm (Min ({0..<numBits bm} - bits_of bm)) True,
           Min ({0..<numBits bm} - bits_of bm))"
  using assms by (simp add: BitMap_Find_def find_loop_ok find_upto)

lemma BitMap_Find_full:
  assumes "bitmap_ok bm" "bits_of bm = {0..<numBits bm}"
  shows "BitMap_Find bm = Inr (bm, - 1)"
proof -
  have "List.find (\<lambda>i. i \<notin> bits_of bm) [0..numBits bm - 1] = None"
    using assms(2) by (auto simp: find_None_iff)
  then show ?thesis using assms(1) by (simp add: BitMap_Find_def find_loop_ok)
qed

lemma Min_clear_bit:
  "bits_of bm \<noteq> {0..<numBits bm} \<Longrightarrow>
   Min ({0..<numBits bm} - bits_of bm) \<in> {0..<numBits bm} - bits_of bm"
  using bits_of_subset [of bm] by (intro Min_in) auto

lemma BitMap_NumClear_ok:
  assumes "bitmap_ok bm"
  shows "BitMap_NumClear bm = Inr (int (card ({0..<numBits bm} - bits_of bm)))"
proof -
  have "set (filter (\<lambda>i. i \<notin> bits_of bm) [0..numBits bm - 1]) = {0..<numBits bm} - bits_of bm" by auto
  then have "card ({0..<numBits bm} - bits_of bm) = length (filter (\<lambda>i. i \<notin> bits_of bm) [0..numBits bm - 1])"
    using distinct_card [of "filter (\<lambda>i. i \<notin> bits_of bm) [0..numBits bm - 1]"] by simp
  then show ?thesis using assms by (simp add: BitMap_NumClear_def count_loop_ok)
qed

interpretation bm: bit_allocator bitmap_ok bits_of numBits BitMap_Find BitMap_Clear BitMap_NumClear
proof
  fix m assume ok: "bitmap_ok m"
  show "bits_of m \<subseteq> {0..<numBits m}" by (rule bits_of_subset)
  show "BitMap_NumClear m = Inr (int (card ({0..<numBits m} - bits_of m)))"
    by (rule BitMap_NumClear_ok [OF ok])
  show "BitMap_Find m = Inr (m, - 1)" if "bits_of m = {0..<numBits m}"
    by (rule BitMap_Find_full [OF ok that])
  show "\<exists>m' i. BitMap_Find m = Inr (m', i) \<and> i \<in> {0..<numBits m} - bits_of m
      \<and> bits_of m' = insert i (bits_of m) \<and> numBits m' = numBits m \<and> bitmap_ok m'"
    if "bits_of m \<noteq> {0..<numBits m}"
    using Min_clear_bit [OF that] ok by (simp add: BitMap_Find_free [OF ok that] bits_of_bm_update)
  show "\<exists>m'. BitMap_Clear m i = Inr m' \<and> bits_of m' = bits_of m - {i} \<and> numBits m' = numBits m \<and> bitmap_ok m'"
    if "i \<in> bits_of m" for i
    using that bits_of_subset [of m] ok by (auto simp: BitMap_Clear_ok bits_of_bm_update)
qed

lemma BitMap_BitMap_ok:
  assumes "0 \<le> n"
  shows "\<exists>bm. BitMap_BitMap garbage n = Inr bm \<and> bitmap_ok bm \<and> numBits bm = n \<and> bits_of bm = {}"
proof -
  let ?b = "\<lparr>numBits = n, numWords = divRoundUp n 32, bm_map = map garbage [0..<nat (divRoundUp n 32)]\<rparr>"
  have "bitmap_ok ?b" using assms by (simp add: bitmap_ok_def divRoundUp_nonneg)
  then obtain bm where bm: "clear_loop ?b [0..n - 1] = Inr bm" "bitmap_ok bm" "numBits bm = n"
    "bits_of bm = bits_of ?b - set [0..n - 1]"
    using clear_loop_ok [of ?b "[0..n - 1]"] by auto
  have "bits_of ?b \<subseteq> set [0..n - 1]" by (auto simp: bits_of_def)
  then show ?thesis using bm by (simp add: BitMap_BitMap_def Let_def)
qed

subsection \<open>Properties\<close>

text \<open>A bitmap of ten bits with the first three and the sixth marked, for the witnesses.\<close>

definition example_bitmap :: bitmap where
  "example_bitmap = \<lparr>numBits = 10, numWords = 1, bm_map = [0b100111]\<rparr>"

lemma example_bitmap_ok: "bitmap_ok example_bitmap"
  by (simp add: bitmap_ok_def example_bitmap_def divRoundUp_def)

lemma example_bitmap_bits: "bits_of example_bitmap = {0, 1, 2, 5}"
proof -
  have "{i::int. 0 \<le> i \<and> i < 10} = {0, 1, 2, 3, 4, 5, 6, 7, 8, 9}"
    by (rule set_eqI) (simp, presburger)
  then have "bits_of example_bitmap = {i \<in> {0, 1, 2, 3, 4, 5, 6, 7, 8, 9}. bm_bit example_bitmap i}"
    unfolding bits_of_def by (auto simp: example_bitmap_def)
  also have "\<dots> = set (filter (bm_bit example_bitmap) [0, 1, 2, 3, 4, 5, 6, 7, 8, 9])"
    unfolding set_filter by simp
  also have "\<dots> = {0, 1, 2, 5}"
    by (simp add: bm_bit_def example_bitmap_def bit_numeral_rec)
  finally show ?thesis .
qed

lemma example_bitmap_numBits: "numBits example_bitmap = 10"
  by (simp add: example_bitmap_def)

lemma example_bitmap_clear: "{0..<numBits example_bitmap} - bits_of example_bitmap = {3, 4, 6, 7, 8, 9}"
  unfolding example_bitmap_bits example_bitmap_numBits by (rule set_eqI) (simp, presburger)

text \<open>
  (C38) Marking, clearing and testing a bit of the word array insert into, remove from and test
  membership in the set of marked bits and keep the bitmap well formed; outside the bitmap all
  three stop at their \<^verbatim>\<open>ASSERT\<close>.
\<close>

theorem BitMap_bit_ops:
  assumes "bitmap_ok bm"
  shows "if 0 \<le> i \<and> i < numBits bm
     then (\<exists>bm1 bm2. BitMap_Mark bm i = Inr bm1 \<and> bitmap_ok bm1 \<and> bits_of bm1 = insert i (bits_of bm)
            \<and> BitMap_Clear bm i = Inr bm2 \<and> bitmap_ok bm2 \<and> bits_of bm2 = bits_of bm - {i}
            \<and> BitMap_Test bm i = Inr (i \<in> bits_of bm))
     else BitMap_Mark bm i = Inl AssertFail \<and> BitMap_Clear bm i = Inl AssertFail
            \<and> BitMap_Test bm i = Inl AssertFail"
  using assms
  by (auto simp: BitMap_Mark_ok BitMap_Clear_ok BitMap_Test_ok bits_of_bm_update)
    (auto simp: BitMap_Mark_def BitMap_Clear_def BitMap_Test_def ASSERT_def)

theorem BitMap_bit_ops_witness:
  "bitmap_ok example_bitmap
   \<and> (\<exists>bm1 bm2. BitMap_Mark example_bitmap 3 = Inr bm1 \<and> bitmap_ok bm1 \<and> bits_of bm1 = {3, 0, 1, 2, 5}
        \<and> BitMap_Clear example_bitmap 3 = Inr bm2 \<and> bitmap_ok bm2 \<and> bits_of bm2 = {0, 1, 2, 5}
        \<and> BitMap_Test example_bitmap 3 = Inr False)"
  using BitMap_bit_ops [OF example_bitmap_ok, of 3] example_bitmap_ok
  by (simp add: example_bitmap_bits example_bitmap_numBits)

text \<open>
  (C14) \<^verbatim>\<open>Find\<close> returns the least clear bit and marks exactly that bit; it returns -1 and changes
  nothing exactly when every bit is marked.  \<^verbatim>\<open>NumClear\<close> counts the clear bits.
\<close>

theorem BitMap_Find_spec:
  assumes "bitmap_ok bm"
  shows "(let clear = {0..<numBits bm} - bits_of bm in
     BitMap_NumClear bm = Inr (int (card clear))
     \<and> (if clear = {} then BitMap_Find bm = Inr (bm, - 1)
        else \<exists>bm'. BitMap_Find bm = Inr (bm', Min clear) \<and> bitmap_ok bm' \<and> numBits bm' = numBits bm
               \<and> bits_of bm' = insert (Min clear) (bits_of bm)))"
proof (cases "bits_of bm = {0..<numBits bm}")
  case True
  then show ?thesis by (simp add: BitMap_Find_full assms BitMap_NumClear_ok)
next
  case False
  then have "{0..<numBits bm} - bits_of bm \<noteq> {}" using bits_of_subset [of bm] by blast
  then show ?thesis
    using Min_clear_bit [OF False] assms
    by (simp add: BitMap_Find_free [OF assms False] BitMap_NumClear_ok bits_of_bm_update Let_def)
qed

theorem BitMap_Find_spec_witness:
  "bitmap_ok example_bitmap \<and> BitMap_NumClear example_bitmap = Inr 6
   \<and> (\<exists>bm'. BitMap_Find example_bitmap = Inr (bm', 3) \<and> bits_of bm' = {3, 0, 1, 2, 5})"
  using BitMap_Find_spec [OF example_bitmap_ok] example_bitmap_ok
  unfolding Let_def example_bitmap_clear by (auto simp: example_bitmap_bits)

text \<open>
  (C37) \<^verbatim>\<open>FirstFind(size)\<close>, for a positive size on a non-empty bitmap, allocates the first run of
  \<open>size\<close> clear bits when there is one.  When there is none it returns -1 only for size 1; for a
  bigger size its \<^verbatim>\<open>Test(i + j)\<close> runs past the last bit and the kernel aborts at an \<^verbatim>\<open>ASSERT\<close>.
\<close>

theorem BitMap_FirstFind_spec:
  assumes "bitmap_ok bm" "1 \<le> sz" "0 < numBits bm"
  shows "if \<exists>i. free_run bm sz i
     then \<exists>bm' i. BitMap_FirstFind bm sz = Inr (bm', i) \<and> free_run bm sz i \<and> (\<forall>j<i. \<not> free_run bm sz j)
            \<and> bitmap_ok bm' \<and> bits_of bm' = bits_of bm \<union> {i..<i + sz}
     else BitMap_FirstFind bm sz = (if sz = 1 then Inr (bm, - 1) else Inl AssertFail)"
proof (cases "\<exists>i. free_run bm sz i")
  case True
  then show ?thesis using BitMap_FirstFind_run [OF assms(1,2)] by auto
next
  case False
  then show ?thesis
    using first_find_loop_none [OF assms(1,2), of 0] assms(3) by (auto simp: BitMap_FirstFind_def)
qed

theorem BitMap_FirstFind_spec_witness:
  "bitmap_ok example_bitmap \<and> 1 \<le> (3::int) \<and> 0 < numBits example_bitmap
   \<and> (\<exists>bm'. BitMap_FirstFind example_bitmap 3 = Inr (bm', 6))
   \<and> BitMap_FirstFind example_bitmap 5 = Inl AssertFail"
proof -
  have run: "free_run example_bitmap sz i \<longleftrightarrow>
      0 \<le> i \<and> i + sz \<le> 10 \<and> (\<forall>b\<in>{0, 1, 2, 5}. \<not> (i \<le> b \<and> b < i + sz))" for sz i
    unfolding free_run_def example_bitmap_numBits example_bitmap_bits by auto
  have 3: "free_run example_bitmap 3 i \<longleftrightarrow> i = 6 \<or> i = 7" for i unfolding run by (simp, presburger)
  have 5: "\<not> free_run example_bitmap 5 i" for i unfolding run by (simp, presburger)
  have "\<exists>bm' i. BitMap_FirstFind example_bitmap 3 = Inr (bm', i) \<and> free_run example_bitmap 3 i
      \<and> (\<forall>j<i. \<not> free_run example_bitmap 3 j)"
    using BitMap_FirstFind_spec [OF example_bitmap_ok, of 3] 3 [of 6] unfolding example_bitmap_numBits
    by (auto split: if_splits)
  then obtain bm' i where "BitMap_FirstFind example_bitmap 3 = Inr (bm', i)" "i = 6"
    unfolding 3 by force
  moreover have "BitMap_FirstFind example_bitmap 5 = Inl AssertFail"
    using BitMap_FirstFind_spec [OF example_bitmap_ok, of 5] 5 unfolding example_bitmap_numBits by simp
  ultimately show ?thesis
    using example_bitmap_ok by (auto simp: example_bitmap_numBits)
qed

text \<open>
  Allocation is reversible: starting from a well-formed bitmap with at least \<open>n\<close> clear bits,
  \<open>n\<close> calls of \<^verbatim>\<open>Find\<close> return distinct bits that were clear, and clearing them again restores the
  set of marked bits.
\<close>

theorem BitMap_alloc_release:
  assumes "bitmap_ok bm" "n \<le> card ({0..<numBits bm} - bits_of bm)"
  shows "\<exists>bm' is bm''. find_seq BitMap_Find n bm = Inr (bm', is) \<and> distinct is \<and> set is \<inter> bits_of bm = {}
     \<and> clear_seq BitMap_Clear is bm' = Inr bm'' \<and> bits_of bm'' = bits_of bm"
  by (rule bm.alloc_release [OF assms])

theorem BitMap_alloc_release_witness:
  "bitmap_ok example_bitmap \<and> 4 \<le> card ({0..<numBits example_bitmap} - bits_of example_bitmap)
   \<and> (\<exists>bm' is bm''. find_seq BitMap_Find 4 example_bitmap = Inr (bm', is) \<and> distinct is
       \<and> set is \<inter> {0, 1, 2, 5} = {} \<and> clear_seq BitMap_Clear is bm' = Inr bm'' \<and> bits_of bm'' = {0, 1, 2, 5})"
proof -
  have 4: "4 \<le> card ({0..<numBits example_bitmap} - bits_of example_bitmap)"
    unfolding example_bitmap_clear by simp
  show ?thesis
    using BitMap_alloc_release [OF example_bitmap_ok 4] example_bitmap_ok 4
    unfolding example_bitmap_bits by blast
qed

end
