(* ===== verification/Nachos_Interrupt.thy ===== *)
theory Nachos_Interrupt
  imports Nachos_Prelude Nachos_List
begin

text \<open>
  The simulation of time and interrupts: \<^verbatim>\<open>machine/stats.h\<close>, \<^verbatim>\<open>machine/stats.cc\<close>,
  \<^verbatim>\<open>machine/interrupt.h\<close>, \<^verbatim>\<open>machine/interrupt.cc\<close> and \<^verbatim>\<open>machine/timer.cc\<close>.  The pending list is the
  sorted list of theory Nachos_List.  A device handler is a value of the type parameter \<open>'h\<close> and
  \<open>dispatch\<close> says what calling it does; the kernel state is any record that extends \<open>istate\<close>, so that
  handlers may change the rest of the kernel.  An interface locale states what the hardware
  simulation relies on in handlers.
\<close>

subsection \<open>Data\<close>

record Statistics =
  totalTicks :: int
  idleTicks :: int
  systemTicks :: int
  userTicks :: int
  numDiskReads :: int
  numDiskWrites :: int
  numConsoleCharsRead :: int
  numConsoleCharsWritten :: int
  numPageFaults :: int
  numPacketsSent :: int
  numPacketsRecvd :: int

definition Statistics_Statistics :: Statistics where
  "Statistics_Statistics = \<lparr>totalTicks = 0, idleTicks = 0, systemTicks = 0, userTicks = 0,
     numDiskReads = 0, numDiskWrites = 0, numConsoleCharsRead = 0, numConsoleCharsWritten = 0,
     numPageFaults = 0, numPacketsSent = 0, numPacketsRecvd = 0\<rparr>"

abbreviation (input) UserTick :: int where "UserTick \<equiv> 1"
abbreviation (input) SystemTick :: int where "SystemTick \<equiv> 10"
abbreviation (input) TimerTicks :: int where "TimerTicks \<equiv> 100"

datatype IntStatus = IntOff | IntOn

datatype MachineStatus = IdleMode | SystemMode | UserMode

datatype IntType =
  TimerInt | DiskInt | ConsoleWriteInt | ConsoleReadInt | NetworkSendInt | NetworkRecvInt

record 'h PendingInterrupt =
  pi_handler :: 'h
  pi_arg :: int
  pi_when :: int
  pi_type :: IntType

record 'h istate =
  stats :: Statistics
  level :: IntStatus
  pending :: "'h PendingInterrupt klist_abs"
  inHandler :: bool
  yieldOnReturn :: bool
  status :: MachineStatus

type_synonym ('h, 'z) dispatcher =
  "'h PendingInterrupt \<Rightarrow> ('h, 'z) istate_scheme \<Rightarrow> ('h, 'z) istate_scheme result"

text \<open>The state after \<^verbatim>\<open>new Statistics\<close> and \<^verbatim>\<open>new Interrupt\<close> (\<^verbatim>\<open>Interrupt::Interrupt\<close>).\<close>

definition Interrupt_Interrupt :: "'h istate" where
  "Interrupt_Interrupt = \<lparr>stats = Statistics_Statistics, level = IntOff, pending = [], inHandler = False,
     yieldOnReturn = False, status = SystemMode\<rparr>"

subsection \<open>Operations\<close>

definition Interrupt_ChangeLevel ::
  "IntStatus \<Rightarrow> IntStatus \<Rightarrow> ('h, 'z) istate_scheme \<Rightarrow> ('h, 'z) istate_scheme" where
  "Interrupt_ChangeLevel old now s = s\<lparr>level := now\<rparr>"

abbreviation (input) now_ticks :: "('h, 'z) istate_scheme \<Rightarrow> int" where
  "now_ticks s \<equiv> totalTicks (stats s)"

definition Interrupt_Schedule ::
  "'h \<Rightarrow> int \<Rightarrow> int \<Rightarrow> IntType \<Rightarrow> ('h, 'z) istate_scheme \<Rightarrow> ('h, 'z) istate_scheme result" where
  "Interrupt_Schedule handler arg fromNow typ s =
     (let w = now_ticks s + fromNow;
          toOccur = \<lparr>pi_handler = handler, pi_arg = arg, pi_when = w, pi_type = typ\<rparr>
      in ASSERT (fromNow > 0) (Inr (s\<lparr>pending := lst_sorted_insert (pending s) toOccur w\<rparr>)))"

definition Interrupt_YieldOnReturn :: "('h, 'z) istate_scheme \<Rightarrow> ('h, 'z) istate_scheme result" where
  "Interrupt_YieldOnReturn s = ASSERT (inHandler s) (Inr (s\<lparr>yieldOnReturn := True\<rparr>))"

text \<open>
  The second half of \<^verbatim>\<open>CheckIfDue\<close>, once the interrupt \<open>toOccur\<close> is known to be due: \<open>delayedLoad\<close> is
  the call \<^verbatim>\<open>machine->DelayedLoad(0, 0)\<close> of kernels with user programs.
\<close>

definition fire ::
  "('h, 'z) dispatcher \<Rightarrow> (('h, 'z) istate_scheme \<Rightarrow> ('h, 'z) istate_scheme result) \<Rightarrow>
   MachineStatus \<Rightarrow> 'h PendingInterrupt \<Rightarrow> ('h, 'z) istate_scheme \<Rightarrow> ('h, 'z) istate_scheme result" where
  "fire dispatch delayedLoad old toOccur s =
     rbind (delayedLoad s) (\<lambda>s.
     rbind (dispatch toOccur (s\<lparr>inHandler := True, status := SystemMode\<rparr>)) (\<lambda>s.
     Inr (s\<lparr>status := old, inHandler := False\<rparr>)))"

definition Interrupt_CheckIfDue ::
  "('h, 'z) dispatcher \<Rightarrow> (('h, 'z) istate_scheme \<Rightarrow> ('h, 'z) istate_scheme result) \<Rightarrow>
   bool \<Rightarrow> ('h, 'z) istate_scheme \<Rightarrow> (('h, 'z) istate_scheme \<times> bool) result" where
  "Interrupt_CheckIfDue dispatch delayedLoad advanceClock s =
     ASSERT (level s = IntOff)
       (case pending s of
          [] \<Rightarrow> Inr (s, False)
        | (w, toOccur) # rest \<Rightarrow>
            let s = s\<lparr>pending := rest\<rparr> in
            if \<not> advanceClock \<and> w > now_ticks s
            then Inr (s\<lparr>pending := lst_sorted_insert (pending s) toOccur w\<rparr>, False)
            else
              let s = (if w > now_ticks s
                       then s\<lparr>stats := (stats s)\<lparr>idleTicks := idleTicks (stats s) + (w - now_ticks s), totalTicks := w\<rparr>\<rparr>
                       else s)
              in if status s = IdleMode \<and> pi_type toOccur = TimerInt \<and> pending s = []
                 then Inr (s\<lparr>pending := lst_sorted_insert (pending s) toOccur w\<rparr>, False)
                 else rbind (fire dispatch delayedLoad (status s) toOccur s) (\<lambda>s. Inr (s, True)))"

text \<open>\<^verbatim>\<open>while (CheckIfDue(FALSE));\<close>\<close>

partial_function (option) due_loop ::
  "('h, 'z) dispatcher \<Rightarrow> (('h, 'z) istate_scheme \<Rightarrow> ('h, 'z) istate_scheme result) \<Rightarrow>
   ('h, 'z) istate_scheme \<Rightarrow> ('h, 'z) istate_scheme result option" where
  "due_loop dispatch delayedLoad s =
     (case Interrupt_CheckIfDue dispatch delayedLoad False s of
        Inl e \<Rightarrow> Some (Inl e)
      | Inr r \<Rightarrow> if snd r then due_loop dispatch delayedLoad (fst r) else Some (Inr (fst r)))"

definition count_tick :: "('h, 'z) istate_scheme \<Rightarrow> ('h, 'z) istate_scheme" where
  "count_tick s =
     (if status s = SystemMode
      then s\<lparr>stats := (stats s)\<lparr>totalTicks := totalTicks (stats s) + SystemTick, systemTicks := systemTicks (stats s) + SystemTick\<rparr>\<rparr>
      else s\<lparr>stats := (stats s)\<lparr>totalTicks := totalTicks (stats s) + UserTick, userTicks := userTicks (stats s) + UserTick\<rparr>\<rparr>)"

text \<open>
  \<^verbatim>\<open>OneTick\<close> up to the context switch it may ask for: the boolean says that \<^verbatim>\<open>yieldOnReturn\<close> was set,
  in which case it has been cleared, the status is \<^verbatim>\<open>SystemMode\<close>, and the running thread goes on
  with \<^verbatim>\<open>Yield\<close>.
\<close>

definition Interrupt_OneTick ::
  "('h, 'z) dispatcher \<Rightarrow> (('h, 'z) istate_scheme \<Rightarrow> ('h, 'z) istate_scheme result) \<Rightarrow>
   ('h, 'z) istate_scheme \<Rightarrow> (('h, 'z) istate_scheme \<times> bool) result option" where
  "Interrupt_OneTick dispatch delayedLoad s =
     (let s = Interrupt_ChangeLevel IntOn IntOff (count_tick s) in
      map_option (\<lambda>r. rbind r (\<lambda>s.
        let s = Interrupt_ChangeLevel IntOff IntOn s in
        Inr (if yieldOnReturn s then (s\<lparr>yieldOnReturn := False, status := SystemMode\<rparr>, True) else (s, False))))
        (due_loop dispatch delayedLoad s))"

text \<open>\<^verbatim>\<open>SetLevel\<close>; turning interrupts on advances time.  The old level is the caller's to keep.\<close>

definition Interrupt_SetLevel ::
  "('h, 'z) dispatcher \<Rightarrow> (('h, 'z) istate_scheme \<Rightarrow> ('h, 'z) istate_scheme result) \<Rightarrow>
   IntStatus \<Rightarrow> ('h, 'z) istate_scheme \<Rightarrow> (('h, 'z) istate_scheme \<times> bool) result option" where
  "Interrupt_SetLevel dispatch delayedLoad now s =
     (let old = level s in
      if \<not> (now = IntOff \<or> \<not> inHandler s) then Some (Inl AssertFail)
      else let s = Interrupt_ChangeLevel old now s in
        if now = IntOn \<and> old = IntOff then Interrupt_OneTick dispatch delayedLoad s else Some (Inr (s, False)))"

definition Interrupt_Idle ::
  "('h, 'z) dispatcher \<Rightarrow> (('h, 'z) istate_scheme \<Rightarrow> ('h, 'z) istate_scheme result) \<Rightarrow>
   ('h, 'z) istate_scheme \<Rightarrow> ('h, 'z) istate_scheme result option" where
  "Interrupt_Idle dispatch delayedLoad s =
     (let s = s\<lparr>status := IdleMode\<rparr> in
      case Interrupt_CheckIfDue dispatch delayedLoad True s of
        Inl e \<Rightarrow> Some (Inl e)
      | Inr (s, b) \<Rightarrow>
          if b then map_option (\<lambda>r. rbind r (\<lambda>s. Inr (s\<lparr>yieldOnReturn := False, status := SystemMode\<rparr>)))
                      (due_loop dispatch delayedLoad s)
          else Some (Inl Halted))"

subsection \<open>The timer device\<close>

text \<open>\<open>random\<close> is the value the call of \<^verbatim>\<open>Random()\<close> returns.\<close>

definition Timer_TimeOfNextInterrupt :: "bool \<Rightarrow> int \<Rightarrow> int" where
  "Timer_TimeOfNextInterrupt randomize random =
     (if randomize then 1 + cmod random (TimerTicks * 2) else TimerTicks)"

definition TimerInterruptHandler :: "('h, 'z) istate_scheme \<Rightarrow> ('h, 'z) istate_scheme result" where
  "TimerInterruptHandler s = (if status s \<noteq> IdleMode then Interrupt_YieldOnReturn s else Inr s)"

definition Timer_TimerExpired ::
  "'h \<Rightarrow> bool \<Rightarrow> int \<Rightarrow> int \<Rightarrow> ('h, 'z) istate_scheme \<Rightarrow> ('h, 'z) istate_scheme result" where
  "Timer_TimerExpired TimerHandler randomize random this s =
     rbind (Interrupt_Schedule TimerHandler this (Timer_TimeOfNextInterrupt randomize random) TimerInt s)
       TimerInterruptHandler"

definition Timer_Timer ::
  "'h \<Rightarrow> bool \<Rightarrow> int \<Rightarrow> int \<Rightarrow> ('h, 'z) istate_scheme \<Rightarrow> ('h, 'z) istate_scheme result" where
  "Timer_Timer TimerHandler doRandom random this s =
     Interrupt_Schedule TimerHandler this (Timer_TimeOfNextInterrupt doRandom random) TimerInt s"

subsection \<open>Invariant and the handler interface\<close>

text \<open>The interrupts that are due, and the interrupt state every operation keeps well formed.\<close>

definition due_now :: "('h, 'z) istate_scheme \<Rightarrow> 'h PendingInterrupt klist_abs" where
  "due_now s = takeWhile (\<lambda>p. fst p \<le> now_ticks s) (pending s)"

definition time_ok :: "('h, 'z) istate_scheme \<Rightarrow> bool" where
  "time_ok s \<longleftrightarrow> key_sorted (pending s)
     \<and> totalTicks (stats s) = idleTicks (stats s) + systemTicks (stats s) + userTicks (stats s)"

definition same_clock :: "('h, 'z) istate_scheme \<Rightarrow> ('h, 'z) istate_scheme \<Rightarrow> bool" where
  "same_clock s s' \<longleftrightarrow> totalTicks (stats s') = totalTicks (stats s) \<and> idleTicks (stats s') = idleTicks (stats s)
     \<and> systemTicks (stats s') = systemTicks (stats s) \<and> userTicks (stats s') = userTicks (stats s)"

text \<open>What a handler may do to the interrupt state: everything it schedules lies in the future.\<close>

definition handler_effect :: "('h, 'z) istate_scheme \<Rightarrow> ('h, 'z) istate_scheme \<Rightarrow> bool" where
  "handler_effect s s' \<longleftrightarrow> same_clock s s' \<and> level s' = level s \<and> inHandler s' = inHandler s
     \<and> (time_ok s \<longrightarrow> time_ok s' \<and> due_now s' = due_now s)"

lemma filter_takeWhile_sorted:
  "key_sorted xs \<Longrightarrow> filter (\<lambda>p. fst p \<le> m) xs = takeWhile (\<lambda>p. fst p \<le> m) xs"
proof (induction xs)
  case (Cons x xs)
  then show ?case by (cases xs) (auto simp: filter_empty_conv)
qed simp

lemma handler_effect_refl [simp]: "handler_effect s s"
  by (simp add: handler_effect_def same_clock_def)

lemma handler_effect_trans: "handler_effect s s' \<Longrightarrow> handler_effect s' s'' \<Longrightarrow> handler_effect s s''"
  by (auto simp: handler_effect_def same_clock_def)

lemma takeWhile_sorted_insert:
  "m < k \<Longrightarrow> takeWhile (\<lambda>p. fst p \<le> m) (lst_sorted_insert xs x k) = takeWhile (\<lambda>p. fst p \<le> m) xs"
  by (induction xs x k rule: lst_sorted_insert.induct) auto

lemma Schedule_effect:
  "rpost {AssertFail} (handler_effect s) (Interrupt_Schedule h a fromNow t s)"
  by (auto simp: Interrupt_Schedule_def Let_def handler_effect_def same_clock_def time_ok_def due_now_def
      key_sorted_lst_sorted_insert takeWhile_sorted_insert intro!: rpost_ASSERT)

lemma Schedule_future:
  "0 < fromNow \<Longrightarrow> \<exists>s'. Interrupt_Schedule h a fromNow t s = Inr s' \<and> handler_effect s s'
     \<and> pending s' = lst_sorted_insert (pending s) \<lparr>pi_handler = h, pi_arg = a, pi_when = now_ticks s + fromNow, pi_type = t\<rparr>
         (now_ticks s + fromNow)"
  using Schedule_effect [of s h a fromNow t] by (simp add: Interrupt_Schedule_def Let_def)

fun fire_all ::
  "('h, 'z) dispatcher \<Rightarrow> (('h, 'z) istate_scheme \<Rightarrow> ('h, 'z) istate_scheme result) \<Rightarrow>
   'h PendingInterrupt list \<Rightarrow> ('h, 'z) istate_scheme \<Rightarrow> ('h, 'z) istate_scheme result" where
  "fire_all dispatch delayedLoad [] s = Inr s"
| "fire_all dispatch delayedLoad (p # ps) s =
     rbind (fire dispatch delayedLoad (status s) p (s\<lparr>pending := tl (pending s)\<rparr>)) (fire_all dispatch delayedLoad ps)"

locale interrupt_handlers =
  fixes dispatch :: "('h, 'z) dispatcher"
    and delayedLoad :: "('h, 'z) istate_scheme \<Rightarrow> ('h, 'z) istate_scheme result"
    and E :: "nachos_error set"
  assumes dispatch_effect: "inHandler s \<Longrightarrow> level s = IntOff \<Longrightarrow> rpost E (handler_effect s) (dispatch p s)"
    and delayedLoad_effect: "rpost E (\<lambda>s'. istate.truncate s' = istate.truncate s) (delayedLoad s)"
begin

lemma truncate_fields:
  assumes "istate.truncate s' = istate.truncate s"
  shows "stats s' = stats s" "level s' = level s" "pending s' = pending s" "inHandler s' = inHandler s"
    "yieldOnReturn s' = yieldOnReturn s" "status s' = status s"
  using assms by (simp_all add: istate.defs)

lemma fire_post:
  assumes "level s = IntOff"
  shows "rpost E (\<lambda>s'. handler_effect (s\<lparr>inHandler := False\<rparr>) s' \<and> status s' = old) (fire dispatch delayedLoad old p s)"
  unfolding fire_def
proof (rule rpost_rbind [OF delayedLoad_effect], rule rpost_rbind)
  fix s1 :: "('h, 'z) istate_scheme"
  assume t: "istate.truncate s1 = istate.truncate s"
  note f = truncate_fields [OF t]
  show "rpost E (handler_effect (s1\<lparr>inHandler := True, status := SystemMode\<rparr>))
      (dispatch p (s1\<lparr>inHandler := True, status := SystemMode\<rparr>))"
    using assms f by (intro dispatch_effect) simp_all
  fix s2 assume "handler_effect (s1\<lparr>inHandler := True, status := SystemMode\<rparr>) s2"
  then show "rpost E (\<lambda>s'. handler_effect (s\<lparr>inHandler := False\<rparr>) s' \<and> status s' = old)
      (Inr (s2\<lparr>status := old, inHandler := False\<rparr>))"
    using f by (auto simp: handler_effect_def same_clock_def time_ok_def due_now_def)
qed

lemma CheckIfDue_nothing_due:
  assumes "level s = IntOff" "time_ok s" "due_now s = []"
  shows "\<exists>P. Interrupt_CheckIfDue dispatch delayedLoad False s = Inr (s\<lparr>pending := P\<rparr>, False)
     \<and> due_now (s\<lparr>pending := P\<rparr>) = [] \<and> time_ok (s\<lparr>pending := P\<rparr>) \<and> mset P = mset (pending s)"
proof (cases "pending s")
  case (Cons q rest)
  obtain w p where q: "q = (w, p)" by force
  then have w: "w > now_ticks s" using assms(3) Cons by (simp add: due_now_def split: if_splits)
  have "takeWhile (\<lambda>p. fst p \<le> now_ticks s) rest = []"
    using assms(2) Cons q w by (cases rest) (auto simp: time_ok_def)
  then show ?thesis
    using assms Cons q w
    by (auto simp: Interrupt_CheckIfDue_def Let_def due_now_def time_ok_def takeWhile_sorted_insert
        key_sorted_lst_sorted_insert)
qed (use assms in \<open>auto simp: Interrupt_CheckIfDue_def due_now_def time_ok_def intro!: exI [of _ "[]"]\<close>)

lemma due_now_Cons:
  assumes "due_now s = (w, p) # ds"
  shows "\<exists>rest. pending s = (w, p) # rest \<and> w \<le> now_ticks s \<and> due_now (s\<lparr>pending := rest\<rparr>) = ds"
  using assms by (cases "pending s") (auto simp: due_now_def split: if_splits)

lemma CheckIfDue_due:
  assumes "level s = IntOff" "due_now s = (w, p) # ds" "status s \<noteq> IdleMode"
  shows "Interrupt_CheckIfDue dispatch delayedLoad False s =
     rbind (fire dispatch delayedLoad (status s) p (s\<lparr>pending := tl (pending s)\<rparr>)) (\<lambda>s. Inr (s, True))"
proof -
  obtain rest where "pending s = (w, p) # rest" "w \<le> now_ticks s" using due_now_Cons [OF assms(2)] by blast
  then show ?thesis using assms by (auto simp: Interrupt_CheckIfDue_def Let_def)
qed

lemma due_loop_fires:
  assumes "level s = IntOff" "time_ok s" "status s \<noteq> IdleMode" "\<not> inHandler s"
  shows "\<exists>r. due_loop dispatch delayedLoad s = Some r
     \<and> rpost E (\<lambda>s'. same_clock s s' \<and> level s' = IntOff \<and> time_ok s' \<and> due_now s' = [] \<and> status s' = status s
          \<and> \<not> inHandler s') r
     \<and> (case fire_all dispatch delayedLoad (map snd (due_now s)) s of
          Inl e \<Rightarrow> r = Inl e | Inr s0 \<Rightarrow> \<exists>P. mset P = mset (pending s0) \<and> r = Inr (s0\<lparr>pending := P\<rparr>))"
  using assms
proof (induction "length (due_now s)" arbitrary: s)
  case 0
  then obtain P where "Interrupt_CheckIfDue dispatch delayedLoad False s = Inr (s\<lparr>pending := P\<rparr>, False)"
    "due_now (s\<lparr>pending := P\<rparr>) = []" "time_ok (s\<lparr>pending := P\<rparr>)" "mset P = mset (pending s)"
    using CheckIfDue_nothing_due [of s] by auto
  then show ?case
    using 0 by (subst due_loop.simps) (auto simp: same_clock_def)
next
  case (Suc n)
  obtain w p ds where ds: "due_now s = (w, p) # ds" "length ds = n" using Suc.hyps(2) by (cases "due_now s") auto
  obtain rest where rest: "pending s = (w, p) # rest" "w \<le> now_ticks s" "due_now (s\<lparr>pending := rest\<rparr>) = ds"
    using due_now_Cons [OF ds(1)] by blast
  let ?s = "s\<lparr>pending := tl (pending s)\<rparr>"
  have chk: "Interrupt_CheckIfDue dispatch delayedLoad False s =
      rbind (fire dispatch delayedLoad (status s) p ?s) (\<lambda>s. Inr (s, True))"
    by (rule CheckIfDue_due [OF Suc.prems(1) ds(1) Suc.prems(3)])
  have post: "rpost E (\<lambda>s'. handler_effect (?s\<lparr>inHandler := False\<rparr>) s' \<and> status s' = status s)
      (fire dispatch delayedLoad (status s) p ?s)"
    using Suc.prems(1) by (intro fire_post) simp
  have ok: "time_ok (?s\<lparr>inHandler := False\<rparr>)" using Suc.prems(2) rest(1) by (simp add: time_ok_def)
  show ?case
  proof (cases "fire dispatch delayedLoad (status s) p ?s")
    case (Inl e)
    then show ?thesis using chk post ds by (subst due_loop.simps) auto
  next
    case (Inr s1)
    have s1: "same_clock s s1" "level s1 = IntOff" "\<not> inHandler s1" "time_ok s1" "due_now s1 = ds" "status s1 = status s"
      using post Inr ok Suc.prems(1,4) rest
      by (auto simp: handler_effect_def same_clock_def due_now_def)
    from Suc.hyps(1) [of s1] s1 ds(2) Suc.prems(3) obtain r where r: "due_loop dispatch delayedLoad s1 = Some r"
      "rpost E (\<lambda>s'. same_clock s1 s' \<and> level s' = IntOff \<and> time_ok s' \<and> due_now s' = [] \<and> status s' = status s1
          \<and> \<not> inHandler s') r"
      "case fire_all dispatch delayedLoad (map snd (due_now s1)) s1 of
          Inl e \<Rightarrow> r = Inl e | Inr s0 \<Rightarrow> \<exists>P. mset P = mset (pending s0) \<and> r = Inr (s0\<lparr>pending := P\<rparr>)"
      by auto
    have "due_loop dispatch delayedLoad s = Some r"
      using chk Inr r(1) by (subst due_loop.simps) simp
    moreover have "rpost E (\<lambda>s'. same_clock s s' \<and> level s' = IntOff \<and> time_ok s' \<and> due_now s' = [] \<and> status s' = status s
          \<and> \<not> inHandler s') r"
      using s1 by (intro rpost_mono [OF r(2)]) (auto simp: same_clock_def)
    moreover have "fire_all dispatch delayedLoad (map snd (due_now s)) s =
        fire_all dispatch delayedLoad (map snd (due_now s1)) s1"
      using Inr s1(5) ds(1) by simp
    ultimately show ?thesis using r(3) by simp
  qed
qed

text \<open>Without the assumption on the status, as the loop is used by \<^verbatim>\<open>Idle\<close>: it still ends.\<close>

lemma CheckIfDue_post:
  assumes "level s = IntOff" "time_ok s" "\<not> inHandler s"
  shows "rpost E (\<lambda>(s', b). same_clock s s' \<and> level s' = IntOff \<and> time_ok s' \<and> status s' = status s
     \<and> \<not> inHandler s' \<and> (b \<longrightarrow> length (due_now s') < length (due_now s)))
     (Interrupt_CheckIfDue dispatch delayedLoad False s)"
proof (cases "due_now s")
  case Nil
  then show ?thesis using CheckIfDue_nothing_due [OF assms(1,2)] assms by (auto simp: same_clock_def)
next
  case (Cons q ds)
  obtain w p where q: "q = (w, p)" by force
  then obtain rest where rest: "pending s = (w, p) # rest" "w \<le> now_ticks s" "due_now (s\<lparr>pending := rest\<rparr>) = ds"
    using due_now_Cons Cons by blast
  show ?thesis
  proof (cases "status s = IdleMode \<and> pi_type p = TimerInt \<and> rest = []")
    case True
    then show ?thesis using assms rest by (auto simp: Interrupt_CheckIfDue_def same_clock_def time_ok_def)
  next
    case False
    then have chk: "Interrupt_CheckIfDue dispatch delayedLoad False s =
        rbind (fire dispatch delayedLoad (status s) p (s\<lparr>pending := rest\<rparr>)) (\<lambda>s. Inr (s, True))"
      using assms(1) rest by (auto simp: Interrupt_CheckIfDue_def Let_def)
    have "rpost E (\<lambda>s'. handler_effect (s\<lparr>pending := rest, inHandler := False\<rparr>) s' \<and> status s' = status s)
        (fire dispatch delayedLoad (status s) p (s\<lparr>pending := rest\<rparr>))"
      using fire_post [of "s\<lparr>pending := rest\<rparr>"] assms(1) by simp
    moreover have "time_ok (s\<lparr>pending := rest, inHandler := False\<rparr>)" using assms(2) rest(1) by (simp add: time_ok_def)
    ultimately show ?thesis
      unfolding chk using assms(1) rest Cons q
      by (auto simp: rpost_def handler_effect_def same_clock_def due_now_def split: sum.splits)
  qed
qed

lemma due_loop_total:
  assumes "level s = IntOff" "time_ok s" "\<not> inHandler s"
  shows "\<exists>r. due_loop dispatch delayedLoad s = Some r
     \<and> rpost E (\<lambda>s'. same_clock s s' \<and> level s' = IntOff \<and> time_ok s' \<and> status s' = status s \<and> \<not> inHandler s') r"
  using assms
proof (induction "length (due_now s)" arbitrary: s rule: less_induct)
  case less
  note post = CheckIfDue_post [OF less.prems]
  show ?case
  proof (cases "Interrupt_CheckIfDue dispatch delayedLoad False s")
    case (Inl e)
    then show ?thesis using post by (subst due_loop.simps) auto
  next
    case (Inr q)
    obtain s1 b where q: "q = (s1, b)" by force
    have s1: "same_clock s s1" "level s1 = IntOff" "time_ok s1" "status s1 = status s" "\<not> inHandler s1"
      "b \<Longrightarrow> length (due_now s1) < length (due_now s)"
      using post Inr q by auto
    show ?thesis
    proof (cases b)
      case True
      then obtain r where r: "due_loop dispatch delayedLoad s1 = Some r"
        "rpost E (\<lambda>s'. same_clock s1 s' \<and> level s' = IntOff \<and> time_ok s' \<and> status s' = status s1 \<and> \<not> inHandler s') r"
        using less.hyps [of s1] s1 by blast
      have "rpost E (\<lambda>s'. same_clock s s' \<and> level s' = IntOff \<and> time_ok s' \<and> status s' = status s \<and> \<not> inHandler s') r"
        using s1 by (intro rpost_mono [OF r(2)]) (auto simp: same_clock_def)
      then show ?thesis using Inr q True r(1) by (subst due_loop.simps) simp
    next
      case False
      then show ?thesis using Inr q s1 by (subst due_loop.simps) simp
    qed
  qed
qed

lemma OneTick_post:
  assumes "time_ok s" "status s \<noteq> IdleMode" "\<not> inHandler s"
  shows "\<exists>r. Interrupt_OneTick dispatch delayedLoad s = Some r
     \<and> rpost E (\<lambda>(s', y). now_ticks s' = now_ticks s + (if status s = SystemMode then 10 else 1)
          \<and> time_ok s' \<and> due_now s' = [] \<and> level s' = IntOn \<and> \<not> inHandler s'
          \<and> status s' = (if y then SystemMode else status s) \<and> (y \<longrightarrow> \<not> yieldOnReturn s')) r"
proof -
  let ?s = "Interrupt_ChangeLevel IntOn IntOff (count_tick s)"
  have "level ?s = IntOff" "time_ok ?s" "status ?s \<noteq> IdleMode" "\<not> inHandler ?s"
    "now_ticks ?s = now_ticks s + (if status s = SystemMode then 10 else 1)" "status ?s = status s"
    using assms by (auto simp: Interrupt_ChangeLevel_def count_tick_def time_ok_def)
  note c = this
  obtain r where r: "due_loop dispatch delayedLoad ?s = Some r"
    "rpost E (\<lambda>s'. same_clock ?s s' \<and> level s' = IntOff \<and> time_ok s' \<and> due_now s' = [] \<and> status s' = status ?s
          \<and> \<not> inHandler s') r"
    using due_loop_fires [OF c(1-4)] by blast
  show ?thesis
  proof (cases r)
    case (Inl e)
    then show ?thesis using r by (simp add: Interrupt_OneTick_def Let_def)
  next
    case (Inr s1)
    then have "same_clock ?s s1" "time_ok s1" "due_now s1 = []" "status s1 = status s" "\<not> inHandler s1"
      using r(2) c(6) by simp_all
    then show ?thesis
      using r(1) Inr c(5)
      by (simp add: Interrupt_OneTick_def Let_def Interrupt_ChangeLevel_def [of IntOff IntOn] same_clock_def
          time_ok_def due_now_def)
  qed
qed

lemma Idle_post:
  assumes "level s = IntOff" "time_ok s" "\<not> inHandler s"
  shows "\<exists>r. Interrupt_Idle dispatch delayedLoad s = Some r
     \<and> rpost (insert Halted E) (\<lambda>s'. pending s \<noteq> [] \<and> now_ticks s' = max (now_ticks s) (fst (hd (pending s)))
          \<and> time_ok s' \<and> level s' = IntOff \<and> status s' = SystemMode \<and> \<not> yieldOnReturn s' \<and> \<not> inHandler s') r
     \<and> (pending s = [] \<longrightarrow> r = Inl Halted)"
proof (cases "pending s")
  case Nil
  then show ?thesis using assms by (simp add: Interrupt_Idle_def Interrupt_CheckIfDue_def)
next
  case (Cons q rest)
  obtain w p where q: "q = (w, p)" by force
  let ?s = "if w > now_ticks s then s\<lparr>status := IdleMode, pending := rest,
        stats := (stats s)\<lparr>idleTicks := idleTicks (stats s) + (w - now_ticks s), totalTicks := w\<rparr>\<rparr>
      else s\<lparr>status := IdleMode, pending := rest\<rparr>"
  have s: "level ?s = IntOff" "time_ok ?s" "\<not> inHandler ?s" "now_ticks ?s = max (now_ticks s) w"
    using assms Cons q by (auto simp: time_ok_def)
  show ?thesis
  proof (cases "pi_type p = TimerInt \<and> rest = []")
    case True
    then show ?thesis using assms Cons q by (auto simp: Interrupt_Idle_def Interrupt_CheckIfDue_def Let_def)
  next
    case False
    then have chk: "Interrupt_CheckIfDue dispatch delayedLoad True (s\<lparr>status := IdleMode\<rparr>) =
        rbind (fire dispatch delayedLoad IdleMode p ?s) (\<lambda>s. Inr (s, True))"
      using assms(1) Cons q by (auto simp: Interrupt_CheckIfDue_def Let_def)
    have post: "rpost E (\<lambda>s'. handler_effect (?s\<lparr>inHandler := False\<rparr>) s' \<and> status s' = IdleMode)
        (fire dispatch delayedLoad IdleMode p ?s)"
      by (rule fire_post [OF s(1)])
    show ?thesis
    proof (cases "fire dispatch delayedLoad IdleMode p ?s")
      case (Inl e)
      then show ?thesis using chk post Cons by (simp add: Interrupt_Idle_def Let_def)
    next
      case (Inr s1)
      have eff: "handler_effect (?s\<lparr>inHandler := False\<rparr>) s1" using post Inr by simp
      have s1: "same_clock ?s s1" "level s1 = IntOff" "time_ok s1" "\<not> inHandler s1"
        using eff s(1,2) by (auto simp: handler_effect_def same_clock_def time_ok_def)
      obtain r where r: "due_loop dispatch delayedLoad s1 = Some r"
        "rpost E (\<lambda>s'. same_clock s1 s' \<and> level s' = IntOff \<and> time_ok s' \<and> status s' = status s1 \<and> \<not> inHandler s') r"
        using due_loop_total [OF s1(2-4)] by blast
      have clk: "now_ticks s1 = max (now_ticks s) w" using s1(1) s(4) by (simp add: same_clock_def)
      have "rpost (insert Halted E) (\<lambda>s'. pending s \<noteq> [] \<and> now_ticks s' = max (now_ticks s) (fst (hd (pending s)))
          \<and> time_ok s' \<and> level s' = IntOff \<and> status s' = SystemMode \<and> \<not> yieldOnReturn s' \<and> \<not> inHandler s')
          (rbind r (\<lambda>s. Inr (s\<lparr>yieldOnReturn := False, status := SystemMode\<rparr>)))"
        using r(2) clk Cons q
        by (auto simp: rpost_def same_clock_def time_ok_def split: sum.splits)
      then show ?thesis
        using chk Inr r(1) Cons by (simp add: Interrupt_Idle_def Let_def)
    qed
  qed
qed

end

subsection \<open>The timer provides the interface\<close>

text \<open>
  A kernel whose only interrupts come from the timer; \<open>rnd\<close> is what \<^verbatim>\<open>Random()\<close> returns at a given
  time, never negative.
\<close>

definition timer_dispatch :: "bool \<Rightarrow> (int \<Rightarrow> nat) \<Rightarrow> ('h, 'z) dispatcher" where
  "timer_dispatch randomize rnd p s =
     Timer_TimerExpired (pi_handler p) randomize (int (rnd (now_ticks s))) (pi_arg p) s"

lemma TimeOfNextInterrupt_pos: "0 \<le> r \<Longrightarrow> 0 < Timer_TimeOfNextInterrupt randomize r"
  by (simp add: Timer_TimeOfNextInterrupt_def add_pos_nonneg)

lemma YieldOnReturn_effect: "inHandler s \<Longrightarrow> rpost {} (handler_effect s) (TimerInterruptHandler s)"
  by (simp add: TimerInterruptHandler_def Interrupt_YieldOnReturn_def handler_effect_def same_clock_def
      time_ok_def due_now_def)

lemma timer_dispatch_effect:
  assumes "inHandler s"
  shows "rpost {} (handler_effect s) (timer_dispatch randomize rnd p s)"
proof -
  obtain s1 where s1: "Interrupt_Schedule (pi_handler p) (pi_arg p)
      (Timer_TimeOfNextInterrupt randomize (int (rnd (now_ticks s)))) TimerInt s = Inr s1" "handler_effect s s1"
    using Schedule_future [OF TimeOfNextInterrupt_pos [of "int (rnd (now_ticks s))" randomize]] by fastforce
  then have "inHandler s1" using assms by (simp add: handler_effect_def)
  from YieldOnReturn_effect [OF this] show ?thesis
    unfolding timer_dispatch_def Timer_TimerExpired_def s1(1) rbind.simps
    by (rule rpost_mono) (auto intro: handler_effect_trans [OF s1(2)])
qed

interpretation timer: interrupt_handlers "timer_dispatch randomize rnd" Inr "{}" for randomize rnd
  by unfold_locales (auto simp: timer_dispatch_effect)

subsection \<open>Properties\<close>

definition example_istate :: "nat istate" where
  "example_istate = Interrupt_Interrupt\<lparr>pending := [(5, \<lparr>pi_handler = 0, pi_arg = 0, pi_when = 5, pi_type = TimerInt\<rparr>),
     (8, \<lparr>pi_handler = 1, pi_arg = 0, pi_when = 8, pi_type = TimerInt\<rparr>),
     (40, \<lparr>pi_handler = 2, pi_arg = 0, pi_when = 40, pi_type = TimerInt\<rparr>)]\<rparr>"

lemma example_istate_ok: "time_ok example_istate" "status example_istate = SystemMode" "\<not> inHandler example_istate"
  "level example_istate = IntOff"
  by (simp_all add: example_istate_def Interrupt_Interrupt_def time_ok_def Statistics_Statistics_def)



text \<open>
  The interrupts that are due at a tick are fired exactly once each, in the order of their times
  (earlier scheduled first among equal times), and nothing else is fired: the loop of \<^verbatim>\<open>OneTick\<close> is the
  run of their handlers one after the other, up to the order of the interrupts left pending.
\<close>

theorem due_loop_order:
  fixes s :: "('h, 'z) istate_scheme"
  assumes "level s = IntOff" "time_ok s" "status s \<noteq> IdleMode" "\<not> inHandler s"
  shows "\<exists>s0 P. fire_all (timer_dispatch randomize rnd) Inr
         (map snd (filter (\<lambda>p. fst p \<le> now_ticks s) (pending s))) s = Inr s0
     \<and> due_loop (timer_dispatch randomize rnd) Inr s = Some (Inr (s0\<lparr>pending := P\<rparr>)) \<and> mset P = mset (pending s0)"
proof -
  have f: "filter (\<lambda>p. fst p \<le> now_ticks s) (pending s) = due_now s"
    unfolding due_now_def using assms(2) by (intro filter_takeWhile_sorted) (simp add: time_ok_def)
  obtain r where r: "due_loop (timer_dispatch randomize rnd) Inr s = Some r"
     "rpost {} (\<lambda>s'. same_clock s s' \<and> level s' = IntOff \<and> time_ok s' \<and> due_now s' = [] \<and> status s' = status s
          \<and> \<not> inHandler s') r"
     "case fire_all (timer_dispatch randomize rnd) Inr (map snd (due_now s)) s of
          Inl e \<Rightarrow> r = Inl e | Inr s0 \<Rightarrow> \<exists>P. mset P = mset (pending s0) \<and> r = Inr (s0\<lparr>pending := P\<rparr>)"
    using timer.due_loop_fires [OF assms] by blast
  then show ?thesis
    unfolding f by (auto split: sum.splits)
qed

theorem due_loop_order_witness:
  "\<exists>s0 P. fire_all (timer_dispatch False (\<lambda>_. 0)) Inr
        [\<lparr>pi_handler = 0, pi_arg = 0, pi_when = 5, pi_type = TimerInt\<rparr>, \<lparr>pi_handler = 1, pi_arg = 0, pi_when = 8, pi_type = TimerInt\<rparr>]
        (example_istate\<lparr>stats := Statistics_Statistics\<lparr>totalTicks := 10, systemTicks := 10\<rparr>\<rparr>) = Inr s0
     \<and> due_loop (timer_dispatch False (\<lambda>_. 0)) Inr (example_istate\<lparr>stats := Statistics_Statistics\<lparr>totalTicks := 10, systemTicks := 10\<rparr>\<rparr>)
        = Some (Inr (s0\<lparr>pending := P\<rparr>)) \<and> mset P = mset (pending s0)"
proof -
  let ?s = "example_istate\<lparr>stats := Statistics_Statistics\<lparr>totalTicks := 10, systemTicks := 10\<rparr>\<rparr>"
  have "level ?s = IntOff" "time_ok ?s" "status ?s \<noteq> IdleMode" "\<not> inHandler ?s"
    using example_istate_ok by (simp_all add: time_ok_def Statistics_Statistics_def)
  from due_loop_order [OF this, of False "\<lambda>_. 0"] show ?thesis
    by (simp add: example_istate_def Interrupt_Interrupt_def)
qed

text \<open>
  Idling: with no interrupt pending the machine halts; otherwise idling comes back with the clock
  moved to the time of the earliest interrupt (never backwards) and time accounting intact, or halts.
\<close>

theorem Idle_returns:
  fixes s :: "('h, 'z) istate_scheme"
  assumes "level s = IntOff" "time_ok s" "\<not> inHandler s"
  shows "\<exists>r. Interrupt_Idle (timer_dispatch randomize rnd) Inr s = Some r
     \<and> (if pending s = [] then r = Inl Halted
        else rpost {Halted} (\<lambda>s'. now_ticks s' = max (now_ticks s) (fst (hd (pending s))) \<and> time_ok s'
               \<and> status s' = SystemMode \<and> \<not> yieldOnReturn s') r)"
proof -
  obtain r where r: "Interrupt_Idle (timer_dispatch randomize rnd) Inr s = Some r"
    "rpost {Halted} (\<lambda>s'. pending s \<noteq> [] \<and> now_ticks s' = max (now_ticks s) (fst (hd (pending s)))
       \<and> time_ok s' \<and> level s' = IntOff \<and> status s' = SystemMode \<and> \<not> yieldOnReturn s' \<and> \<not> inHandler s') r"
    "pending s = [] \<longrightarrow> r = Inl Halted"
    using timer.Idle_post [OF assms, of randomize rnd] by blast
  have "rpost {Halted} (\<lambda>s'. now_ticks s' = max (now_ticks s) (fst (hd (pending s))) \<and> time_ok s'
      \<and> status s' = SystemMode \<and> \<not> yieldOnReturn s') r"
    by (rule rpost_mono [OF r(2)]) auto
  then show ?thesis using r(1,3) by auto
qed

theorem Idle_returns_witness:
  "\<exists>r. Interrupt_Idle (timer_dispatch False (\<lambda>_. 0)) Inr example_istate = Some r
     \<and> rpost {Halted} (\<lambda>s'. now_ticks s' = 5 \<and> time_ok s' \<and> status s' = SystemMode) r"
proof -
  have "pending example_istate \<noteq> []" "now_ticks example_istate = 0" "fst (hd (pending example_istate)) = 5"
    by (simp_all add: example_istate_def Interrupt_Interrupt_def Statistics_Statistics_def)
  then show ?thesis
    using Idle_returns [of example_istate False "\<lambda>_. 0"] example_istate_ok
    by (auto elim!: rpost_mono)
qed

end
