(* ===== verification/Nachos_Machine.thy ===== *)
theory Nachos_Machine
  imports Nachos_Prelude Nachos_Bitmap Nachos_Interrupt
begin

text \<open>
  The simulated hardware seen by user programs: \<^verbatim>\<open>machine/machine.h\<close>, \<^verbatim>\<open>machine/machine.cc\<close>,
  \<^verbatim>\<open>machine/translate.h\<close> and \<^verbatim>\<open>machine/translate.cc\<close>.  Registers are 32-bit words, main memory
  is a list of bytes, the page table is the inverted table of the source (one entry per physical
  frame, tagged with a thread).  The kernel's \<^verbatim>\<open>ExceptionHandler\<close> is an argument of the operations
  that may trap, as the hardware only knows its entry point; \<^verbatim>\<open>currentThread->getPid()\<close> is the
  argument \<open>pid\<close>.
\<close>

subsection \<open>Data\<close>

abbreviation (input) PageSize :: nat where "PageSize \<equiv> 128"
abbreviation (input) NumPhysPages :: nat where "NumPhysPages \<equiv> 32"
abbreviation (input) MemorySize :: nat where "MemorySize \<equiv> 4096"
abbreviation (input) TLBSize :: nat where "TLBSize \<equiv> 4"

datatype ExceptionType =
  NoException | SyscallException | PageFaultException | ReadOnlyException | BusErrorException
| AddressErrorException | OverflowException | IllegalInstrException

record TranslationEntry =
  virtualPage :: "32 word"
  physicalPage :: "32 word"
  te_valid :: bool
  readOnly :: bool
  te_use :: bool
  dirty :: bool
  te_thread :: int

abbreviation (input) StackReg :: nat where "StackReg \<equiv> 29"
abbreviation (input) RetAddrReg :: nat where "RetAddrReg \<equiv> 31"
abbreviation (input) HiReg :: nat where "HiReg \<equiv> 32"
abbreviation (input) LoReg :: nat where "LoReg \<equiv> 33"
abbreviation (input) PCReg :: nat where "PCReg \<equiv> 34"
abbreviation (input) NextPCReg :: nat where "NextPCReg \<equiv> 35"
abbreviation (input) PrevPCReg :: nat where "PrevPCReg \<equiv> 36"
abbreviation (input) LoadReg :: nat where "LoadReg \<equiv> 37"
abbreviation (input) LoadValueReg :: nat where "LoadValueReg \<equiv> 38"
abbreviation (input) BadVAddrReg :: nat where "BadVAddrReg \<equiv> 39"
abbreviation (input) NumTotalRegs :: nat where "NumTotalRegs \<equiv> 40"

text \<open>
  \<open>mode\<close> is the status the machine shares with the interrupt simulation
  (\<^verbatim>\<open>interrupt->setStatus\<close>).  A null \<^verbatim>\<open>tlb\<close> or \<^verbatim>\<open>pageTable\<close> pointer is \<^const>\<open>None\<close>.
\<close>

record machine =
  mainMemory :: "8 word list"
  registers :: "nat \<Rightarrow> 32 word"
  tlb :: "TranslationEntry list option"
  pageTable :: "TranslationEntry list option"
  queuePointer :: nat
  tlbflag :: "int list"
  findtimes :: int
  misstimes :: int
  MemoryMap :: bitmap
  MapPointer :: nat
  singleStep :: bool
  mode :: MachineStatus

type_synonym handler = "ExceptionType \<Rightarrow> machine \<Rightarrow> machine result"

subsection \<open>Construction and register access\<close>

definition CheckEndian :: "unit result" where
  "CheckEndian = ASSERT (word4 1 2 3 4 = 0x04030201) (Inr ())"

definition initial_entry :: "nat \<Rightarrow> TranslationEntry" where
  "initial_entry i = \<lparr>virtualPage = - 1, physicalPage = of_nat i, te_valid = False, readOnly = False,
     te_use = False, dirty = False, te_thread = - 1\<rparr>"

text \<open>
  \<open>use_tlb\<close> is the preprocessor switch \<^verbatim>\<open>USE_TLB\<close>.  The fields of a new TLB entry other than
  \<^verbatim>\<open>valid\<close> are uninitialised (\<open>junk\<close>).
\<close>

definition Machine_Machine ::
  "bool \<Rightarrow> (nat \<Rightarrow> TranslationEntry) \<Rightarrow> (nat \<Rightarrow> 32 word) \<Rightarrow> bool \<Rightarrow> machine result" where
  "Machine_Machine use_tlb junk garbage debug =
     rbind (BitMap_BitMap garbage (int NumPhysPages)) (\<lambda>mm.
     rbind CheckEndian (\<lambda>_.
       Inr \<lparr>mainMemory = replicate MemorySize 0,
            registers = (\<lambda>_. 0),
            tlb = (if use_tlb then Some (map (\<lambda>i. (junk i)\<lparr>te_valid := False\<rparr>) [0..<TLBSize]) else None),
            pageTable = (if use_tlb then None else Some (map initial_entry [0..<NumPhysPages])),
            queuePointer = 0,
            tlbflag = map int [0..<TLBSize],
            findtimes = 0,
            misstimes = 0,
            MemoryMap = mm,
            MapPointer = 0,
            singleStep = debug,
            mode = SystemMode\<rparr>))"

definition set_reg :: "nat \<Rightarrow> 32 word \<Rightarrow> machine \<Rightarrow> machine" where
  "set_reg r v m = m\<lparr>registers := (registers m)(r := v)\<rparr>"

definition Machine_ReadRegister :: "machine \<Rightarrow> int \<Rightarrow> 32 word result" where
  "Machine_ReadRegister m num =
     ASSERT (num \<ge> 0 \<and> num < int NumTotalRegs) (Inr (registers m (nat num)))"

definition Machine_WriteRegister :: "machine \<Rightarrow> int \<Rightarrow> 32 word \<Rightarrow> machine result" where
  "Machine_WriteRegister m num v =
     ASSERT (num \<ge> 0 \<and> num < int NumTotalRegs) (Inr (set_reg (nat num) v m))"

definition Machine_SetpageTable ::
  "nat \<Rightarrow> 32 word \<Rightarrow> 32 word \<Rightarrow> bool \<Rightarrow> bool \<Rightarrow> bool \<Rightarrow> bool \<Rightarrow> int \<Rightarrow> machine \<Rightarrow> machine result" where
  "Machine_SetpageTable i vp pp us ro di va th m =
     (case pageTable m of
        None \<Rightarrow> Inl NullDeref
      | Some pt \<Rightarrow>
          if i < length pt
          then Inr (m\<lparr>pageTable := Some (pt[i := \<lparr>virtualPage = vp, physicalPage = pp, te_valid = va,
                 readOnly = ro, te_use = us, dirty = di, te_thread = th\<rparr>])\<rparr>)
          else Inl OutOfBounds)"

text \<open>The register that receives a delayed load is itself read from a register.\<close>

definition Machine_DelayedLoad :: "nat \<Rightarrow> 32 word \<Rightarrow> machine \<Rightarrow> machine result" where
  "Machine_DelayedLoad nextReg nextValue m =
     (let r = registers m LoadReg in
      if r < of_nat NumTotalRegs
      then Inr (set_reg 0 0 (set_reg LoadValueReg nextValue (set_reg LoadReg (of_nat nextReg)
             (set_reg (unat r) (registers m LoadValueReg) m))))
      else Inl OutOfBounds)"

definition setStatus :: "MachineStatus \<Rightarrow> machine \<Rightarrow> machine" where
  "setStatus st m = m\<lparr>mode := st\<rparr>"

definition Machine_RaiseException ::
  "handler \<Rightarrow> ExceptionType \<Rightarrow> 32 word \<Rightarrow> machine \<Rightarrow> machine result" where
  "Machine_RaiseException ExceptionHandler which badVAddr m =
     (let m = set_reg BadVAddrReg badVAddr m in
      rbind (Machine_DelayedLoad 0 0 m) (\<lambda>m.
      let m = setStatus SystemMode m in
      rbind (ExceptionHandler which m) (\<lambda>m.
      Inr (setStatus UserMode m))))"

subsection \<open>The TLB replacement counters\<close>

fun swap_loop :: "nat list \<Rightarrow> int list \<Rightarrow> nat \<Rightarrow> int list \<times> nat" where
  "swap_loop [] fl mx = (fl, mx)"
| "swap_loop (i # is) fl mx =
     (let fl = fl[i := fl ! i + 1]
      in swap_loop is fl (if fl ! i > fl ! mx then i else mx))"

definition Machine_Swaptlb :: "machine \<Rightarrow> machine \<times> nat" where
  "Machine_Swaptlb m =
     (let (fl, mx) = swap_loop [0..<TLBSize] (tlbflag m) 0
      in (m\<lparr>tlbflag := fl[mx := 0]\<rparr>, mx))"

definition Machine_Hittlb :: "nat \<Rightarrow> machine \<Rightarrow> machine" where
  "Machine_Hittlb hiti m = m\<lparr>tlbflag := (map (\<lambda>x. x + 1) (tlbflag m))[hiti := 0]\<rparr>"

subsection \<open>Byte order\<close>

text \<open>\<open>big\<close> is the preprocessor switch \<^verbatim>\<open>HOST_IS_BIG_ENDIAN\<close>.\<close>

definition WordToHost :: "bool \<Rightarrow> 32 word \<Rightarrow> 32 word" where
  "WordToHost big word =
     (if big then (drop_bit 24 word AND 0x000000ff) OR (drop_bit 8 word AND 0x0000ff00)
        OR (push_bit 8 word AND 0x00ff0000) OR (push_bit 24 word AND 0xff000000)
      else word)"

definition ShortToHost :: "bool \<Rightarrow> 16 word \<Rightarrow> 16 word" where
  "ShortToHost big shortword =
     (if big then (push_bit 8 shortword AND 0xff00) OR (drop_bit 8 shortword AND 0x00ff) else shortword)"

definition WordToMachine :: "bool \<Rightarrow> 32 word \<Rightarrow> 32 word" where
  "WordToMachine big word = WordToHost big word"

definition ShortToMachine :: "bool \<Rightarrow> 16 word \<Rightarrow> 16 word" where
  "ShortToMachine big shortword = ShortToHost big shortword"

subsection \<open>Address translation\<close>

text \<open>
  The search does not stop at a match: the last matching entry is used.  The index of the entry
  stands for the pointer \<^verbatim>\<open>entry\<close>.
\<close>

fun pt_search :: "TranslationEntry list \<Rightarrow> 32 word \<Rightarrow> int \<Rightarrow> nat option \<Rightarrow> nat list \<Rightarrow> nat option" where
  "pt_search pt vpn pid entry [] = entry"
| "pt_search pt vpn pid entry (j # js) =
     pt_search pt vpn pid
       (if virtualPage (pt ! j) = vpn \<and> te_valid (pt ! j) \<and> te_thread (pt ! j) = pid then Some j else entry) js"

definition Machine_Translate ::
  "int \<Rightarrow> 32 word \<Rightarrow> nat \<Rightarrow> bool \<Rightarrow> machine \<Rightarrow> (machine \<times> (ExceptionType + nat)) result" where
  "Machine_Translate pid virtAddr sz writing m =
     (if (sz = 4 \<and> virtAddr AND 3 \<noteq> 0) \<or> (sz = 2 \<and> virtAddr AND 1 \<noteq> 0)
      then Inr (m, Inl AddressErrorException)
      else ASSERT (tlb m = None \<or> pageTable m = None)
        (ASSERT (tlb m \<noteq> None \<or> pageTable m \<noteq> None)
          (let vpn = virtAddr div of_nat PageSize; offset = virtAddr mod of_nat PageSize in
           case pageTable m of
             None \<Rightarrow> Inl NullDeref
           | Some pt \<Rightarrow>
              (case pt_search pt vpn pid None [0..<NumPhysPages] of
                 None \<Rightarrow> Inr (m, Inl PageFaultException)
               | Some j \<Rightarrow>
                   let entry = pt ! j; pageFrame = physicalPage entry in
                   if readOnly entry \<and> writing then Inr (m, Inl ReadOnlyException)
                   else if pageFrame \<ge> of_nat NumPhysPages then Inr (m, Inl BusErrorException)
                   else
                     let entry = entry\<lparr>te_use := True, dirty := (if writing then True else dirty entry)\<rparr>;
                         physAddr = sint (pageFrame * of_nat PageSize + offset)
                     in ASSERT (physAddr \<ge> 0 \<and> physAddr + int sz \<le> int MemorySize)
                          (Inr (m\<lparr>pageTable := Some (pt[j := entry])\<rparr>, Inr (nat physAddr)))))))"

text \<open>A failed translation traps and is retried once; \<^const>\<open>None\<close> is the second failure.\<close>

definition translate_retry ::
  "handler \<Rightarrow> int \<Rightarrow> 32 word \<Rightarrow> nat \<Rightarrow> bool \<Rightarrow> machine \<Rightarrow> (machine \<times> nat option) result" where
  "translate_retry ExceptionHandler pid addr sz writing m =
     rbind (Machine_Translate pid addr sz writing m) (\<lambda>(m, r).
       case r of
         Inr physicalAddress \<Rightarrow> Inr (m, Some physicalAddress)
       | Inl e \<Rightarrow>
           rbind (Machine_RaiseException ExceptionHandler e addr m) (\<lambda>m.
           rbind (Machine_Translate pid addr sz writing m) (\<lambda>(m, r).
             case r of Inr physicalAddress \<Rightarrow> Inr (m, Some physicalAddress) | Inl e \<Rightarrow> Inr (m, None))))"

text \<open>The simulated memory is little endian and so is the host; one byte is a signed \<^verbatim>\<open>char\<close>.\<close>

definition mem_read :: "8 word list \<Rightarrow> nat \<Rightarrow> nat \<Rightarrow> 32 word result" where
  "mem_read mem pa sz =
     (if sz = 1 then Inr (scast (mem ! pa))
      else if sz = 2 then Inr (ucast (ShortToHost False (word2 (mem ! pa) (mem ! (pa + 1)))))
      else if sz = 4 then
        Inr (WordToHost False (word4 (mem ! pa) (mem ! (pa + 1)) (mem ! (pa + 2)) (mem ! (pa + 3))))
      else Inl AssertFail)"

definition mem_write :: "8 word list \<Rightarrow> nat \<Rightarrow> nat \<Rightarrow> 32 word \<Rightarrow> 8 word list result" where
  "mem_write mem pa sz v =
     (if sz = 1 then Inr (put_bytes pa [ucast (v AND 0xff)] mem)
      else if sz = 2 then Inr (put_bytes pa (bytes2 (ShortToMachine False (ucast (v AND 0xffff)))) mem)
      else if sz = 4 then Inr (put_bytes pa (bytes4 (WordToMachine False v)) mem)
      else Inl AssertFail)"

definition Machine_ReadMem ::
  "handler \<Rightarrow> int \<Rightarrow> 32 word \<Rightarrow> nat \<Rightarrow> machine \<Rightarrow> (machine \<times> 32 word option) result" where
  "Machine_ReadMem ExceptionHandler pid addr sz m =
     rbind (translate_retry ExceptionHandler pid addr sz False m) (\<lambda>(m, pa).
       case pa of
         None \<Rightarrow> Inr (m, None)
       | Some physicalAddress \<Rightarrow>
           rbind (mem_read (mainMemory m) physicalAddress sz) (\<lambda>v. Inr (m, Some v)))"

definition Machine_WriteMem ::
  "handler \<Rightarrow> int \<Rightarrow> 32 word \<Rightarrow> nat \<Rightarrow> 32 word \<Rightarrow> machine \<Rightarrow> (machine \<times> bool) result" where
  "Machine_WriteMem ExceptionHandler pid addr sz v m =
     rbind (translate_retry ExceptionHandler pid addr sz True m) (\<lambda>(m, pa).
       case pa of
         None \<Rightarrow> Inr (m, False)
       | Some physicalAddress \<Rightarrow>
           rbind (mem_write (mainMemory m) physicalAddress sz v) (\<lambda>mem.
             Inr (m\<lparr>mainMemory := mem\<rparr>, True)))"

subsection \<open>Well-formed machines\<close>

text \<open>
  The machine of the kernel built without \<^verbatim>\<open>USE_TLB\<close>: memory and table have their sizes, entry
  \<open>i\<close> maps frame \<open>i\<close>, a frame with a valid entry is marked in the memory map, and a thread has at
  most one valid entry for a virtual page.
\<close>

definition table_ok :: "TranslationEntry list \<Rightarrow> bitmap \<Rightarrow> bool" where
  "table_ok pt mm \<longleftrightarrow> length pt = NumPhysPages \<and> bitmap_ok mm \<and> numBits mm = int NumPhysPages
     \<and> (\<forall>i<NumPhysPages. physicalPage (pt ! i) = of_nat i \<and> (te_valid (pt ! i) \<longrightarrow> int i \<in> bits_of mm))
     \<and> (\<forall>i<NumPhysPages. \<forall>j<NumPhysPages. te_valid (pt ! i) \<and> te_valid (pt ! j)
          \<and> virtualPage (pt ! i) = virtualPage (pt ! j) \<and> te_thread (pt ! i) = te_thread (pt ! j) \<longrightarrow> i = j)"

definition machine_ok :: "machine \<Rightarrow> bool" where
  "machine_ok m \<longleftrightarrow> length (mainMemory m) = MemorySize \<and> tlb m = None
     \<and> (\<exists>pt. pageTable m = Some pt \<and> table_ok pt (MemoryMap m))"

definition entry_for :: "TranslationEntry list \<Rightarrow> int \<Rightarrow> 32 word \<Rightarrow> nat \<Rightarrow> bool" where
  "entry_for pt pid vpn j \<longleftrightarrow> j < NumPhysPages \<and> virtualPage (pt ! j) = vpn \<and> te_valid (pt ! j)
     \<and> te_thread (pt ! j) = pid"

definition aligned :: "32 word \<Rightarrow> nat \<Rightarrow> bool" where
  "aligned va sz \<longleftrightarrow> sz \<in> {1, 2, 4} \<and> unat va mod sz = 0"

lemma pt_search_Some:
  "pt_search pt vpn pid e js = Some j \<Longrightarrow>
   e = Some j \<or> (j \<in> set js \<and> virtualPage (pt ! j) = vpn \<and> te_valid (pt ! j) \<and> te_thread (pt ! j) = pid)"
  by (induction pt vpn pid e js rule: pt_search.induct) (auto split: if_splits)

lemma pt_search_None:
  "pt_search pt vpn pid e js = None \<longleftrightarrow>
   e = None \<and> (\<forall>j\<in>set js. \<not> (virtualPage (pt ! j) = vpn \<and> te_valid (pt ! j) \<and> te_thread (pt ! j) = pid))"
  by (induction pt vpn pid e js rule: pt_search.induct) auto

lemma pt_search_entry:
  "pt_search pt vpn pid None [0..<NumPhysPages] = Some j \<Longrightarrow> entry_for pt pid vpn j"
  by (drule pt_search_Some) (simp add: entry_for_def)

lemma entry_for_unique:
  "table_ok pt mm \<Longrightarrow> entry_for pt pid vpn i \<Longrightarrow> entry_for pt pid vpn j \<Longrightarrow> i = j"
  unfolding table_ok_def entry_for_def by metis

lemma pt_search_unique:
  assumes "table_ok pt mm" "entry_for pt pid vpn j"
  shows "pt_search pt vpn pid None [0..<NumPhysPages] = Some j"
proof (cases "pt_search pt vpn pid None [0..<NumPhysPages]")
  case None
  then show ?thesis using assms(2) by (auto simp: pt_search_None entry_for_def)
next
  case (Some i)
  then show ?thesis using pt_search_entry entry_for_unique [OF assms(1) _ assms(2)] by blast
qed

lemma and_low_bits: "va AND 3 = 0 \<longleftrightarrow> unat va mod 4 = 0" "va AND 1 = 0 \<longleftrightarrow> unat va mod 2 = 0"
  for va :: "32 word"
proof -
  have "va AND 3 = va mod 4" "va AND 1 = va mod 2"
    using take_bit_eq_mask [of 2 va] take_bit_eq_mask [of 1 va]
    by (simp_all add: mask_eq_exp_minus_1 take_bit_eq_mod)
  then show "va AND 3 = 0 \<longleftrightarrow> unat va mod 4 = 0" "va AND 1 = 0 \<longleftrightarrow> unat va mod 2 = 0"
    by (simp_all add: word_unat_eq_iff unat_mod)
qed

lemma alignment_check:
  "sz \<in> {1, 2, 4} \<Longrightarrow>
   ((sz = 4 \<and> va AND 3 \<noteq> 0) \<or> (sz = 2 \<and> va AND 1 \<noteq> 0)) \<longleftrightarrow> \<not> aligned va sz"
  by (auto simp: aligned_def and_low_bits)

lemma aligned_offset:
  assumes "aligned va sz"
  shows "unat va mod 128 + sz \<le> 128"
proof -
  have "sz dvd 128" "sz dvd unat va" using assms by (auto simp: aligned_def)
  then have "sz dvd unat va mod 128" by (simp add: dvd_mod)
  moreover have "unat va mod 128 < 128" by simp
  ultimately have "sz dvd 128 - unat va mod 128" "0 < 128 - unat va mod 128"
    using \<open>sz dvd 128\<close> by (simp_all add: dvd_diff_nat)
  then have "sz \<le> 128 - unat va mod 128" by (rule dvd_imp_le)
  then show ?thesis using \<open>unat va mod 128 < 128\<close> by linarith
qed

lemma phys_addr_value:
  assumes "j < 32"
  shows "sint ((of_nat j :: 32 word) * 128 + va mod 128) = int (j * 128 + unat va mod 128)"
proof -
  have m: "unat (va mod 128) = unat va mod 128" by (simp add: unat_mod)
  have lt: "j * 128 + unat va mod 128 < 4096"
    using assms mod_less_divisor [of 128 "unat va"] by linarith
  have "(of_nat j :: 32 word) * 128 + va mod 128 = of_nat (j * 128 + unat va mod 128)"
    by (simp add: m [symmetric])
  then have "sint ((of_nat j :: 32 word) * 128 + va mod 128) = sint (of_nat (j * 128 + unat va mod 128) :: 32 word)"
    by (simp only:)
  also have "\<dots> = int (j * 128 + unat va mod 128)"
    using lt by (simp add: signed_of_nat signed_take_bit_int_eq_self del: of_nat_add of_nat_mult)
  finally show ?thesis .
qed

lemma Translate_hit:
  assumes ok: "machine_ok m" and pt: "pageTable m = Some pt"
    and e: "entry_for pt pid (va div 128) j" and al: "aligned va sz" and ro: "\<not> (readOnly (pt ! j) \<and> writing)"
  shows "Machine_Translate pid va sz writing m =
    Inr (m\<lparr>pageTable := Some (pt[j := (pt ! j)\<lparr>te_use := True, dirty := writing \<or> dirty (pt ! j)\<rparr>])\<rparr>,
         Inr (j * 128 + unat va mod 128))"
proof -
  have tab: "table_ok pt (MemoryMap m)" and tlb: "tlb m = None" using ok pt by (auto simp: machine_ok_def)
  have j: "j < 32" using e by (simp add: entry_for_def)
  then have ph: "physicalPage (pt ! j) = of_nat j" using tab by (simp add: table_ok_def)
  have frame: "\<not> (32 :: 32 word) \<le> of_nat j" using j by (simp add: word_le_nat_alt unat_of_nat)
  have sum: "j * 128 + unat va mod 128 + sz \<le> 4096" using aligned_offset [OF al] j by linarith
  have al': "\<not> ((sz = 4 \<and> va AND 3 \<noteq> 0) \<or> (sz = 2 \<and> va AND 1 \<noteq> 0))"
    using al alignment_check [of sz va] by (simp add: aligned_def)
  have b: "int (j * 128 + unat va mod 128) + int sz \<le> 4096" using sum by linarith
  show ?thesis
    using al' tlb pt ro frame b
    by (auto simp: Machine_Translate_def pt_search_unique [OF tab e, simplified] ph
        phys_addr_value [OF j] Let_def nat_add_distrib nat_mult_distrib)
qed

lemma Translate_miss:
  assumes ok: "machine_ok m" and pt: "pageTable m = Some pt"
    and e: "\<forall>j. \<not> entry_for pt pid (va div 128) j" and al: "aligned va sz"
  shows "Machine_Translate pid va sz writing m = Inr (m, Inl PageFaultException)"
proof -
  have "pt_search pt (va div 128) pid None [0..<NumPhysPages] = None"
    using e pt_search_entry [of pt "va div 128" pid] by (cases "pt_search pt (va div 128) pid None [0..<NumPhysPages]") auto
  moreover have "\<not> ((sz = 4 \<and> va AND 3 \<noteq> 0) \<or> (sz = 2 \<and> va AND 1 \<noteq> 0))"
    using al alignment_check [of sz va] by (simp add: aligned_def)
  ultimately show ?thesis using ok pt by (auto simp: Machine_Translate_def machine_ok_def)
qed

lemma Translate_misaligned:
  "sz \<in> {1, 2, 4} \<Longrightarrow> \<not> aligned va sz \<Longrightarrow> Machine_Translate pid va sz writing m = Inr (m, Inl AddressErrorException)"
  using alignment_check [of sz va] by (auto simp: Machine_Translate_def)

lemma Translate_readonly:
  assumes ok: "machine_ok m" and pt: "pageTable m = Some pt"
    and e: "entry_for pt pid (va div 128) j" and al: "aligned va sz" and ro: "readOnly (pt ! j)"
  shows "Machine_Translate pid va sz True m = Inr (m, Inl ReadOnlyException)"
proof -
  have tab: "table_ok pt (MemoryMap m)" using ok pt by (auto simp: machine_ok_def)
  have "\<not> ((sz = 4 \<and> va AND 3 \<noteq> 0) \<or> (sz = 2 \<and> va AND 1 \<noteq> 0))"
    using al alignment_check [of sz va] by (simp add: aligned_def)
  then show ?thesis
    using ok pt ro pt_search_unique [OF tab e] by (auto simp: Machine_Translate_def machine_ok_def)
qed

lemma table_ok_flags:
  assumes "table_ok pt mm" "j < 32"
  shows "table_ok (pt[j := (pt ! j)\<lparr>te_use := u, dirty := d\<rparr>]) mm"
proof -
  have "virtualPage (pt[j := (pt ! j)\<lparr>te_use := u, dirty := d\<rparr>] ! i) = virtualPage (pt ! i)"
    "physicalPage (pt[j := (pt ! j)\<lparr>te_use := u, dirty := d\<rparr>] ! i) = physicalPage (pt ! i)"
    "te_valid (pt[j := (pt ! j)\<lparr>te_use := u, dirty := d\<rparr>] ! i) = te_valid (pt ! i)"
    "te_thread (pt[j := (pt ! j)\<lparr>te_use := u, dirty := d\<rparr>] ! i) = te_thread (pt ! i)" if "i < 32" for i
    using assms that by (simp_all add: nth_list_update table_ok_def)
  then show ?thesis using assms(1) unfolding table_ok_def by simp
qed

text \<open>On a well-formed machine the outcome of a translation is determined by the page table.\<close>

lemma Translate_cases:
  assumes ok: "machine_ok m" and sz: "sz \<in> {1, 2, 4}"
  obtains (misaligned) "\<not> aligned va sz" "Machine_Translate pid va sz w m = Inr (m, Inl AddressErrorException)"
  | (miss) pt where "aligned va sz" "pageTable m = Some pt" "\<forall>j. \<not> entry_for pt pid (va div 128) j"
      "Machine_Translate pid va sz w m = Inr (m, Inl PageFaultException)"
  | (denied) pt j where "aligned va sz" "pageTable m = Some pt" "entry_for pt pid (va div 128) j" "w"
      "readOnly (pt ! j)" "Machine_Translate pid va sz w m = Inr (m, Inl ReadOnlyException)"
  | (hit) pt j m' where "aligned va sz" "pageTable m = Some pt" "entry_for pt pid (va div 128) j"
      "\<not> (readOnly (pt ! j) \<and> w)" "machine_ok m'" "mainMemory m' = mainMemory m"
      "m' = m\<lparr>pageTable := Some (pt[j := (pt ! j)\<lparr>te_use := True, dirty := w \<or> dirty (pt ! j)\<rparr>])\<rparr>"
      "Machine_Translate pid va sz w m = Inr (m', Inr (j * 128 + unat va mod 128))"
proof (cases "aligned va sz")
  case False
  then show ?thesis using misaligned Translate_misaligned [OF sz] by blast
next
  case al: True
  obtain pt where pt: "pageTable m = Some pt" and tab: "table_ok pt (MemoryMap m)"
    using ok by (auto simp: machine_ok_def)
  show ?thesis
  proof (cases "\<exists>j. entry_for pt pid (va div 128) j")
    case False
    then show ?thesis using miss [OF al pt] Translate_miss [OF ok pt _ al] by blast
  next
    case True
    then obtain j where e: "entry_for pt pid (va div 128) j" by blast
    show ?thesis
    proof (cases "readOnly (pt ! j) \<and> w")
      case True
      then show ?thesis using denied [OF al pt e] Translate_readonly [OF ok pt e al] by auto
    next
      case False
      let ?m = "m\<lparr>pageTable := Some (pt[j := (pt ! j)\<lparr>te_use := True, dirty := w \<or> dirty (pt ! j)\<rparr>])\<rparr>"
      have "machine_ok ?m"
        using ok tab e table_ok_flags by (auto simp: machine_ok_def entry_for_def)
      then show ?thesis using hit [OF al pt e False] Translate_hit [OF ok pt e al False] by simp
    qed
  qed
qed

subsection \<open>Memory\<close>

lemma mem_read_cong:
  assumes "sz \<in> {1, 2, 4}" "\<And>i. i < sz \<Longrightarrow> mem ! (pa + i) = mem' ! (pa + i)"
  shows "mem_read mem pa sz = mem_read mem' pa sz"
proof -
  have "mem ! pa = mem' ! pa" using assms(2) [of 0] assms(1) by auto
  moreover have "sz \<ge> 2 \<Longrightarrow> mem ! (pa + 1) = mem' ! (pa + 1)" using assms(2) [of 1] by simp
  moreover have "sz = 4 \<Longrightarrow> mem ! (pa + 2) = mem' ! (pa + 2) \<and> mem ! (pa + 3) = mem' ! (pa + 3)"
    using assms(2) [of 2] assms(2) [of 3] by simp
  ultimately show ?thesis using assms(1) by (auto simp: mem_read_def)
qed

text \<open>What a load of \<open>sz\<close> bytes returns after a store of \<open>v\<close>: sign extended for one byte.\<close>

definition stored_value :: "nat \<Rightarrow> 32 word \<Rightarrow> 32 word" where
  "stored_value sz v = (if sz = 1 then scast (ucast v :: 8 word) else if sz = 2 then ucast (ucast v :: 16 word) else v)"

lemma ucast_mask [simp]:
  "(ucast (v AND 0xff) :: 8 word) = ucast v" "(ucast (v AND 0xffff) :: 16 word) = ucast v" for v :: "32 word"
proof -
  have m: "(0xff :: 32 word) = mask 8" "(0xffff :: 32 word) = mask 16" by (simp_all add: mask_eq_exp_minus_1)
  show "(ucast (v AND 0xff) :: 8 word) = ucast v" "(ucast (v AND 0xffff) :: 16 word) = ucast v"
    unfolding m by (rule bit_word_eqI, simp add: bit_simps)+
qed

lemma mem_write_read:
  assumes "sz \<in> {1, 2, 4}" "pa + sz \<le> length mem"
  shows "\<exists>mem'. mem_write mem pa sz v = Inr mem' \<and> length mem' = length mem
     \<and> mem_read mem' pa sz = Inr (stored_value sz v)
     \<and> (\<forall>i<length mem. \<not> (pa \<le> i \<and> i < pa + sz) \<longrightarrow> mem' ! i = mem ! i)"
proof -
  consider "sz = 1" | "sz = 2" | "sz = 4" using assms(1) by blast
  then show ?thesis
  proof cases
    case 1
    then show ?thesis using assms(2)
      by (auto simp: mem_write_def mem_read_def stored_value_def nth_put_bytes)
  next
    case 2
    then show ?thesis using assms(2)
      by (auto simp: mem_write_def mem_read_def stored_value_def nth_put_bytes ShortToMachine_def
          ShortToHost_def bytes2_def)
  next
    case 4: 3
    then show ?thesis using assms(2)
      by (auto simp: mem_write_def mem_read_def stored_value_def nth_put_bytes WordToMachine_def
          WordToHost_def bytes4_def)
  qed
qed

lemma ReadMem_hit:
  assumes "machine_ok m" "sz \<in> {1, 2, 4}" "Machine_Translate pid va sz False m = Inr (m', Inr pa)"
  shows "\<exists>v. mem_read (mainMemory m) pa sz = Inr v \<and> Machine_ReadMem h pid va sz m = Inr (m', Some v)"
proof -
  have "mainMemory m' = mainMemory m"
    using assms by (cases rule: Translate_cases [of m sz va pid False]) auto
  moreover obtain v where "mem_read (mainMemory m) pa sz = Inr v"
    using assms(2) by (auto simp: mem_read_def)
  ultimately show ?thesis using assms(3) by (auto simp: Machine_ReadMem_def translate_retry_def)
qed

lemma WriteMem_hit:
  assumes "machine_ok m" "sz \<in> {1, 2, 4}" "Machine_Translate pid va sz True m = Inr (m', Inr pa)"
  shows "\<exists>mem. mem_write (mainMemory m) pa sz v = Inr mem
     \<and> Machine_WriteMem h pid va sz v m = Inr (m'\<lparr>mainMemory := mem\<rparr>, True)"
proof -
  have "mainMemory m' = mainMemory m"
    using assms by (cases rule: Translate_cases [of m sz va pid True]) auto
  moreover obtain mem where "mem_write (mainMemory m) pa sz v = Inr mem"
    using assms(2) by (auto simp: mem_write_def)
  ultimately show ?thesis using assms(3) by (auto simp: Machine_WriteMem_def translate_retry_def)
qed

text \<open>A write changes no translation: the entries it touches keep everything but the two flags.\<close>

lemma entry_for_flags:
  "table_ok pt mm \<Longrightarrow> entry_for (pt[k := (pt ! k)\<lparr>te_use := u, dirty := d\<rparr>]) pid vpn j \<longleftrightarrow> entry_for pt pid vpn j"
  by (cases "j = k") (auto simp: entry_for_def table_ok_def)

lemma Translate_after_write:
  assumes ok: "machine_ok m" and sz: "sz \<in> {1, 2, 4}" "sz' \<in> {1, 2, 4}"
    and w: "Machine_Translate pid va sz True m = Inr (m1, Inr pa)"
    and r: "Machine_Translate pid' va' sz' False m = Inr (m2, Inr pa')"
    and mem: "length mem = MemorySize"
  shows "machine_ok (m1\<lparr>mainMemory := mem\<rparr>)
     \<and> (\<exists>m3. Machine_Translate pid' va' sz' False (m1\<lparr>mainMemory := mem\<rparr>) = Inr (m3, Inr pa'))"
proof -
  obtain pt j where j: "pageTable m = Some pt" "entry_for pt pid (va div 128) j" "machine_ok m1"
    "m1 = m\<lparr>pageTable := Some (pt[j := (pt ! j)\<lparr>te_use := True, dirty := True \<or> dirty (pt ! j)\<rparr>])\<rparr>"
    using ok sz(1) w by (cases rule: Translate_cases [of m sz va pid True]) auto
  obtain pt' j' where j': "pageTable m = Some pt'" "entry_for pt' pid' (va' div 128) j'" "aligned va' sz'"
    "pa' = j' * 128 + unat va' mod 128"
    using ok sz(2) r by (cases rule: Translate_cases [of m sz' va' pid' False]) auto
  have tab: "table_ok pt (MemoryMap m)" using ok j(1) by (auto simp: machine_ok_def)
  let ?m = "m1\<lparr>mainMemory := mem\<rparr>"
  have ok': "machine_ok ?m" using j(3) mem by (auto simp: machine_ok_def)
  have "pageTable ?m = Some (pt[j := (pt ! j)\<lparr>te_use := True, dirty := True \<or> dirty (pt ! j)\<rparr>])"
    using j(4) by simp
  moreover have "entry_for (pt[j := (pt ! j)\<lparr>te_use := True, dirty := True \<or> dirty (pt ! j)\<rparr>]) pid' (va' div 128) j'"
    using j' j(1) entry_for_flags [OF tab] by simp
  ultimately show ?thesis using ok' j' Translate_hit by auto
qed

lemma machine_ok_initial:
  "\<exists>m. Machine_Machine False junk garbage debug = Inr m \<and> machine_ok m \<and> registers m = (\<lambda>_. 0)"
proof -
  obtain mm where mm: "BitMap_BitMap garbage 32 = Inr mm" "bitmap_ok mm" "numBits mm = 32" "bits_of mm = {}"
    using BitMap_BitMap_ok [of 32 garbage] by auto
  have ce: "CheckEndian = Inr ()" by (simp add: CheckEndian_def word4_def)
  show ?thesis
    using mm by (simp add: Machine_Machine_def ce machine_ok_def table_ok_def initial_entry_def)
qed

subsection \<open>Properties\<close>

text \<open>
  A machine with two frames in use: thread 0 has virtual page 0 in frame 0 and thread 1 has its
  virtual page 0 in frame 1.
\<close>

definition example_table :: "TranslationEntry list" where
  "example_table = (map initial_entry [0..<NumPhysPages])
     [0 := (initial_entry 0)\<lparr>virtualPage := 0, te_valid := True, te_thread := 0\<rparr>,
      1 := (initial_entry 1)\<lparr>virtualPage := 0, te_valid := True, te_thread := 1\<rparr>]"

definition example_machine :: machine where
  "example_machine = \<lparr>mainMemory = replicate MemorySize 0, registers = (\<lambda>_. 0), tlb = None,
     pageTable = Some example_table, queuePointer = 0, tlbflag = [0, 1, 2, 3], findtimes = 0,
     misstimes = 0, MemoryMap = \<lparr>numBits = 32, numWords = 1, bm_map = [3]\<rparr>, MapPointer = 0,
     singleStep = False, mode = UserMode\<rparr>"

lemma example_machine_ok: "machine_ok example_machine"
proof -
  have nth: "example_table ! i = (if i = 0 then (initial_entry 0)\<lparr>virtualPage := 0, te_valid := True, te_thread := 0\<rparr>
      else if i = 1 then (initial_entry 1)\<lparr>virtualPage := 0, te_valid := True, te_thread := 1\<rparr>
      else initial_entry i)" if "i < 32" for i
    using that by (auto simp: example_table_def nth_list_update simp del: upt_rec_numeral)
  have "table_ok example_table \<lparr>numBits = 32, numWords = 1, bm_map = [3]\<rparr>"
    unfolding table_ok_def
    by (auto simp: nth initial_entry_def bitmap_ok_def divRoundUp_def bits_of_def bm_bit_def bit_numeral_rec
        split: if_splits) (simp_all add: example_table_def)
  then show ?thesis by (simp add: machine_ok_def example_machine_def)
qed



text \<open>
  Two translations that reach the same physical address come from the same thread and the same
  virtual address: distinct threads never share memory.
\<close>

theorem Translate_injective:
  assumes "machine_ok m" "sz1 \<in> {1, 2, 4}" "sz2 \<in> {1, 2, 4}"
    and "Machine_Translate pid1 va1 sz1 w1 m = Inr (m1, Inr pa)"
    and "Machine_Translate pid2 va2 sz2 w2 m = Inr (m2, Inr pa)"
  shows "pid1 = pid2 \<and> va1 = va2"
proof -
  obtain pt j1 where 1: "pageTable m = Some pt" "entry_for pt pid1 (va1 div 128) j1" "pa = j1 * 128 + unat va1 mod 128"
    using assms(1,2,4) by (cases rule: Translate_cases [of m sz1 va1 pid1 w1]) auto
  obtain pt' j2 where 2: "pageTable m = Some pt'" "entry_for pt' pid2 (va2 div 128) j2" "pa = j2 * 128 + unat va2 mod 128"
    using assms(1,3,5) by (cases rule: Translate_cases [of m sz2 va2 pid2 w2]) auto
  have "pa div 128 = j1" "pa mod 128 = unat va1 mod 128" using 1(3) by simp_all
  moreover have "pa div 128 = j2" "pa mod 128 = unat va2 mod 128" using 2(3) by simp_all
  ultimately have j: "j1 = j2" and o: "unat va1 mod 128 = unat va2 mod 128" by simp_all
  then have pid: "pid1 = pid2" and "va1 div 128 = va2 div 128" using 1(1,2) 2(1,2) by (auto simp: entry_for_def)
  then have "unat va1 div 128 = unat va2 div 128"
    using unat_div [of va1 128] unat_div [of va2 128] by simp
  with o have "unat va1 = unat va2" by (metis div_mult_mod_eq)
  with pid show ?thesis by (simp add: word_unat_eq_iff)
qed

lemma example_translate:
  "\<exists>m'. Machine_Translate 0 8 4 True example_machine = Inr (m', Inr 8)"
  "\<exists>m'. Machine_Translate 1 4 4 False example_machine = Inr (m', Inr 132)"
proof -
  have pt: "pageTable example_machine = Some example_table" by (simp add: example_machine_def)
  have "entry_for example_table 0 (8 div 128) 0" "entry_for example_table 1 (4 div 128) 1"
    "\<not> readOnly (example_table ! 0)" "\<not> readOnly (example_table ! 1)"
    by (simp_all add: entry_for_def example_table_def initial_entry_def)
  then show "\<exists>m'. Machine_Translate 0 8 4 True example_machine = Inr (m', Inr 8)"
    "\<exists>m'. Machine_Translate 1 4 4 False example_machine = Inr (m', Inr 132)"
    using Translate_hit [OF example_machine_ok pt, of 0 8 0 4 True]
      Translate_hit [OF example_machine_ok pt, of 1 4 1 4 False]
    by (simp_all add: aligned_def)
qed

theorem Translate_injective_witness:
  "machine_ok example_machine \<and> (\<exists>m'. Machine_Translate 0 8 4 True example_machine = Inr (m', Inr 8))
   \<and> \<not> (\<exists>m'. Machine_Translate 1 8 4 True example_machine = Inr (m', Inr 8))"
  using example_machine_ok example_translate(1)
    Translate_injective [OF example_machine_ok, of 4 4 0 8 True _ 8 1 8 True] by fastforce

text \<open>
  (C18) Memory keeps what is written: a store that translates is followed by a load of the same
  address that returns the stored bytes, and every other byte of physical memory is unchanged.
\<close>

theorem WriteMem_ReadMem:
  assumes "machine_ok m" "sz \<in> {1, 2, 4}" "Machine_Translate pid va sz True m = Inr (m1, Inr pa)"
  shows "\<exists>m2 m3. Machine_WriteMem h pid va sz v m = Inr (m2, True) \<and> machine_ok m2
     \<and> Machine_ReadMem h pid va sz m2 = Inr (m3, Some (stored_value sz v))
     \<and> (\<forall>i<MemorySize. \<not> (pa \<le> i \<and> i < pa + sz) \<longrightarrow> mainMemory m2 ! i = mainMemory m ! i)"
proof -
  have len: "length (mainMemory m) = MemorySize" using assms(1) by (simp add: machine_ok_def)
  obtain pt j where j: "pageTable m = Some pt" "entry_for pt pid (va div 128) j" "aligned va sz"
    "pa = j * 128 + unat va mod 128"
    using assms by (cases rule: Translate_cases [of m sz va pid True]) auto
  then have r: "\<exists>m'. Machine_Translate pid va sz False m = Inr (m', Inr pa)"
    using Translate_hit [OF assms(1)] by simp
  have b: "pa + sz \<le> length (mainMemory m)" using j aligned_offset [OF j(3)] len by (auto simp: entry_for_def)
  obtain mem where mem: "mem_write (mainMemory m) pa sz v = Inr mem" "length mem = MemorySize"
      "mem_read mem pa sz = Inr (stored_value sz v)"
      "\<forall>i<MemorySize. \<not> (pa \<le> i \<and> i < pa + sz) \<longrightarrow> mem ! i = mainMemory m ! i"
    using mem_write_read [OF assms(2) b, of v] len by auto
  let ?m2 = "m1\<lparr>mainMemory := mem\<rparr>"
  have w: "Machine_WriteMem h pid va sz v m = Inr (?m2, True)" using WriteMem_hit [OF assms, where v = v and h = h] mem(1) by auto
  obtain m3 where m3: "machine_ok ?m2" "Machine_Translate pid va sz False ?m2 = Inr (m3, Inr pa)"
    using Translate_after_write [OF assms(1,2,2,3) _ mem(2)] r by blast
  then have "Machine_ReadMem h pid va sz ?m2 = Inr (m3, Some (stored_value sz v))"
    using ReadMem_hit [OF m3(1) assms(2) m3(2), of h] mem(3) by auto
  with w m3 mem(4) show ?thesis by auto
qed

theorem WriteMem_ReadMem_witness:
  "\<exists>m2 m3. Machine_WriteMem (\<lambda>_ _. Inl Halted) 0 8 4 0xdeadbeef example_machine = Inr (m2, True)
     \<and> Machine_ReadMem (\<lambda>_ _. Inl Halted) 0 8 4 m2 = Inr (m3, Some 0xdeadbeef)"
proof -
  obtain m' where "Machine_Translate 0 8 4 True example_machine = Inr (m', Inr 8)"
    using example_translate(1) by blast
  then show ?thesis
    using WriteMem_ReadMem [OF example_machine_ok, of 4 0 8 m' 8 "\<lambda>_ _. Inl Halted" "0xdeadbeef"]
    by (auto simp: stored_value_def)
qed

text \<open>
  (C19) Isolation: a store by one thread does not change what another thread loads, at any address
  and of any size.
\<close>

theorem WriteMem_isolation:
  assumes "machine_ok m" "sz \<in> {1, 2, 4}" "sz' \<in> {1, 2, 4}" "pid \<noteq> pid'"
    and "Machine_Translate pid va sz True m = Inr (m1, Inr pa)"
    and "Machine_Translate pid' va' sz' False m = Inr (m2, Inr pa')"
  shows "\<exists>m3 m4 v'. Machine_WriteMem h pid va sz v m = Inr (m3, True)
     \<and> Machine_ReadMem h pid' va' sz' m = Inr (m2, Some v')
     \<and> Machine_ReadMem h pid' va' sz' m3 = Inr (m4, Some v')"
proof -
  have len: "length (mainMemory m) = MemorySize" using assms(1) by (simp add: machine_ok_def)
  obtain pt j where j: "pageTable m = Some pt" "entry_for pt pid (va div 128) j" "aligned va sz"
    "pa = j * 128 + unat va mod 128"
    using assms(1,2,5) by (cases rule: Translate_cases [of m sz va pid True]) auto
  obtain pt' j' where j': "pageTable m = Some pt'" "entry_for pt' pid' (va' div 128) j'" "aligned va' sz'"
    "pa' = j' * 128 + unat va' mod 128"
    using assms(1,3,6) by (cases rule: Translate_cases [of m sz' va' pid' False]) auto
  have ne: "j \<noteq> j'" using j j' assms(4) by (auto simp: entry_for_def)
  have o: "unat va mod 128 + sz \<le> 128" "unat va' mod 128 + sz' \<le> 128"
    using aligned_offset j(3) j'(3) by auto
  have b: "pa + sz \<le> length (mainMemory m)" "pa' + sz' \<le> length (mainMemory m)"
    using j j' o len by (auto simp: entry_for_def)
  obtain mem where mem: "mem_write (mainMemory m) pa sz v = Inr mem" "length mem = MemorySize"
      "\<forall>i<MemorySize. \<not> (pa \<le> i \<and> i < pa + sz) \<longrightarrow> mem ! i = mainMemory m ! i"
    using mem_write_read [OF assms(2) b(1), of v] len by auto
  have disjoint: "\<not> (pa \<le> pa' + i \<and> pa' + i < pa + sz)" if "i < sz'" for i
    using that o ne unfolding j(4) j'(4) by (cases "j < j'") auto
  have same: "mem_read mem pa' sz' = mem_read (mainMemory m) pa' sz'"
    using mem(3) disjoint b(2) len by (intro mem_read_cong [OF assms(3)]) auto
  let ?m = "m1\<lparr>mainMemory := mem\<rparr>"
  have w: "Machine_WriteMem h pid va sz v m = Inr (?m, True)"
    using WriteMem_hit [OF assms(1,2,5), where v = v and h = h] mem(1) by auto
  obtain m4 where m4: "machine_ok ?m" "Machine_Translate pid' va' sz' False ?m = Inr (m4, Inr pa')"
    using Translate_after_write [OF assms(1-3,5,6) mem(2)] by blast
  show ?thesis
    using w ReadMem_hit [OF assms(1,3,6), of h] ReadMem_hit [OF m4(1) assms(3) m4(2), of h] same by auto
qed

theorem WriteMem_isolation_witness:
  "\<exists>m3 m2 m4 v'. Machine_WriteMem (\<lambda>_ _. Inl Halted) 0 8 4 0xdeadbeef example_machine = Inr (m3, True)
     \<and> Machine_ReadMem (\<lambda>_ _. Inl Halted) 1 4 4 example_machine = Inr (m2, Some v')
     \<and> Machine_ReadMem (\<lambda>_ _. Inl Halted) 1 4 4 m3 = Inr (m4, Some v')"
proof -
  obtain m1 m2 where "Machine_Translate 0 8 4 True example_machine = Inr (m1, Inr 8)"
    "Machine_Translate 1 4 4 False example_machine = Inr (m2, Inr 132)"
    using example_translate by blast
  then show ?thesis
    using WriteMem_isolation [OF example_machine_ok, of 4 4 0 1 8 m1 8 4 m2 132 "\<lambda>_ _. Inl Halted" "0xdeadbeef"]
    by auto
qed

text \<open>
  A machine built with \<^verbatim>\<open>USE_TLB\<close> has no page table, but \<^verbatim>\<open>Translate\<close> searches the page table
  in both configurations: every aligned access dereferences a null pointer.
\<close>

theorem Translate_tlb_build:
  assumes "Machine_Machine True junk garbage debug = Inr m" "aligned va sz"
  shows "Machine_Translate pid va sz writing m = Inl NullDeref"
  using assms alignment_check [of sz va]
  by (auto simp: Machine_Machine_def Machine_Translate_def aligned_def)

theorem Translate_tlb_build_witness:
  "\<exists>m. Machine_Machine True initial_entry (\<lambda>_. 0) False = Inr m \<and> aligned 0 4
     \<and> Machine_Translate 0 0 4 False m = Inl NullDeref"
proof -
  obtain mm where "BitMap_BitMap (\<lambda>_. 0) 32 = Inr mm" using BitMap_BitMap_ok [of 32 "\<lambda>_. 0"] by auto
  then obtain m where "Machine_Machine True initial_entry (\<lambda>_. 0) False = Inr m"
    by (simp add: Machine_Machine_def CheckEndian_def word4_def)
  then show ?thesis using Translate_tlb_build [of initial_entry "\<lambda>_. 0" False m 0 4] by (simp add: aligned_def)
qed

end
