(* ===== verification/Nachos_Opcodes.thy ===== *)
theory Nachos_Opcodes
  imports Main
begin

text \<open>
  The opcode names and the two decoding tables of \<^verbatim>\<open>machine/mipssim.h\<close>: \<^verbatim>\<open>opTable\<close> is indexed by
  the six opcode bits of an instruction, \<^verbatim>\<open>specialTable\<close> by its function field.
\<close>

subsection \<open>Opcodes and decoding tables\<close>

datatype opcode =
  OP_ADD | OP_ADDI | OP_ADDIU | OP_ADDU | OP_AND | OP_ANDI | OP_BEQ | OP_BGEZ | OP_BGEZAL | OP_BGTZ
| OP_BLEZ | OP_BLTZ | OP_BLTZAL | OP_BNE | OP_DIV | OP_DIVU | OP_J | OP_JAL | OP_JALR | OP_JR
| OP_LB | OP_LBU | OP_LH | OP_LHU | OP_LUI | OP_LW | OP_LWL | OP_LWR | OP_MFHI | OP_MFLO
| OP_MTHI | OP_MTLO | OP_MULT | OP_MULTU | OP_NOR | OP_OR | OP_ORI | OP_RFE | OP_SB | OP_SH
| OP_SLL | OP_SLLV | OP_SLT | OP_SLTI | OP_SLTIU | OP_SLTU | OP_SRA | OP_SRAV | OP_SRL | OP_SRLV
| OP_SUB | OP_SUBU | OP_SW | OP_SWL | OP_SWR | OP_XOR | OP_XORI | OP_SYSCALL | OP_UNIMP | OP_RES
| SPECIAL | BCOND

datatype instr_format = IFMT | JFMT | RFMT

definition opTable :: "(opcode \<times> instr_format) list" where
  "opTable = [
    (SPECIAL, RFMT), (BCOND, IFMT), (OP_J, JFMT), (OP_JAL, JFMT),
    (OP_BEQ, IFMT), (OP_BNE, IFMT), (OP_BLEZ, IFMT), (OP_BGTZ, IFMT),
    (OP_ADDI, IFMT), (OP_ADDIU, IFMT), (OP_SLTI, IFMT), (OP_SLTIU, IFMT),
    (OP_ANDI, IFMT), (OP_ORI, IFMT), (OP_XORI, IFMT), (OP_LUI, IFMT),
    (OP_UNIMP, IFMT), (OP_UNIMP, IFMT), (OP_UNIMP, IFMT), (OP_UNIMP, IFMT),
    (OP_RES, IFMT), (OP_RES, IFMT), (OP_RES, IFMT), (OP_RES, IFMT),
    (OP_RES, IFMT), (OP_RES, IFMT), (OP_RES, IFMT), (OP_RES, IFMT),
    (OP_RES, IFMT), (OP_RES, IFMT), (OP_RES, IFMT), (OP_RES, IFMT),
    (OP_LB, IFMT), (OP_LH, IFMT), (OP_LWL, IFMT), (OP_LW, IFMT),
    (OP_LBU, IFMT), (OP_LHU, IFMT), (OP_LWR, IFMT), (OP_RES, IFMT),
    (OP_SB, IFMT), (OP_SH, IFMT), (OP_SWL, IFMT), (OP_SW, IFMT),
    (OP_RES, IFMT), (OP_RES, IFMT), (OP_SWR, IFMT), (OP_RES, IFMT),
    (OP_UNIMP, IFMT), (OP_UNIMP, IFMT), (OP_UNIMP, IFMT), (OP_UNIMP, IFMT),
    (OP_RES, IFMT), (OP_RES, IFMT), (OP_RES, IFMT), (OP_RES, IFMT),
    (OP_UNIMP, IFMT), (OP_UNIMP, IFMT), (OP_UNIMP, IFMT), (OP_UNIMP, IFMT),
    (OP_RES, IFMT), (OP_RES, IFMT), (OP_RES, IFMT), (OP_RES, IFMT)]"

definition specialTable :: "opcode list" where
  "specialTable = [
    OP_SLL, OP_RES, OP_SRL, OP_SRA, OP_SLLV, OP_RES, OP_SRLV, OP_SRAV,
    OP_JR, OP_JALR, OP_RES, OP_RES, OP_SYSCALL, OP_UNIMP, OP_RES, OP_RES,
    OP_MFHI, OP_MTHI, OP_MFLO, OP_MTLO, OP_RES, OP_RES, OP_RES, OP_RES,
    OP_MULT, OP_MULTU, OP_DIV, OP_DIVU, OP_RES, OP_RES, OP_RES, OP_RES,
    OP_ADD, OP_ADDU, OP_SUB, OP_SUBU, OP_AND, OP_OR, OP_XOR, OP_NOR,
    OP_RES, OP_RES, OP_SLT, OP_SLTU, OP_RES, OP_RES, OP_RES, OP_RES,
    OP_RES, OP_RES, OP_RES, OP_RES, OP_RES, OP_RES, OP_RES, OP_RES,
    OP_RES, OP_RES, OP_RES, OP_RES, OP_RES, OP_RES, OP_RES, OP_RES]"

end
