(* ===== verification/Nachos_Mips.thy ===== *)
theory Nachos_Mips
  imports Nachos_Prelude Nachos_Opcodes Nachos_Machine
begin

text \<open>
  The MIPS R2000 interpreter of \<^verbatim>\<open>machine/mipssim.h\<close> and \<^verbatim>\<open>machine/mipssim.cc\<close>: the decoding
  tables, \<^verbatim>\<open>Instruction::Decode\<close>, the double-length multiplication \<^verbatim>\<open>Mult\<close>, and
  \<^verbatim>\<open>Machine::OneInstruction\<close> for every opcode, on 32-bit words.
\<close>

subsection \<open>Decoding\<close>

record Instruction =
  i_value :: "32 word"
  opCode :: opcode
  rs :: nat
  rt :: nat
  rd :: nat
  extra :: "32 word"

definition IndexToAddr :: "32 word \<Rightarrow> 32 word" where
  "IndexToAddr x = push_bit 2 x"

abbreviation (input) SIGN_BIT :: "32 word" where "SIGN_BIT \<equiv> 0x80000000"
abbreviation (input) R31 :: nat where "R31 \<equiv> 31"

definition bcond_op :: "32 word \<Rightarrow> opcode" where
  "bcond_op v =
     (let i = v AND 0x1f0000 in
      if i = 0 then OP_BLTZ
      else if i = 0x10000 then OP_BGEZ
      else if i = 0x100000 then OP_BLTZAL
      else if i = 0x110000 then OP_BGEZAL
      else OP_UNIMP)"

definition Instruction_Decode :: "32 word \<Rightarrow> Instruction" where
  "Instruction_Decode v =
     (let (op, format) = opTable ! unat (drop_bit 26 v AND 0x3f);
          ex = (case format of
                  IFMT \<Rightarrow> (let e = v AND 0xffff in if e AND 0x8000 \<noteq> 0 then e OR 0xffff0000 else e)
                | RFMT \<Rightarrow> drop_bit 6 v AND 0x1f
                | JFMT \<Rightarrow> v AND 0x3ffffff);
          op = (if op = SPECIAL then specialTable ! unat (v AND 0x3f)
                else if op = BCOND then bcond_op v
                else op)
      in \<lparr>i_value = v, opCode = op, rs = unat (drop_bit 21 v AND 0x1f), rt = unat (drop_bit 16 v AND 0x1f),
          rd = unat (drop_bit 11 v AND 0x1f), extra = ex\<rparr>)"

subsection \<open>Multiplication\<close>

text \<open>The loop counts down the iterations left; \<open>a >>= 1\<close> is an arithmetic shift of an \<^verbatim>\<open>int\<close>.\<close>

fun mult_loop ::
  "nat \<Rightarrow> 32 word \<Rightarrow> 32 word \<Rightarrow> 32 word \<Rightarrow> 32 word \<Rightarrow> 32 word \<Rightarrow> 32 word \<times> 32 word" where
  "mult_loop 0 a bHi bLo hi lo = (hi, lo)"
| "mult_loop (Suc n) a bHi bLo hi lo =
     (let odd_bit = (a AND 1 \<noteq> 0);
          lo' = (if odd_bit then lo + bLo else lo);
          hi' = (if odd_bit then (if lo' < bLo then hi + 1 else hi) + bHi else hi)
      in if odd_bit \<and> a AND 0xfffffffe = 0 then (hi', lo')
         else mult_loop n (signed_drop_bit 1 a)
                (let bHi = push_bit 1 bHi in if bLo AND 0x80000000 \<noteq> 0 then bHi OR 1 else bHi)
                (push_bit 1 bLo) hi' lo')"

definition Mult :: "32 word \<Rightarrow> 32 word \<Rightarrow> bool \<Rightarrow> 32 word \<times> 32 word" where
  "Mult a b signedArith =
     (if a = 0 \<or> b = 0 then (0, 0)
      else
        let negA = (signedArith \<and> sint a < 0); negB = (signedArith \<and> sint b < 0);
            negative = (negA \<noteq> negB);
            (hi, lo) = mult_loop 32 (if negA then - a else a) 0 (if negB then - b else b) 0 0
        in if negative
           then (let hi = NOT hi; lo = NOT lo + 1 in if lo = 0 then (hi + 1, lo) else (hi, lo))
           else (hi, lo))"

subsection \<open>One instruction\<close>

text \<open>
  The body of the \<^verbatim>\<open>switch\<close> either falls out of it, with the \<^verbatim>\<open>pcAfter\<close>, \<^verbatim>\<open>nextLoadReg\<close> and
  \<^verbatim>\<open>nextLoadValue\<close> it leaves (\<open>done\<close>, \<open>load\<close>), or returns from \<^verbatim>\<open>OneInstruction\<close> because an exception
  occurred (\<^const>\<open>None\<close>).
\<close>

type_synonym exec_out = "machine \<times> (32 word \<times> nat \<times> 32 word) option"

definition fall_out :: "32 word \<Rightarrow> machine \<Rightarrow> exec_out result" where
  "fall_out pcAfter m = Inr (m, Some (pcAfter, 0, 0))"

definition raise :: "handler \<Rightarrow> ExceptionType \<Rightarrow> 32 word \<Rightarrow> machine \<Rightarrow> exec_out result" where
  "raise h which bad m = rbind (Machine_RaiseException h which bad m) (\<lambda>m. Inr (m, None))"

definition with_mem ::
  "(machine \<times> 32 word option) result \<Rightarrow> (32 word \<Rightarrow> machine \<Rightarrow> exec_out result) \<Rightarrow> exec_out result" where
  "with_mem r f = rbind r (\<lambda>(m, v). case v of None \<Rightarrow> Inr (m, None) | Some value \<Rightarrow> f value m)"

definition after_store :: "(machine \<times> bool) result \<Rightarrow> 32 word \<Rightarrow> exec_out result" where
  "after_store r pcAfter = rbind r (\<lambda>(m, b). if b then fall_out pcAfter m else Inr (m, None))"

abbreviation (input) reg :: "machine \<Rightarrow> nat \<Rightarrow> 32 word" where "reg m r \<equiv> registers m r"
abbreviation (input) bool_word :: "bool \<Rightarrow> 32 word" where "bool_word b \<equiv> (if b then 1 else 0)"

text \<open>The partial-word merges of \<^verbatim>\<open>LWL\<close>, \<^verbatim>\<open>LWR\<close>, \<^verbatim>\<open>SWL\<close> and \<^verbatim>\<open>SWR\<close>, by \<open>tmp & 3\<close>.\<close>

definition lwl_merge :: "32 word \<Rightarrow> 32 word \<Rightarrow> 32 word \<Rightarrow> 32 word" where
  "lwl_merge k old val =
     (if k = 0 then val
      else if k = 1 then (old AND 0xff) OR push_bit 8 val
      else if k = 2 then (old AND 0xffff) OR push_bit 16 val
      else (old AND 0xffffff) OR push_bit 24 val)"

definition lwr_merge :: "32 word \<Rightarrow> 32 word \<Rightarrow> 32 word \<Rightarrow> 32 word" where
  "lwr_merge k old val =
     (if k = 0 then (old AND 0xffffff00) OR (signed_drop_bit 24 val AND 0xff)
      else if k = 1 then (old AND 0xffff0000) OR (signed_drop_bit 16 val AND 0xffff)
      else if k = 2 then (old AND 0xff000000) OR (signed_drop_bit 8 val AND 0xffffff)
      else val)"

definition swl_merge :: "32 word \<Rightarrow> 32 word \<Rightarrow> 32 word \<Rightarrow> 32 word" where
  "swl_merge k val r =
     (if k = 0 then r
      else if k = 1 then (val AND 0xff000000) OR (signed_drop_bit 8 r AND 0xffffff)
      else if k = 2 then (val AND 0xffff0000) OR (signed_drop_bit 16 r AND 0xffff)
      else (val AND 0xffffff00) OR (signed_drop_bit 24 r AND 0xff))"

definition swr_merge :: "32 word \<Rightarrow> 32 word \<Rightarrow> 32 word \<Rightarrow> 32 word" where
  "swr_merge k val r =
     (if k = 0 then (val AND 0xffffff) OR push_bit 24 r
      else if k = 1 then (val AND 0xffff) OR push_bit 16 r
      else if k = 2 then (val AND 0xff) OR push_bit 8 r
      else r)"

definition branch :: "Instruction \<Rightarrow> machine \<Rightarrow> bool \<Rightarrow> 32 word \<Rightarrow> exec_out result" where
  "branch i m taken pcAfter =
     fall_out (if taken then reg m NextPCReg + IndexToAddr (extra i) else pcAfter) m"

text \<open>Signed division of the host: the one quotient that does not fit traps.\<close>

definition exec_div :: "Instruction \<Rightarrow> 32 word \<Rightarrow> machine \<Rightarrow> exec_out result" where
  "exec_div i pcAfter m =
     (if reg m (rt i) = 0 then fall_out pcAfter (set_reg HiReg 0 (set_reg LoReg 0 m))
      else if reg m (rs i) = 0x80000000 \<and> reg m (rt i) = - 1 then Inl HostTrap
      else
        let m = set_reg LoReg (of_int (cdiv (sint (reg m (rs i))) (sint (reg m (rt i))))) m
        in fall_out pcAfter (set_reg HiReg (of_int (cmod (sint (reg m (rs i))) (sint (reg m (rt i))))) m))"

definition exec_divu :: "Instruction \<Rightarrow> 32 word \<Rightarrow> machine \<Rightarrow> exec_out result" where
  "exec_divu i pcAfter m =
     (let rsv = reg m (rs i); rtv = reg m (rt i) in
      if rtv = 0 then fall_out pcAfter (set_reg HiReg 0 (set_reg LoReg 0 m))
      else fall_out pcAfter (set_reg HiReg (rsv mod rtv) (set_reg LoReg (rsv div rtv) m)))"

definition exec_lb :: "handler \<Rightarrow> int \<Rightarrow> bool \<Rightarrow> Instruction \<Rightarrow> 32 word \<Rightarrow> machine \<Rightarrow> exec_out result" where
  "exec_lb h pid signd i pcAfter m =
     with_mem (Machine_ReadMem h pid (reg m (rs i) + extra i) 1 m) (\<lambda>val m.
       Inr (m, Some (pcAfter, rt i,
         if val AND 0x80 \<noteq> 0 \<and> signd then val OR 0xffffff00 else val AND 0xff)))"

definition exec_lh :: "handler \<Rightarrow> int \<Rightarrow> bool \<Rightarrow> Instruction \<Rightarrow> 32 word \<Rightarrow> machine \<Rightarrow> exec_out result" where
  "exec_lh h pid signd i pcAfter m =
     (let tmp = reg m (rs i) + extra i in
      if tmp AND 1 \<noteq> 0 then raise h AddressErrorException tmp m
      else with_mem (Machine_ReadMem h pid tmp 2 m) (\<lambda>val m.
        Inr (m, Some (pcAfter, rt i,
          if val AND 0x8000 \<noteq> 0 \<and> signd then val OR 0xffff0000 else val AND 0xffff))))"

definition exec_lw :: "handler \<Rightarrow> int \<Rightarrow> Instruction \<Rightarrow> 32 word \<Rightarrow> machine \<Rightarrow> exec_out result" where
  "exec_lw h pid i pcAfter m =
     (let tmp = reg m (rs i) + extra i in
      if tmp AND 3 \<noteq> 0 then raise h AddressErrorException tmp m
      else with_mem (Machine_ReadMem h pid tmp 4 m) (\<lambda>val m. Inr (m, Some (pcAfter, rt i, val))))"

definition exec_lwx ::
  "(32 word \<Rightarrow> 32 word \<Rightarrow> 32 word \<Rightarrow> 32 word) \<Rightarrow> handler \<Rightarrow> int \<Rightarrow> Instruction \<Rightarrow> 32 word \<Rightarrow> machine \<Rightarrow> exec_out result" where
  "exec_lwx merge h pid i pcAfter m =
     (let tmp = reg m (rs i) + extra i in
      ASSERT (tmp AND 3 = 0)
        (with_mem (Machine_ReadMem h pid tmp 4 m) (\<lambda>val m.
           let old = (if reg m LoadReg = of_nat (rt i) then reg m LoadValueReg else reg m (rt i))
           in Inr (m, Some (pcAfter, rt i, merge (tmp AND 3) old val)))))"

definition exec_swx ::
  "(32 word \<Rightarrow> 32 word \<Rightarrow> 32 word \<Rightarrow> 32 word) \<Rightarrow> handler \<Rightarrow> int \<Rightarrow> Instruction \<Rightarrow> 32 word \<Rightarrow> machine \<Rightarrow> exec_out result" where
  "exec_swx merge h pid i pcAfter m =
     (let tmp = reg m (rs i) + extra i in
      ASSERT (tmp AND 3 = 0)
        (with_mem (Machine_ReadMem h pid (tmp AND NOT 3) 4 m) (\<lambda>val m.
           after_store (Machine_WriteMem h pid (tmp AND NOT 3) 4 (merge (tmp AND 3) val (reg m (rt i))) m) pcAfter)))"

definition exec_store :: "handler \<Rightarrow> int \<Rightarrow> nat \<Rightarrow> Instruction \<Rightarrow> 32 word \<Rightarrow> machine \<Rightarrow> exec_out result" where
  "exec_store h pid sz i pcAfter m =
     after_store (Machine_WriteMem h pid (reg m (rs i) + extra i) sz (reg m (rt i)) m) pcAfter"

definition add_overflows :: "32 word \<Rightarrow> 32 word \<Rightarrow> bool" where
  "add_overflows a b \<longleftrightarrow> (a XOR b) AND SIGN_BIT = 0 \<and> (a XOR (a + b)) AND SIGN_BIT \<noteq> 0"

definition sub_overflows :: "32 word \<Rightarrow> 32 word \<Rightarrow> bool" where
  "sub_overflows a b \<longleftrightarrow> (a XOR b) AND SIGN_BIT \<noteq> 0 \<and> (a XOR (a - b)) AND SIGN_BIT \<noteq> 0"

text \<open>The \<^verbatim>\<open>switch\<close> of \<^verbatim>\<open>OneInstruction\<close>, one equation per case; \<open>pc\<close> is \<^verbatim>\<open>pcAfter\<close>.\<close>

fun exec_op :: "handler \<Rightarrow> int \<Rightarrow> opcode \<Rightarrow> Instruction \<Rightarrow> 32 word \<Rightarrow> machine \<Rightarrow> exec_out result" where
  "exec_op h pid OP_ADD i pc m =
     (if add_overflows (reg m (rs i)) (reg m (rt i)) then raise h OverflowException 0 m else fall_out pc (set_reg (rd i) (reg m (rs i) + reg m (rt i)) m))"
| "exec_op h pid OP_ADDI i pc m =
     (if add_overflows (extra i) (reg m (rs i)) then raise h OverflowException 0 m else fall_out pc (set_reg (rt i) (reg m (rs i) + extra i) m))"
| "exec_op h pid OP_ADDIU i pc m =
     fall_out pc (set_reg (rt i) (reg m (rs i) + extra i) m)"
| "exec_op h pid OP_ADDU i pc m =
     fall_out pc (set_reg (rd i) (reg m (rs i) + reg m (rt i)) m)"
| "exec_op h pid OP_AND i pc m =
     fall_out pc (set_reg (rd i) (reg m (rs i) AND reg m (rt i)) m)"
| "exec_op h pid OP_ANDI i pc m =
     fall_out pc (set_reg (rt i) (reg m (rs i) AND (extra i AND 0xffff)) m)"
| "exec_op h pid OP_BEQ i pc m =
     branch i m (reg m (rs i) = reg m (rt i)) pc"
| "exec_op h pid OP_BGEZAL i pc m =
     (let m = set_reg R31 (reg m NextPCReg + 4) m in branch i m (reg m (rs i) AND SIGN_BIT = 0) pc)"
| "exec_op h pid OP_BGEZ i pc m =
     branch i m (reg m (rs i) AND SIGN_BIT = 0) pc"
| "exec_op h pid OP_BGTZ i pc m =
     branch i m (sint (reg m (rs i)) > 0) pc"
| "exec_op h pid OP_BLEZ i pc m =
     branch i m (sint (reg m (rs i)) \<le> 0) pc"
| "exec_op h pid OP_BLTZAL i pc m =
     (let m = set_reg R31 (reg m NextPCReg + 4) m in branch i m (reg m (rs i) AND SIGN_BIT \<noteq> 0) pc)"
| "exec_op h pid OP_BLTZ i pc m =
     branch i m (reg m (rs i) AND SIGN_BIT \<noteq> 0) pc"
| "exec_op h pid OP_BNE i pc m =
     branch i m (reg m (rs i) \<noteq> reg m (rt i)) pc"
| "exec_op h pid OP_DIV i pc m =
     exec_div i pc m"
| "exec_op h pid OP_DIVU i pc m =
     exec_divu i pc m"
| "exec_op h pid OP_JAL i pc m =
     fall_out ((pc AND 0xf0000000) OR IndexToAddr (extra i)) (set_reg R31 (reg m NextPCReg + 4) m)"
| "exec_op h pid OP_J i pc m =
     fall_out ((pc AND 0xf0000000) OR IndexToAddr (extra i)) m"
| "exec_op h pid OP_JALR i pc m =
     (let m = set_reg (rd i) (reg m NextPCReg + 4) m in fall_out (reg m (rs i)) m)"
| "exec_op h pid OP_JR i pc m =
     fall_out (reg m (rs i)) m"
| "exec_op h pid OP_LB i pc m =
     exec_lb h pid True i pc m"
| "exec_op h pid OP_LBU i pc m =
     exec_lb h pid False i pc m"
| "exec_op h pid OP_LH i pc m =
     exec_lh h pid True i pc m"
| "exec_op h pid OP_LHU i pc m =
     exec_lh h pid False i pc m"
| "exec_op h pid OP_LUI i pc m =
     fall_out pc (set_reg (rt i) (push_bit 16 (extra i)) m)"
| "exec_op h pid OP_LW i pc m =
     exec_lw h pid i pc m"
| "exec_op h pid OP_LWL i pc m =
     exec_lwx lwl_merge h pid i pc m"
| "exec_op h pid OP_LWR i pc m =
     exec_lwx lwr_merge h pid i pc m"
| "exec_op h pid OP_MFHI i pc m =
     fall_out pc (set_reg (rd i) (reg m HiReg) m)"
| "exec_op h pid OP_MFLO i pc m =
     fall_out pc (set_reg (rd i) (reg m LoReg) m)"
| "exec_op h pid OP_MTHI i pc m =
     fall_out pc (set_reg HiReg (reg m (rs i)) m)"
| "exec_op h pid OP_MTLO i pc m =
     fall_out pc (set_reg LoReg (reg m (rs i)) m)"
| "exec_op h pid OP_MULT i pc m =
     (let (hi, lo) = Mult (reg m (rs i)) (reg m (rt i)) True in fall_out pc (set_reg LoReg lo (set_reg HiReg hi m)))"
| "exec_op h pid OP_MULTU i pc m =
     (let (hi, lo) = Mult (reg m (rs i)) (reg m (rt i)) False in fall_out pc (set_reg LoReg lo (set_reg HiReg hi m)))"
| "exec_op h pid OP_NOR i pc m =
     fall_out pc (set_reg (rd i) (NOT (reg m (rs i) OR reg m (rt i))) m)"
| "exec_op h pid OP_OR i pc m =
     fall_out pc (set_reg (rd i) (reg m (rs i) OR reg m (rs i)) m)"
| "exec_op h pid OP_ORI i pc m =
     fall_out pc (set_reg (rt i) (reg m (rs i) OR (extra i AND 0xffff)) m)"
| "exec_op h pid OP_SB i pc m =
     exec_store h pid 1 i pc m"
| "exec_op h pid OP_SH i pc m =
     exec_store h pid 2 i pc m"
| "exec_op h pid OP_SLL i pc m =
     fall_out pc (set_reg (rd i) (push_bit (unat (extra i)) (reg m (rt i))) m)"
| "exec_op h pid OP_SLLV i pc m =
     fall_out pc (set_reg (rd i) (push_bit (unat (reg m (rs i) AND 0x1f)) (reg m (rt i))) m)"
| "exec_op h pid OP_SLT i pc m =
     fall_out pc (set_reg (rd i) (bool_word (sint (reg m (rs i)) < sint (reg m (rt i)))) m)"
| "exec_op h pid OP_SLTI i pc m =
     fall_out pc (set_reg (rt i) (bool_word (sint (reg m (rs i)) < sint (extra i))) m)"
| "exec_op h pid OP_SLTIU i pc m =
     fall_out pc (set_reg (rt i) (bool_word (reg m (rs i) < extra i)) m)"
| "exec_op h pid OP_SLTU i pc m =
     fall_out pc (set_reg (rd i) (bool_word (reg m (rs i) < reg m (rt i))) m)"
| "exec_op h pid OP_SRA i pc m =
     fall_out pc (set_reg (rd i) (signed_drop_bit (unat (extra i)) (reg m (rt i))) m)"
| "exec_op h pid OP_SRAV i pc m =
     fall_out pc (set_reg (rd i) (signed_drop_bit (unat (reg m (rs i) AND 0x1f)) (reg m (rt i))) m)"
| "exec_op h pid OP_SRL i pc m =
     fall_out pc (set_reg (rd i) (signed_drop_bit (unat (extra i)) (reg m (rt i))) m)"
| "exec_op h pid OP_SRLV i pc m =
     fall_out pc (set_reg (rd i) (signed_drop_bit (unat (reg m (rs i) AND 0x1f)) (reg m (rt i))) m)"
| "exec_op h pid OP_SUB i pc m =
     (if sub_overflows (reg m (rs i)) (reg m (rt i)) then raise h OverflowException 0 m else fall_out pc (set_reg (rd i) (reg m (rs i) - reg m (rt i)) m))"
| "exec_op h pid OP_SUBU i pc m =
     fall_out pc (set_reg (rd i) (reg m (rs i) - reg m (rt i)) m)"
| "exec_op h pid OP_SW i pc m =
     exec_store h pid 4 i pc m"
| "exec_op h pid OP_SWL i pc m =
     exec_swx swl_merge h pid i pc m"
| "exec_op h pid OP_SWR i pc m =
     exec_swx swr_merge h pid i pc m"
| "exec_op h pid OP_SYSCALL i pc m =
     raise h SyscallException 0 m"
| "exec_op h pid OP_XOR i pc m =
     fall_out pc (set_reg (rd i) (reg m (rs i) XOR reg m (rt i)) m)"
| "exec_op h pid OP_XORI i pc m =
     fall_out pc (set_reg (rt i) (reg m (rs i) XOR (extra i AND 0xffff)) m)"
| "exec_op h pid OP_RES i pc m =
     raise h IllegalInstrException 0 m"
| "exec_op h pid OP_UNIMP i pc m =
     raise h IllegalInstrException 0 m"
| "exec_op h pid OP_RFE i pc m = Inl AssertFail"
| "exec_op h pid SPECIAL i pc m = Inl AssertFail"
| "exec_op h pid BCOND i pc m = Inl AssertFail"

definition Machine_OneInstruction :: "handler \<Rightarrow> int \<Rightarrow> machine \<Rightarrow> machine result" where
  "Machine_OneInstruction h pid m =
     rbind (Machine_ReadMem h pid (reg m PCReg) 4 m) (\<lambda>(m, raw).
       case raw of
         None \<Rightarrow> Inr m
       | Some v \<Rightarrow>
           let instr = Instruction_Decode v in
           rbind (exec_op h pid (opCode instr) instr (reg m NextPCReg + 4) m) (\<lambda>(m, out).
             case out of
               None \<Rightarrow> Inr m
             | Some (pcAfter, nextLoadReg, nextLoadValue) \<Rightarrow>
                 rbind (Machine_DelayedLoad nextLoadReg nextLoadValue m) (\<lambda>m.
                 let m = set_reg PrevPCReg (reg m PCReg) m;
                     m = set_reg PCReg (reg m NextPCReg) m
                 in Inr (set_reg NextPCReg pcAfter m))))"

subsection \<open>Multiplication is the double-length product\<close>

definition dval :: "32 word \<Rightarrow> 32 word \<Rightarrow> int" where
  "dval hi lo = uint hi * 2 ^ 32 + uint lo"

lemma dval_bounds: "0 \<le> dval hi lo" "dval hi lo < 2 ^ 64"
proof -
  have "uint hi \<le> 2 ^ 32 - 1" "uint lo \<le> 2 ^ 32 - 1" "0 \<le> uint hi" "0 \<le> uint lo"
    using uint_lt2p [of hi] uint_lt2p [of lo] by simp_all
  then show "0 \<le> dval hi lo" "dval hi lo < 2 ^ 64" by (simp_all add: dval_def)
qed

lemma carry_out: "uint lo + uint b = uint (lo + b) + (if lo + b < b then 2 ^ 32 else 0)" for lo b :: "32 word"
  using uint_lt2p [of lo] uint_lt2p [of b]
  by (simp add: uint_plus_if' word_less_alt)

lemma hi_cong: "uint (x :: 32 word) = y mod 2 ^ 32 \<Longrightarrow> (uint x * 2 ^ 32) mod 2 ^ 64 = (y * 2 ^ 32) mod (2 ^ 64 :: int)"
  using mod_mult_mult2 [of y "2 ^ 32" "2 ^ 32 :: int"] by simp

lemma dval_add:
  "dval ((if lo + b < b then hi + 1 else hi) + bh) (lo + b) mod 2 ^ 64 = (dval hi lo + dval bh b) mod 2 ^ 64"
proof -
  let ?c = "(if lo + b < b then 1 else 0) :: int"
  let ?h = "(if lo + b < b then hi + 1 else hi) + bh"
  have "uint ?h = (uint hi + ?c + uint bh) mod 2 ^ 32"
    by (simp add: uint_word_ariths mod_simps add_ac)
  from hi_cong [OF this] have h: "(uint ?h * 2 ^ 32) mod 2 ^ 64 = ((uint hi + ?c + uint bh) * 2 ^ 32) mod 2 ^ 64" .
  have "dval ?h (lo + b) mod 2 ^ 64 = ((uint ?h * 2 ^ 32) mod 2 ^ 64 + uint (lo + b)) mod 2 ^ 64"
    unfolding dval_def by (simp only: mod_simps)
  also have "\<dots> = ((uint hi + ?c + uint bh) * 2 ^ 32 + uint (lo + b)) mod 2 ^ 64"
    unfolding h by (simp only: mod_simps)
  also have "(uint hi + ?c + uint bh) * 2 ^ 32 + uint (lo + b) = dval hi lo + dval bh b"
    using carry_out [of lo b] by (simp add: dval_def algebra_simps split: if_splits)
  finally show ?thesis .
qed

lemma top_bit_iff: "b AND 0x80000000 \<noteq> 0 \<longleftrightarrow> 2 ^ 31 \<le> uint b" for b :: "32 word"
proof -
  have p: "(0x80000000 :: 32 word) = 2 ^ 31" by simp
  have "b AND 0x80000000 \<noteq> 0 \<longleftrightarrow> bit b 31"
    unfolding p by (simp only: and_exp_eq_0_iff_not_bit not_not)
  also have "\<dots> \<longleftrightarrow> bit (uint b) 31" by (simp add: bit_uint_iff)
  also have "\<dots> \<longleftrightarrow> odd (uint b div 2 ^ 31)" by (rule bit_iff_odd)
  also have "\<dots> \<longleftrightarrow> 2 ^ 31 \<le> uint b"
  proof -
    have "uint b div 2 ^ 31 < 2" using uint_lt2p [of b] by (simp add: div_less_iff_less_mult)
    moreover have "0 \<le> uint b div 2 ^ 31" by (simp add: pos_imp_zdiv_nonneg_iff)
    ultimately consider "uint b div 2 ^ 31 = 0" | "uint b div 2 ^ 31 = 1" by linarith
    moreover have "uint b = uint b div 2 ^ 31 * 2 ^ 31 + uint b mod 2 ^ 31"
      "0 \<le> uint b mod 2 ^ 31" "uint b mod 2 ^ 31 < 2 ^ 31" by simp_all
    ultimately show ?thesis by cases simp_all
  qed
  finally show ?thesis .
qed

lemma dval_double:
  "dval (let h = push_bit 1 bh in if b AND 0x80000000 \<noteq> 0 then h OR 1 else h) (push_bit 1 b) mod 2 ^ 64 =
   (2 * dval bh b) mod 2 ^ 64"
proof -
  let ?c = "(if b AND 0x80000000 \<noteq> 0 then 1 else 0) :: int"
  let ?h = "let h = push_bit 1 bh in if b AND 0x80000000 \<noteq> 0 then h OR 1 else h"
  have "push_bit 1 bh AND 1 = 0" by (simp add: and_one_eq even_iff_mod_2_eq_zero [symmetric])
  then have "push_bit 1 bh OR 1 = 2 * bh + 1"
    using disjunctive_add_eq_or [of "push_bit 1 bh" 1] by (simp add: push_bit_eq_mult mult.commute)
  then have "?h = 2 * bh + of_int ?c" by (simp add: Let_def push_bit_eq_mult mult.commute)
  then have "uint ?h = (2 * uint bh + ?c) mod 2 ^ 32" by (simp add: uint_word_ariths mod_simps)
  from hi_cong [OF this] have h: "(uint ?h * 2 ^ 32) mod 2 ^ 64 = ((2 * uint bh + ?c) * 2 ^ 32) mod 2 ^ 64" .
  have l: "uint (push_bit 1 b) = 2 * uint b - ?c * 2 ^ 32"
  proof -
    have "uint (push_bit 1 b) = (2 * uint b) mod 2 ^ 32" by (simp add: push_bit_eq_mult uint_word_ariths mult.commute)
    also have "\<dots> = (2 * uint b - ?c * 2 ^ 32) mod 2 ^ 32" by simp
    also have "\<dots> = 2 * uint b - ?c * 2 ^ 32"
      using uint_lt2p [of b] top_bit_iff [of b] by (intro mod_pos_pos_trivial) auto
    finally show ?thesis .
  qed
  have "dval ?h (push_bit 1 b) mod 2 ^ 64 = ((uint ?h * 2 ^ 32) mod 2 ^ 64 + uint (push_bit 1 b)) mod 2 ^ 64"
    unfolding dval_def by (simp only: mod_simps)
  also have "\<dots> = ((2 * uint bh + ?c) * 2 ^ 32 + uint (push_bit 1 b)) mod 2 ^ 64"
    unfolding h by (simp only: mod_simps)
  also have "(2 * uint bh + ?c) * 2 ^ 32 + uint (push_bit 1 b) = 2 * dval bh b"
    unfolding l by (simp add: dval_def algebra_simps)
  finally show ?thesis .
qed

lemma take_bit_arith_shift:
  "n \<le> 31 \<Longrightarrow> take_bit n (uint (signed_drop_bit 1 a)) = take_bit n (uint a div 2)" for a :: "32 word"
proof (rule bit_eqI)
  fix k
  assume n: "n \<le> 31"
  have "bit (uint a div 2) k = bit (uint a) (Suc k)" by (simp add: bit_Suc)
  with n show "bit (take_bit n (uint (signed_drop_bit 1 a))) k = bit (take_bit n (uint a div 2)) k"
    by (auto simp: bit_take_bit_iff bit_uint_iff bit_signed_drop_bit_iff)
qed

lemma low_bit: "a AND 1 \<noteq> 0 \<longleftrightarrow> uint a mod 2 = 1" for a :: "32 word"
  by (simp add: word_uint_eq_iff and_one_eq uint_mod)

lemma last_bit:
  fixes a :: "32 word"
  assumes "a AND 1 \<noteq> 0" "a AND 0xfffffffe = 0"
  shows "a = 1"
proof (rule bit_word_eqI)
  fix n
  assume "n < LENGTH(32)"
  have e: "(0xfffffffe :: 32 word) = NOT 1" by simp
  have "bit (a AND NOT 1) n = bit (0 :: 32 word) n" using assms(2) unfolding e by (simp only:)
  then have "bit a n \<Longrightarrow> n = 0" using \<open>n < LENGTH(32)\<close> by (simp add: bit_and_iff bit_not_iff bit_1_iff)
  moreover have "bit a 0" using assms(1) by (simp add: and_one_eq bit_0 odd_iff_mod_2_eq_one even_iff_mod_2_eq_zero)
  ultimately show "bit a n = bit 1 n" by (auto simp: bit_1_iff)
qed

lemma mult_loop_correct:
  "n \<le> 32 \<Longrightarrow> (case mult_loop n a bHi bLo hi lo of (hi', lo') \<Rightarrow> dval hi' lo') mod 2 ^ 64 =
     (dval hi lo + dval bHi bLo * take_bit n (uint a)) mod 2 ^ 64"
proof (induction n arbitrary: a bHi bLo hi lo)
  case 0
  then show ?case by simp
next
  case (Suc n)
  define o1 where "o1 = (a AND 1 \<noteq> 0)"
  define lo' where "lo' = (if o1 then lo + bLo else lo)"
  define hi' where "hi' = (if o1 then (if lo' < bLo then hi + 1 else hi) + bHi else hi)"
  define b where "b = dval bHi bLo"
  define r where "r = take_bit n (uint a div 2)"
  have tb: "take_bit (Suc n) (uint a) = (if o1 then 1 else 0) + 2 * r"
    using low_bit [of a] by (auto simp: take_bit_Suc o1_def r_def)
  have add: "dval hi' lo' mod 2 ^ 64 = (dval hi lo + (if o1 then b else 0)) mod 2 ^ 64"
    using dval_add [of lo bLo hi bHi] by (simp add: hi'_def lo'_def b_def)
  let ?bh = "let h = push_bit 1 bHi in if bLo AND 0x80000000 \<noteq> 0 then h OR 1 else h"
  have unf: "mult_loop (Suc n) a bHi bLo hi lo = (if o1 \<and> a AND 0xfffffffe = 0 then (hi', lo')
      else mult_loop n (signed_drop_bit 1 a) ?bh (push_bit 1 bLo) hi' lo')"
    by (simp only: mult_loop.simps Let_def o1_def lo'_def hi'_def)
  show ?case
  proof (cases "o1 \<and> a AND 0xfffffffe = 0")
    case True
    then have "a = 1" using last_bit by (simp add: o1_def)
    then have "r = 0" by (simp add: r_def)
    then show ?thesis using True add tb unfolding unf by (simp add: b_def)
  next
    case False
    have "(case mult_loop (Suc n) a bHi bLo hi lo of (hi', lo') \<Rightarrow> dval hi' lo') =
        (case mult_loop n (signed_drop_bit 1 a) ?bh (push_bit 1 bLo) hi' lo' of (hi', lo') \<Rightarrow> dval hi' lo')"
      unfolding unf using False by (simp only: if_False)
    also have "\<dots> mod 2 ^ 64 = (dval hi' lo' + dval ?bh (push_bit 1 bLo) * take_bit n (uint (signed_drop_bit 1 a))) mod 2 ^ 64"
      using Suc.prems by (intro Suc.IH) simp
    also have "take_bit n (uint (signed_drop_bit 1 a)) = r"
      unfolding r_def using Suc.prems by (intro take_bit_arith_shift) simp
    also have "(dval hi' lo' + dval ?bh (push_bit 1 bLo) * r) mod 2 ^ 64 =
        ((dval hi lo + (if o1 then b else 0)) + 2 * b * r) mod 2 ^ 64"
      unfolding b_def by (intro mod_add_cong mod_mult_cong add [unfolded b_def] dval_double refl)
    also have "(dval hi lo + (if o1 then b else 0)) + 2 * b * r = dval hi lo + b * take_bit (Suc n) (uint a)"
      unfolding tb by (simp add: algebra_simps)
    finally show ?thesis by (simp only: b_def)
  qed
qed

lemma len32: "(2 :: int) ^ LENGTH(32) = 2 ^ 32"
  by simp

lemma dval_negate:
  assumes "dval hi lo mod 2 ^ 64 = P mod 2 ^ 64"
  shows "(case (let hi = NOT hi; lo = NOT lo + 1 in if lo = 0 then (hi + 1, lo) else (hi, lo)) of
            (hi', lo') \<Rightarrow> dval hi' lo') mod 2 ^ 64 = (- P) mod 2 ^ 64"
proof -
  have n: "NOT lo + 1 = - lo" "NOT hi + 1 = - hi" by (simp_all add: not_eq_complement)
  have "(case (let hi = NOT hi; lo = NOT lo + 1 in if lo = 0 then (hi + 1, lo) else (hi, lo)) of
            (hi', lo') \<Rightarrow> dval hi' lo') mod 2 ^ 64 = (- dval hi lo) mod 2 ^ 64"
  proof (cases "lo = 0")
    case True
    have "uint (- hi) = (- uint hi) mod 2 ^ 32" by (simp add: uint_word_ariths)
    from hi_cong [OF this] True show ?thesis by (simp add: Let_def n dval_def)
  next
    case False
    have l: "uint (- lo) = 2 ^ 32 - uint lo"
      using False uint_lt2p [of lo] word_uint_eq_iff [of lo 0]
      by (simp add: uint_word_ariths zmod_zminus1_eq_if)
    have h: "uint (NOT hi) = 2 ^ 32 - 1 - uint hi"
    proof -
      have e: "NOT hi = word_of_int (2 ^ 32 - 1 - uint hi)" by (simp add: not_eq_complement)
      show ?thesis
        unfolding e uint_word_of_int_eq
      proof (rule take_bit_int_eq_self)
        show "0 \<le> 2 ^ 32 - 1 - uint hi" using uint_lt2p [of hi] by simp
        show "2 ^ 32 - 1 - uint hi < 2 ^ LENGTH(32)" using uint_ge_0 [of hi] unfolding len32 by linarith
      qed
    qed
    have "dval (NOT hi) (- lo) = 2 ^ 64 - dval hi lo" unfolding dval_def l h by (simp add: algebra_simps)
    moreover have "(2 ^ 64 - dval hi lo) mod 2 ^ 64 = (- dval hi lo) mod 2 ^ 64" by (simp add: mod_diff_left_eq [symmetric])
    ultimately show ?thesis using False by (simp add: Let_def n)
  qed
  also have "\<dots> = (- P) mod 2 ^ 64" using assms by (metis mod_minus_eq)
  finally show ?thesis .
qed

lemma sint_cases: "sint x = (if 2 ^ 31 \<le> uint x then uint x - 2 ^ 32 else uint x)" for x :: "32 word"
proof -
  have "bit (uint x) 31 \<longleftrightarrow> 2 ^ 31 \<le> uint x"
    using top_bit_iff [of x] and_exp_eq_0_iff_not_bit [of x 31] by (simp add: bit_uint_iff)
  moreover have "take_bit 32 (uint x) = uint x"
    using uint_lt2p [of x] by (simp add: take_bit_int_eq_self)
  ultimately show ?thesis
    using sint_uint [of x] signed_take_bit_eq_take_bit_minus [of 31 "uint x"] by simp
qed

lemma uint_abs_sint: "uint (if sint x < 0 then - x else x) = \<bar>sint x\<bar>" for x :: "32 word"
proof (cases "2 ^ 31 \<le> uint x")
  case True
  have "uint (- x) = (2 ^ 32 - uint x) mod 2 ^ 32" by (simp add: uint_word_ariths)
  also have "\<dots> = 2 ^ 32 - uint x" using True by (intro mod_pos_pos_trivial) (use uint_lt2p [of x] in auto)
  finally show ?thesis using True uint_lt2p [of x] sint_cases [of x] by simp
next
  case False
  then show ?thesis using sint_cases [of x] by simp
qed

lemma Mult_dval:
  "(case Mult a b sgnd of (hi, lo) \<Rightarrow> dval hi lo) =
   (if sgnd then sint a * sint b else uint a * uint b) mod 2 ^ 64"
proof -
  have loop: "(case mult_loop 32 x 0 y 0 0 of (hi, lo) \<Rightarrow> dval hi lo) mod 2 ^ 64 = (uint x * uint y) mod 2 ^ 64" for x y
    using mult_loop_correct [of 32 x 0 y 0 0] take_bit_int_eq_self [of "uint x" 32] uint_lt2p [of x]
    by (simp add: dval_def mult.commute)
  have range: "(case p of (hi, lo) \<Rightarrow> dval hi lo) mod 2 ^ 64 = (case p of (hi, lo) \<Rightarrow> dval hi lo)" for p
    using dval_bounds by (simp add: mod_pos_pos_trivial split: prod.splits)
  show ?thesis
  proof (cases "a = 0 \<or> b = 0")
    case True
    then show ?thesis by (auto simp: Mult_def dval_def)
  next
    case False
    let ?A = "if sgnd \<and> sint a < 0 then - a else a" and ?B = "if sgnd \<and> sint b < 0 then - b else b"
    let ?neg = "(sgnd \<and> sint a < 0) \<noteq> (sgnd \<and> sint b < 0)"
    obtain hi lo where hl: "mult_loop 32 ?A 0 ?B 0 0 = (hi, lo)" by force
    have P: "dval hi lo mod 2 ^ 64 = (uint ?A * uint ?B) mod 2 ^ 64" using loop [of ?A ?B] hl by simp
    have val: "(if ?neg then - (uint ?A * uint ?B) else uint ?A * uint ?B) =
        (if sgnd then sint a * sint b else uint a * uint b)"
      using uint_abs_sint [of a] uint_abs_sint [of b] by (auto split: if_splits)
    have M: "Mult a b sgnd = (if ?neg
        then (let hi = NOT hi; lo = NOT lo + 1 in if lo = 0 then (hi + 1, lo) else (hi, lo)) else (hi, lo))"
      using False hl by (simp only: Mult_def Let_def if_False prod.case)
    have "(case Mult a b sgnd of (hi, lo) \<Rightarrow> dval hi lo) mod 2 ^ 64 =
        (if ?neg then - (uint ?A * uint ?B) else uint ?A * uint ?B) mod 2 ^ 64"
      unfolding M using dval_negate [OF P] P by (cases ?neg) (simp_all only: simp_thms if_True if_False prod.case)
    then show ?thesis unfolding val range .
  qed
qed

subsection \<open>Overflow tests and decoding\<close>

lemma sign_xor: "(a XOR b) AND 0x80000000 \<noteq> 0 \<longleftrightarrow> (2 ^ 31 \<le> uint a) \<noteq> (2 ^ 31 \<le> uint b)"
  for a b :: "32 word"
proof -
  have p: "(0x80000000 :: 32 word) = 2 ^ 31" by simp
  have t: "bit x 31 \<longleftrightarrow> 2 ^ 31 \<le> uint x" for x :: "32 word"
    using top_bit_iff [of x] unfolding p by (simp only: and_exp_eq_0_iff_not_bit not_not)
  have "(a XOR b) AND 2 ^ 31 \<noteq> 0 \<longleftrightarrow> bit (a XOR b) 31" by (simp only: and_exp_eq_0_iff_not_bit not_not)
  also have "\<dots> \<longleftrightarrow> bit a 31 \<noteq> bit b 31" by (simp only: bit_xor_iff)
  finally show ?thesis unfolding p t .
qed

lemma add_overflows_iff:
  "add_overflows a b \<longleftrightarrow> sint a + sint b < - (2 ^ 31) \<or> 2 ^ 31 \<le> sint a + sint b"
proof -
  have "add_overflows a b \<longleftrightarrow> (2 ^ 31 \<le> uint a) = (2 ^ 31 \<le> uint b) \<and> (2 ^ 31 \<le> uint a) \<noteq> (2 ^ 31 \<le> uint (a + b))"
    unfolding add_overflows_def using sign_xor [of a b] sign_xor [of a "a + b"] by blast
  then show ?thesis
    using uint_lt2p [of a] uint_lt2p [of b] uint_ge_0 [of a] uint_ge_0 [of b] sint_cases [of a] sint_cases [of b]
    by (auto simp: uint_plus_if') (use uint_ge_0 [of a] uint_ge_0 [of b] in linarith)+
qed

lemma sub_overflows_iff:
  "sub_overflows a b \<longleftrightarrow> sint a - sint b < - (2 ^ 31) \<or> 2 ^ 31 \<le> sint a - sint b"
proof -
  have "sub_overflows a b \<longleftrightarrow> (2 ^ 31 \<le> uint a) \<noteq> (2 ^ 31 \<le> uint b) \<and> (2 ^ 31 \<le> uint a) \<noteq> (2 ^ 31 \<le> uint (a - b))"
    unfolding sub_overflows_def using sign_xor [of a b] sign_xor [of a "a - b"] by blast
  then show ?thesis
    using uint_lt2p [of a] uint_lt2p [of b] uint_ge_0 [of a] uint_ge_0 [of b] sint_cases [of a] sint_cases [of b]
    by (auto simp: uint_sub_if') (use uint_ge_0 [of a] uint_ge_0 [of b] in linarith)+
qed

lemma field_bound: "unat (w AND 0x1f) < 32" "unat (w AND 0x3f) < 64" for w :: "32 word"
proof -
  have "w AND 0x1f = w mod 32" "w AND 0x3f = w mod 64"
    using take_bit_eq_mask [of 5 w] take_bit_eq_mask [of 6 w]
    by (simp_all add: mask_eq_exp_minus_1 take_bit_eq_mod)
  then show "unat (w AND 0x1f) < 32" "unat (w AND 0x3f) < 64" by (simp_all add: unat_mod)
qed

lemma opTable_ops: "k < 64 \<Longrightarrow> fst (opTable ! k) \<noteq> OP_RFE"
proof -
  assume "k < 64"
  then have "opTable ! k \<in> set opTable" by (intro nth_mem) (simp add: opTable_def)
  moreover have "list_all (\<lambda>p. fst p \<noteq> OP_RFE) opTable" by (simp add: opTable_def)
  ultimately show ?thesis by (auto simp: list_all_iff)
qed

lemma specialTable_ops: "k < 64 \<Longrightarrow> specialTable ! k \<notin> {OP_RFE, SPECIAL, BCOND}"
proof -
  assume "k < 64"
  then have "specialTable ! k \<in> set specialTable" by (intro nth_mem) (simp add: specialTable_def)
  moreover have "list_all (\<lambda>p. p \<notin> {OP_RFE, SPECIAL, BCOND}) specialTable" by (simp add: specialTable_def)
  ultimately show ?thesis by (auto simp: list_all_iff)
qed

lemma Decode_fields:
  "rs (Instruction_Decode v) < 32" "rt (Instruction_Decode v) < 32" "rd (Instruction_Decode v) < 32"
  using field_bound by (simp_all add: Instruction_Decode_def Let_def split: prod.splits)

lemma Decode_opCode: "opCode (Instruction_Decode v) \<notin> {OP_RFE, SPECIAL, BCOND}"
proof -
  obtain op fmt where o: "opTable ! unat (drop_bit 26 v AND 0x3f) = (op, fmt)" by force
  then have "op \<noteq> OP_RFE" using opTable_ops [OF field_bound(2), of "drop_bit 26 v"] by simp
  moreover have "specialTable ! unat (v AND 0x3f) \<notin> {OP_RFE, SPECIAL, BCOND}"
    by (rule specialTable_ops [OF field_bound(2)])
  moreover have "bcond_op v \<notin> {OP_RFE, SPECIAL, BCOND}" by (simp add: bcond_op_def Let_def)
  ultimately show ?thesis using o by (auto simp: Instruction_Decode_def Let_def)
qed

end
