(* ===== verification/Nachos_Cpu.thy ===== *)
theory Nachos_Cpu
  imports Nachos_Prelude Nachos_Machine Nachos_Mips
begin

text \<open>
  Properties of the interpreter of \<^verbatim>\<open>machine/mipssim.cc\<close>: the invariant every instruction keeps
  whatever the program does, what an instruction can fail with, how the program counters and the
  delayed load advance, and the arithmetic of the instructions.  The kernel's exception handler is
  an interface: a locale states what the interpreter relies on.
\<close>

subsection \<open>The invariant of the simulated processor\<close>

text \<open>
  Register 0 reads as zero and the pending load targets a general register.  \<open>half_ok\<close> is what
  holds in the middle of an instruction, when register 0 may have been assigned.
\<close>

definition half_ok :: "machine \<Rightarrow> bool" where
  "half_ok m \<longleftrightarrow> machine_ok m \<and> registers m LoadReg < 32"

definition sim_ok :: "machine \<Rightarrow> bool" where
  "sim_ok m \<longleftrightarrow> half_ok m \<and> registers m 0 = 0"

definition exec_post :: "exec_out \<Rightarrow> bool" where
  "exec_post = (\<lambda>(m, out). half_ok m \<and> (case out of None \<Rightarrow> sim_ok m | Some (pc, r, v) \<Rightarrow> r < 32))"

lemma sim_ok_half [dest]: "sim_ok m \<Longrightarrow> half_ok m"
  by (simp add: sim_ok_def)

lemma exec_post_simps [simp]:
  "exec_post (m, None) = sim_ok m" "exec_post (m, Some (pc, r, v)) = (half_ok m \<and> r < 32)"
  by (auto simp: exec_post_def)

lemma machine_ok_set_reg [simp]: "machine_ok (set_reg r v m) = machine_ok m"
  by (simp add: machine_ok_def set_reg_def)

lemma registers_set_reg [simp]: "registers (set_reg r v m) = (registers m)(r := v)"
  by (simp add: set_reg_def)

lemma half_ok_set_reg [simp]: "r \<noteq> LoadReg \<Longrightarrow> half_ok (set_reg r v m) = half_ok m"
  by (simp add: half_ok_def)

lemma half_ok_setStatus [simp]: "half_ok (setStatus st m) = half_ok m"
  by (simp add: half_ok_def setStatus_def machine_ok_def)

lemma sim_ok_setStatus [simp]: "sim_ok (setStatus st m) = sim_ok m"
  by (simp add: sim_ok_def) (simp add: setStatus_def)

lemma of_nat_reg_less: "r < 32 \<Longrightarrow> (of_nat r :: 32 word) < 32"
  by (simp add: word_less_nat_alt unat_of_nat)

lemma DelayedLoad_ok:
  assumes "half_ok m" "r < 32"
  shows "\<exists>m'. Machine_DelayedLoad r v m = Inr m' \<and> sim_ok m'"
proof -
  have "unat (registers m LoadReg) < 32" "registers m LoadReg < 40"
    using assms(1) by (auto simp: half_ok_def word_less_nat_alt)
  then show ?thesis
    using assms of_nat_reg_less [OF assms(2)]
    by (auto simp: Machine_DelayedLoad_def Let_def sim_ok_def half_ok_def)
qed

text \<open>What the hardware guarantees when it traps: a page fault names a page that is not mapped.\<close>

definition trap_pre :: "int \<Rightarrow> ExceptionType \<Rightarrow> 32 word \<Rightarrow> machine \<Rightarrow> bool" where
  "trap_pre pid e bad m \<longleftrightarrow>
     (e = PageFaultException \<longrightarrow> (\<forall>pt j. pageTable m = Some pt \<longrightarrow> \<not> entry_for pt pid (bad div 128) j))"

lemma DelayedLoad_keeps:
  assumes "half_ok m" "Machine_DelayedLoad r v m = Inr m'"
  shows "pageTable m' = pageTable m" "registers m' BadVAddrReg = registers m BadVAddrReg"
    "mainMemory m' = mainMemory m" "MemoryMap m' = MemoryMap m"
proof -
  have "unat (registers m LoadReg) < 32" using assms(1) by (auto simp: half_ok_def word_less_nat_alt)
  then show "pageTable m' = pageTable m" "registers m' BadVAddrReg = registers m BadVAddrReg"
    "mainMemory m' = mainMemory m" "MemoryMap m' = MemoryMap m"
    using assms(2) by (auto simp: Machine_DelayedLoad_def Let_def set_reg_def split: if_splits)
qed

locale exception_handler =
  fixes h :: handler and E :: "nachos_error set" and pid :: int
  assumes handler_post: "sim_ok m \<Longrightarrow> trap_pre pid e (registers m BadVAddrReg) m \<Longrightarrow> rpost E sim_ok (h e m)"
begin

lemma RaiseException_post:
  assumes "half_ok m" "trap_pre pid e b m"
  shows "rpost E sim_ok (Machine_RaiseException h e b m)"
proof -
  have half: "half_ok (set_reg BadVAddrReg b m)" using assms(1) by simp
  then obtain m1 where m1: "Machine_DelayedLoad 0 0 (set_reg BadVAddrReg b m) = Inr m1" "sim_ok m1"
    using DelayedLoad_ok [of "set_reg BadVAddrReg b m" 0 0] by auto
  have "trap_pre pid e (registers (setStatus SystemMode m1) BadVAddrReg) (setStatus SystemMode m1)"
    using DelayedLoad_keeps [OF half m1(1)] assms(2)
    by (simp add: trap_pre_def setStatus_def set_reg_def)
  then have h: "rpost E sim_ok (h e (setStatus SystemMode m1))"
    using handler_post [of "setStatus SystemMode m1" e] m1(2) by simp
  show ?thesis
    unfolding Machine_RaiseException_def Let_def m1(1) rbind.simps
    by (rule rpost_rbind [OF h]) simp
qed

lemma Translate_half:
  assumes "half_ok m" "sz \<in> {1, 2, 4}"
  shows "\<exists>m' r. Machine_Translate pid va sz w m = Inr (m', r) \<and> half_ok m' \<and> registers m' = registers m
     \<and> (\<forall>e. r = Inl e \<longrightarrow> trap_pre pid e va m')
     \<and> (\<forall>pa. r = Inr pa \<longrightarrow> pa + sz \<le> MemorySize)"
proof -
  have ok: "machine_ok m" using assms(1) by (simp add: half_ok_def)
  show ?thesis
    using ok assms(2)
  proof (cases rule: Translate_cases [of m sz va pid w])
    case (hit pt j m')
    then have "j * 128 + unat va mod 128 + sz \<le> 4096"
      using aligned_offset [OF hit(1)] by (auto simp: entry_for_def)
    with hit assms(1) show ?thesis by (auto simp: half_ok_def)
  qed (use assms(1) in \<open>auto simp: trap_pre_def\<close>)
qed

lemma translate_retry_post:
  assumes "half_ok m" "sz \<in> {1, 2, 4}"
  shows "rpost E (\<lambda>(m', r). half_ok m' \<and> (case r of None \<Rightarrow> sim_ok m' | Some pa \<Rightarrow> pa + sz \<le> MemorySize))
     (translate_retry h pid va sz w m)"
proof -
  obtain m1 r1 where 1: "Machine_Translate pid va sz w m = Inr (m1, r1)" "half_ok m1"
    "\<forall>e. r1 = Inl e \<longrightarrow> trap_pre pid e va m1" "\<forall>pa. r1 = Inr pa \<longrightarrow> pa + sz \<le> MemorySize"
    using Translate_half [OF assms] by blast
  show ?thesis
  proof (cases r1)
    case (Inr pa)
    with 1 show ?thesis by (simp add: translate_retry_def)
  next
    case (Inl e)
    have "rpost E (\<lambda>(m', r). half_ok m' \<and> (case r of None \<Rightarrow> sim_ok m' | Some pa \<Rightarrow> pa + sz \<le> MemorySize))
       (rbind (Machine_RaiseException h e va m1) (\<lambda>m. rbind (Machine_Translate pid va sz w m) (\<lambda>(m, r).
             case r of Inr physicalAddress \<Rightarrow> Inr (m, Some physicalAddress) | Inl e \<Rightarrow> Inr (m, None))))"
    proof (rule rpost_rbind [OF RaiseException_post [OF 1(2)]])
      show "trap_pre pid e va m1" using 1(3) Inl by blast
    next
      fix m2 assume "sim_ok m2"
      then obtain m3 r3 where "Machine_Translate pid va sz w m2 = Inr (m3, r3)" "half_ok m3"
        "registers m3 = registers m2" "\<forall>pa. r3 = Inr pa \<longrightarrow> pa + sz \<le> MemorySize" "registers m2 0 = 0"
        using Translate_half [OF sim_ok_half assms(2), of m2] by (metis sim_ok_def)
      then show "rpost E (\<lambda>(m', r). half_ok m' \<and> (case r of None \<Rightarrow> sim_ok m' | Some pa \<Rightarrow> pa + sz \<le> MemorySize))
         (rbind (Machine_Translate pid va sz w m2) (\<lambda>(m, r).
             case r of Inr physicalAddress \<Rightarrow> Inr (m, Some physicalAddress) | Inl e \<Rightarrow> Inr (m, None)))"
        by (cases r3) (auto simp: sim_ok_def)
    qed
    with 1 Inl show ?thesis by (simp add: translate_retry_def)
  qed
qed

lemma ReadMem_post:
  assumes "half_ok m" "sz \<in> {1, 2, 4}"
  shows "rpost E (\<lambda>(m', v). half_ok m' \<and> (v = None \<longrightarrow> sim_ok m')) (Machine_ReadMem h pid va sz m)"
  unfolding Machine_ReadMem_def
  by (rule rpost_rbind [OF translate_retry_post [OF assms]])
    (use assms(2) in \<open>auto simp: mem_read_def split: option.splits\<close>)

lemma WriteMem_post:
  assumes "half_ok m" "sz \<in> {1, 2, 4}"
  shows "rpost E (\<lambda>(m', b). half_ok m' \<and> (\<not> b \<longrightarrow> sim_ok m')) (Machine_WriteMem h pid va sz v m)"
  unfolding Machine_WriteMem_def
proof (rule rpost_rbind [OF translate_retry_post [OF assms]], clarify)
  fix m' :: machine and r
  assume m': "half_ok m'" "case r of None \<Rightarrow> sim_ok m' | Some pa \<Rightarrow> pa + sz \<le> MemorySize"
  show "rpost E (\<lambda>(m', b). half_ok m' \<and> (\<not> b \<longrightarrow> sim_ok m'))
     (case r of None \<Rightarrow> Inr (m', False) | Some pa \<Rightarrow>
        rbind (mem_write (mainMemory m') pa sz v) (\<lambda>mem. Inr (m'\<lparr>mainMemory := mem\<rparr>, True)))"
  proof (cases r)
    case (Some pa)
    have "length (mainMemory m') = MemorySize" using m'(1) by (simp add: half_ok_def machine_ok_def)
    then obtain mem where "mem_write (mainMemory m') pa sz v = Inr mem" "length mem = MemorySize"
      using mem_write_read [OF assms(2), of pa "mainMemory m'" v] m'(2) Some by auto
    then show ?thesis using m'(1) Some by (auto simp: half_ok_def machine_ok_def)
  qed (use m' in auto)
qed

lemma fall_out_post [simp]: "rpost F exec_post (fall_out pc m) = half_ok m"
  by (simp add: fall_out_def)

lemma raise_post: "half_ok m \<Longrightarrow> E \<subseteq> F \<Longrightarrow> e \<noteq> PageFaultException \<Longrightarrow> rpost F exec_post (raise h e b m)"
  unfolding raise_def
  by (rule rpost_rbind [OF rpost_mono [OF RaiseException_post]]) (auto simp: trap_pre_def)

lemma with_mem_post:
  assumes "half_ok m" "sz \<in> {1, 2, 4}" "E \<subseteq> F" "\<And>v m'. half_ok m' \<Longrightarrow> rpost F exec_post (f v m')"
  shows "rpost F exec_post (with_mem (Machine_ReadMem h pid va sz m) f)"
  unfolding with_mem_def
  by (rule rpost_rbind [OF rpost_mono [OF ReadMem_post [OF assms(1,2)] assms(3)]])
    (use assms(4) in \<open>auto split: option.splits\<close>)

lemma after_store_post:
  assumes "half_ok m" "sz \<in> {1, 2, 4}" "E \<subseteq> F"
  shows "rpost F exec_post (after_store (Machine_WriteMem h pid va sz v m) pc)"
  unfolding after_store_def
  by (rule rpost_rbind [OF rpost_mono [OF WriteMem_post [OF assms(1,2)] assms(3)]])
    (auto simp: fall_out_def)

lemma exec_mem_post:
  assumes "half_ok m" "rt i < 32"
  defines "F \<equiv> insert AssertFail (insert HostTrap E)"
  shows "rpost F exec_post (exec_lb h pid sg i pc m)"
    and "rpost F exec_post (exec_lh h pid sg i pc m)"
    and "rpost F exec_post (exec_lw h pid i pc m)"
    and "rpost F exec_post (exec_lwx merge h pid i pc m)"
    and "rpost F exec_post (exec_swx merge h pid i pc m)"
    and "sz \<in> {1, 2, 4} \<Longrightarrow> rpost F exec_post (exec_store h pid sz i pc m)"
  using assms(1,2) unfolding F_def
  by (auto simp: exec_lb_def exec_lh_def exec_lw_def exec_lwx_def exec_swx_def exec_store_def Let_def
      intro!: with_mem_post raise_post after_store_post rpost_ASSERT)

lemma exec_op_post:
  assumes "half_ok m" "rs i < 32" "rt i < 32" "rd i < 32" "op \<notin> {OP_RFE, SPECIAL, BCOND}"
  shows "rpost (insert AssertFail (insert HostTrap E)) exec_post (exec_op h pid op i pc m)"
proof -
  note mem = exec_mem_post [OF assms(1,3)]
  have [simp]: "rd i \<noteq> 37" "rt i \<noteq> 37" using assms(3,4) by simp_all
  have r: "rpost (insert AssertFail (insert HostTrap E)) exec_post (raise h e b m)"
    if "e \<noteq> PageFaultException" for e b
    using that by (intro raise_post [OF assms(1)]) blast+
  show ?thesis
    using assms(1,5)
    by (cases op)
      (simp_all add: mem r branch_def exec_div_def exec_divu_def Let_def split: prod.splits)
qed

lemma OneInstruction_post:
  assumes "sim_ok m"
  shows "rpost (insert AssertFail (insert HostTrap E)) sim_ok (Machine_OneInstruction h pid m)"
  unfolding Machine_OneInstruction_def
proof (rule rpost_rbind [OF rpost_mono [OF ReadMem_post [OF sim_ok_half [OF assms]]]], simp, blast, assumption, clarify)
  fix m' :: machine and raw :: "32 word option"
  assume m': "half_ok m'" "raw = None \<longrightarrow> sim_ok m'"
  show "rpost (insert AssertFail (insert HostTrap E)) sim_ok
     (case raw of None \<Rightarrow> Inr m' | Some v \<Rightarrow>
        let instr = Instruction_Decode v in
        rbind (exec_op h pid (opCode instr) instr (registers m' NextPCReg + 4) m') (\<lambda>(m, out).
          case out of None \<Rightarrow> Inr m
          | Some (pcAfter, nextLoadReg, nextLoadValue) \<Rightarrow>
              rbind (Machine_DelayedLoad nextLoadReg nextLoadValue m) (\<lambda>m.
                let m = set_reg PrevPCReg (registers m PCReg) m; m = set_reg PCReg (registers m NextPCReg) m
                in Inr (set_reg NextPCReg pcAfter m))))"
  proof (cases raw)
    case None
    with m' show ?thesis by simp
  next
    case (Some v)
    let ?i = "Instruction_Decode v"
    have "rpost (insert AssertFail (insert HostTrap E)) exec_post
        (exec_op h pid (opCode ?i) ?i (registers m' NextPCReg + 4) m')"
      by (rule exec_op_post [OF m'(1) Decode_fields Decode_opCode])
    then show ?thesis
      unfolding Some option.case Let_def
    proof (rule rpost_rbind, clarify)
      fix m2 out assume p: "exec_post (m2, out)"
      show "rpost (insert AssertFail (insert HostTrap E)) sim_ok (case out of None \<Rightarrow> Inr m2
          | Some (pcAfter, nextLoadReg, nextLoadValue) \<Rightarrow>
              rbind (Machine_DelayedLoad nextLoadReg nextLoadValue m2) (\<lambda>m.
                Inr (set_reg NextPCReg pcAfter (set_reg PCReg (registers (set_reg PrevPCReg (registers m PCReg) m) NextPCReg)
                  (set_reg PrevPCReg (registers m PCReg) m)))))"
      proof (cases out)
        case (Some q)
        obtain pc r v where "q = (pc, r, v)" by (cases q) auto
        moreover obtain m3 where "Machine_DelayedLoad r v m2 = Inr m3" "sim_ok m3"
          using DelayedLoad_ok [of m2 r v] p Some calculation by auto
        ultimately show ?thesis using Some by (simp add: sim_ok_def)
      qed (use p in simp)
    qed
  qed
qed

end

lemma imm_sign_extend:
  "sint (if (v AND 0xffff) AND 0x8000 \<noteq> 0 then v AND 0xffff OR 0xffff0000 else v AND 0xffff) = sint (ucast v :: 16 word)"
  for v :: "32 word"
proof -
  have c: "(0xffff :: 32 word) = mask 16" "(0x8000 :: 32 word) = 2 ^ 15" "(0xffff0000 :: 32 word) = NOT (mask 16)"
    by (simp_all add: mask_eq_exp_minus_1)
  have t: "(v AND mask 16) AND 2 ^ 15 \<noteq> 0 \<longleftrightarrow> bit v 15"
    unfolding and_exp_eq_0_iff_not_bit by (simp add: bit_simps)
  have "(if bit v 15 then v AND mask 16 OR NOT (mask 16) else v AND mask 16) = (scast (ucast v :: 16 word) :: 32 word)"
  proof (rule bit_word_eqI)
    fix n
    assume "n < LENGTH(32)"
    then consider "n < 15" | "n = 15" | "15 < n" "n < 32" by fastforce
    then show "bit (if bit v 15 then v AND mask 16 OR NOT (mask 16) else v AND mask 16) n
        = bit (scast (ucast v :: 16 word) :: 32 word) n"
      by cases (auto simp: bit_simps min_def)
  qed
  then have "(if (v AND 0xffff) AND 0x8000 \<noteq> 0 then v AND 0xffff OR 0xffff0000 else v AND 0xffff)
      = (scast (ucast v :: 16 word) :: 32 word)"
    unfolding c t .
  then show ?thesis
    using sint_ge [of "ucast v :: 16 word"] sint_lt [of "ucast v :: 16 word"]
    by (simp add: signed_scast_eq signed_take_bit_int_eq_self)
qed

lemma jump_field_bound: "unat (v AND 0x3ffffff) < 2 ^ 26" for v :: "32 word"
proof -
  have "v AND 0x3ffffff = take_bit 26 v" by (simp add: take_bit_eq_mask mask_eq_exp_minus_1)
  then show ?thesis by (simp add: take_bit_eq_mod unat_mod)
qed

lemma if_cases3:
  "(c \<Longrightarrow> A) \<Longrightarrow> (\<not> c \<Longrightarrow> d \<Longrightarrow> B) \<Longrightarrow> (\<not> c \<Longrightarrow> \<not> d \<Longrightarrow> C) \<Longrightarrow> if c then A else if d then B else C"
  by simp

lemma signed_div_fits:
  fixes a b :: "32 word"
  assumes "sint b \<noteq> 0" "\<not> (sint a = - (2 ^ 31) \<and> sint b = - 1)"
  shows "sint (of_int (cdiv (sint a) (sint b)) :: 32 word) = cdiv (sint a) (sint b)"
    and "sint (of_int (cmod (sint a) (sint b)) :: 32 word) = cmod (sint a) (sint b)"
proof -
  have abs_a: "\<bar>sint a\<bar> \<le> 2 ^ 31" using sint_bounds [of a] by linarith
  consider "\<bar>sint b\<bar> \<ge> 2" | "sint b = 1" | "sint b = - 1" using assms(1) by linarith
  then have "fits32 (cdiv (sint a) (sint b))"
  proof cases
    case 1
    have "\<bar>sint a\<bar> div \<bar>sint b\<bar> \<le> \<bar>sint a\<bar> div 2" using 1 by (intro zdiv_mono2) auto
    moreover have "\<bar>sint a\<bar> div 2 \<le> 2 ^ 30" using zdiv_mono1 [OF abs_a, of 2] by simp
    ultimately have "\<bar>cdiv (sint a) (sint b)\<bar> < 2 ^ 31" using abs_cdiv [OF assms(1), of "sint a"] by simp
    then show ?thesis by (simp add: fits32_def abs_less_iff)
  next
    case 2
    then show ?thesis using sint_bounds [of a] by (simp add: fits32_def cdiv_def sgn_mult_abs)
  next
    case 3
    then have "cdiv (sint a) (sint b) = - sint a" by (simp add: cdiv_def sgn_mult_abs)
    then show ?thesis using sint_bounds [of a] assms(2) 3 by (simp add: fits32_def)
  qed
  then show "sint (of_int (cdiv (sint a) (sint b)) :: 32 word) = cdiv (sint a) (sint b)"
    by (rule sint_of_int)
  have "\<bar>sint b\<bar> \<le> 2 ^ 31" using sint_bounds [of b] by linarith
  then have "fits32 (cmod (sint a) (sint b))"
    using cmod_bound [OF assms(1), of "sint a"] unfolding fits32_def by linarith
  then show "sint (of_int (cmod (sint a) (sint b)) :: 32 word) = cmod (sint a) (sint b)"
    by (rule sint_of_int)
qed

subsection \<open>Properties\<close>

text \<open>
  (C10) \<^verbatim>\<open>Mult\<close> computes the exact double-length product: the pair (hi, lo), read as a 64-bit number,
  is the product modulo \<open>2 ^ 64\<close> of the operands read as signed or as unsigned integers.
\<close>

theorem Mult_product:
  "case Mult a b sgnd of (hi, lo) \<Rightarrow>
     uint hi * 2 ^ 32 + uint lo = (if sgnd then sint a * sint b else uint a * uint b) mod 2 ^ 64"
  using Mult_dval [of a b sgnd] by (cases "Mult a b sgnd") (simp add: dval_def)

text \<open>
  Signed addition and subtraction trap exactly on overflow: \<^verbatim>\<open>ADD\<close>, \<^verbatim>\<open>ADDI\<close> and \<^verbatim>\<open>SUB\<close> raise
  \<^verbatim>\<open>OverflowException\<close> when the mathematical result does not fit in 32 bits, and otherwise store a
  word whose signed value is that result.
\<close>

theorem overflow_exceptions:
  "exec_op h pid OP_ADD i pc m =
      (let z = sint (registers m (rs i)) + sint (registers m (rt i)) in
       if fits32 z then fall_out pc (set_reg (rd i) (of_int z) m) else raise h OverflowException 0 m)
   \<and> exec_op h pid OP_ADDI i pc m =
      (let z = sint (registers m (rs i)) + sint (extra i) in
       if fits32 z then fall_out pc (set_reg (rt i) (of_int z) m) else raise h OverflowException 0 m)
   \<and> exec_op h pid OP_SUB i pc m =
      (let z = sint (registers m (rs i)) - sint (registers m (rt i)) in
       if fits32 z then fall_out pc (set_reg (rd i) (of_int z) m) else raise h OverflowException 0 m)"
proof -
  have a: "add_overflows x y \<longleftrightarrow> \<not> fits32 (sint x + sint y)" "sub_overflows x y \<longleftrightarrow> \<not> fits32 (sint x - sint y)"
    for x y by (auto simp: add_overflows_iff sub_overflows_iff fits32_def)
  show ?thesis by (simp add: a add.commute Let_def)
qed

text \<open>
  (C39) Signed division: dividing by zero stores zeros; the quotient \<open>- 2 ^ 31 / - 1\<close>, which does not
  fit, traps on the host and takes the simulator down; every other division stores a quotient in
  LO and a remainder in HI with \<open>rs = LO * rt + HI\<close>, the remainder smaller than the divisor and
  of the dividend's sign.
\<close>

theorem DIV_spec:
  "let i = Instruction_Decode v; a = sint (registers m (rs i)); b = sint (registers m (rt i)) in
   if b = 0 then exec_op h pid OP_DIV i pc m = fall_out pc (set_reg HiReg 0 (set_reg LoReg 0 m))
   else if a = - (2 ^ 31) \<and> b = - 1 then exec_op h pid OP_DIV i pc m = Inl HostTrap
   else \<exists>q r. exec_op h pid OP_DIV i pc m = fall_out pc (set_reg HiReg r (set_reg LoReg q m))
        \<and> a = sint q * b + sint r \<and> \<bar>sint r\<bar> < \<bar>b\<bar> \<and> 0 \<le> sint r * a"
proof -
  define i where "i = Instruction_Decode v"
  define a where "a = registers m (rs i)"
  define b where "b = registers m (rt i)"
  have "rs i < 32" "rt i < 32" using Decode_fields [of v] by (simp_all add: i_def)
  then have ne: "rs i \<noteq> 33" "rt i \<noteq> 33" by simp_all
  have z: "b = 0 \<longleftrightarrow> sint b = 0" "a = 0x80000000 \<longleftrightarrow> sint a = - (2 ^ 31)" "b = - 1 \<longleftrightarrow> sint b = - 1"
    using word_eq_iff_signed [of b 0] word_eq_iff_signed [of a "0x80000000"] word_eq_iff_signed [of b "- 1"]
    by simp_all
  have D: "exec_op h pid OP_DIV i pc m = (if sint b = 0 then fall_out pc (set_reg HiReg 0 (set_reg LoReg 0 m))
     else if sint a = - (2 ^ 31) \<and> sint b = - 1 then Inl HostTrap
     else fall_out pc (set_reg HiReg (of_int (cmod (sint a) (sint b))) (set_reg LoReg (of_int (cdiv (sint a) (sint b))) m)))"
    using ne unfolding exec_op.simps exec_div_def a_def [symmetric] b_def [symmetric] z
    by (simp add: Let_def a_def b_def)
  have zero: "sint b = 0 \<Longrightarrow> exec_op h pid OP_DIV i pc m = fall_out pc (set_reg HiReg 0 (set_reg LoReg 0 m))"
    by (simp only: D simp_thms if_True)
  have trap: "sint b \<noteq> 0 \<Longrightarrow> sint a = - (2 ^ 31) \<and> sint b = - 1 \<Longrightarrow> exec_op h pid OP_DIV i pc m = Inl HostTrap"
    by (simp only: D simp_thms if_True if_False)
  have quot: "\<exists>q r. exec_op h pid OP_DIV i pc m = fall_out pc (set_reg HiReg r (set_reg LoReg q m))
        \<and> sint a = sint q * sint b + sint r \<and> \<bar>sint r\<bar> < \<bar>sint b\<bar> \<and> 0 \<le> sint r * sint a"
    if "sint b \<noteq> 0" "\<not> (sint a = - (2 ^ 31) \<and> sint b = - 1)"
  proof -
    let ?q = "of_int (cdiv (sint a) (sint b)) :: 32 word" and ?r = "of_int (cmod (sint a) (sint b)) :: 32 word"
    note f = signed_div_fits [OF that]
    have 1: "exec_op h pid OP_DIV i pc m = fall_out pc (set_reg HiReg ?r (set_reg LoReg ?q m))"
      using that by (simp only: D if_False)
    have 2: "sint a = sint ?q * sint b + sint ?r" unfolding f by (rule cdiv_cmod)
    have 3: "\<bar>sint ?r\<bar> < \<bar>sint b\<bar>" unfolding f by (rule cmod_bound [OF that(1)])
    have 4: "0 \<le> sint ?r * sint a" unfolding f by (rule cmod_sign)
    show ?thesis by (rule exI, rule exI, rule conjI [OF 1 conjI [OF 2 conjI [OF 3 4]]])
  qed
  show ?thesis
    unfolding Let_def i_def [symmetric] a_def [symmetric] b_def [symmetric]
    by (rule if_cases3 [OF zero trap quot])
qed

text \<open>
  (C40) Decoding is total: for every 32-bit word the register fields are below 32 and the opcode is
  one that \<^verbatim>\<open>OneInstruction\<close> executes, so its \<^verbatim>\<open>default: ASSERT(FALSE)\<close> is unreachable; immediates are
  sign extended.
\<close>

theorem Decode_total:
  "let i = Instruction_Decode v in
     rs i < 32 \<and> rt i < 32 \<and> rd i < 32 \<and> opCode i \<noteq> OP_RFE \<and> opCode i \<noteq> SPECIAL \<and> opCode i \<noteq> BCOND
     \<and> (if snd (opTable ! unat (drop_bit 26 v AND 0x3f)) = IFMT
        then sint (extra i) = sint (ucast v :: 16 word)
        else unat (extra i) < 2 ^ 26)"
proof -
  obtain op fmt where o: "opTable ! unat (drop_bit 26 v AND 0x3f) = (op, fmt)" by force
  have im: "sint (extra (Instruction_Decode v)) = sint (ucast v :: 16 word)" if "fmt = IFMT"
    using that o by (simp add: Instruction_Decode_def Let_def imm_sign_extend)
  have j: "unat (extra (Instruction_Decode v)) < 2 ^ 26" if "fmt \<noteq> IFMT"
    using that o field_bound(1) [of "drop_bit 6 v"] jump_field_bound [of v]
    by (cases fmt) (simp_all add: Instruction_Decode_def Let_def)
  show ?thesis
    using Decode_fields [of v] Decode_opCode [of v] im j o by (simp add: Let_def)
qed

text \<open>
  (C40) Two logical instructions do not do what their names say: \<^verbatim>\<open>OR\<close> ors the register \<^verbatim>\<open>rs\<close> with
  itself and so copies it, ignoring \<^verbatim>\<open>rt\<close>; the logical right shifts \<^verbatim>\<open>SRL\<close> and \<^verbatim>\<open>SRLV\<close> shift a
  signed \<^verbatim>\<open>int\<close> and so are the arithmetic ones, which differ on words with the sign bit set.
\<close>

theorem OR_SRL_defects:
  "exec_op h pid OP_OR i pc m = fall_out pc (set_reg (rd i) (registers m (rs i)) m)
   \<and> exec_op h pid OP_SRL i pc m = exec_op h pid OP_SRA i pc m
   \<and> exec_op h pid OP_SRLV i pc m = exec_op h pid OP_SRAV i pc m
   \<and> signed_drop_bit 1 (0x80000000 :: 32 word) \<noteq> drop_bit 1 0x80000000"
proof -
  have "bit (signed_drop_bit 1 (0x80000000 :: 32 word)) 31" by (simp add: bit_signed_drop_bit_iff)
  moreover have "\<not> bit (drop_bit 1 (0x80000000 :: 32 word)) 31" by (simp add: bit_drop_bit_eq)
  ultimately show ?thesis by (auto simp del: One_nat_def)
qed

end
