(* ===== verification/Nachos_Exception.thy ===== *)
theory Nachos_Exception
  imports Nachos_Prelude Nachos_Bitmap Nachos_Machine Nachos_Mips Nachos_Cpu
begin

text \<open>
  The kernel side of a trap: \<^verbatim>\<open>ExceptionHandler\<close> of \<^verbatim>\<open>userprog/exception.cc\<close>, the register set-up of
  \<^verbatim>\<open>userprog/addrspace.cc\<close>, and the execution loop \<^verbatim>\<open>Machine::Run\<close>.  The file \<^verbatim>\<open>VirtualMemory\<close> that
  backs a program is reached through \<open>openVM\<close>, the result of \<^verbatim>\<open>fileSystem->Open("VirtualMemory")\<close>: a
  null pointer, or the open file's \<^verbatim>\<open>ReadAt\<close>, which takes a byte count and a position and returns
  the bytes it copied.
\<close>

subsection \<open>The exception handler\<close>

type_synonym open_vm = "(nat \<Rightarrow> nat \<Rightarrow> 8 word list result) option"

abbreviation (input) SC_Halt :: "32 word" where "SC_Halt \<equiv> 0"
abbreviation (input) SC_Exit :: "32 word" where "SC_Exit \<equiv> 1"

text \<open>The TLB branch, with the compiled-in replacement algorithm (\<^verbatim>\<open>SWAPALG\<close> is 2).\<close>

definition tlb_fault :: "TranslationEntry list \<Rightarrow> machine \<Rightarrow> machine result" where
  "tlb_fault tlbs m =
     (let vpn = registers m BadVAddrReg div of_nat PageSize;
          (m, tmp) = Machine_Swaptlb m
      in case pageTable m of
           None \<Rightarrow> Inl NullDeref
         | Some pt \<Rightarrow>
             if unat vpn < length pt
             then Inr (m\<lparr>tlb := Some (tlbs[tmp := (tlbs ! tmp)\<lparr>virtualPage := virtualPage (pt ! unat vpn),
                    physicalPage := physicalPage (pt ! unat vpn), te_valid := True\<rparr>])\<rparr>)
             else Inl OutOfBounds)"

definition page_fault :: "int \<Rightarrow> open_vm \<Rightarrow> machine \<Rightarrow> machine result" where
  "page_fault pid openVM m =
     (let vpn = registers m BadVAddrReg div of_nat PageSize in
      rbind (BitMap_Find (MemoryMap m)) (\<lambda>(mm, NewPhysicPage).
        ASSERT (NewPhysicPage \<noteq> - 1)
          (let m = m\<lparr>MemoryMap := mm\<rparr>; f = nat NewPhysicPage in
           case pageTable m of
             None \<Rightarrow> Inl NullDeref
           | Some pt \<Rightarrow>
               if \<not> f < length pt then Inl OutOfBounds
               else
                 let m = m\<lparr>pageTable := Some (pt[f := (pt ! f)\<lparr>virtualPage := vpn, physicalPage := of_nat f,
                           te_valid := True, te_thread := pid\<rparr>])\<rparr>
                 in case openVM of
                      None \<Rightarrow> Inl NullDeref
                    | Some ReadAt \<Rightarrow>
                        rbind (ReadAt PageSize (unat vpn * PageSize)) (\<lambda>bytes.
                          Inr (m\<lparr>mainMemory := put_bytes (f * PageSize) bytes (mainMemory m)\<rparr>)))))"

definition ExceptionHandler :: "int \<Rightarrow> open_vm \<Rightarrow> handler" where
  "ExceptionHandler pid openVM which m =
     rbind (Machine_ReadRegister m 2) (\<lambda>typ.
       if which = SyscallException \<and> typ = SC_Halt then Inl Halted
       else if which = SyscallException \<and> typ = SC_Exit then Inl ThreadExit
       else if which = PageFaultException then
         (case tlb m of Some tlbs \<Rightarrow> tlb_fault tlbs m | None \<Rightarrow> page_fault pid openVM m)
       else Inl AssertFail)"

subsection \<open>Starting and running a program\<close>

fun write_zeros :: "nat list \<Rightarrow> machine \<Rightarrow> machine result" where
  "write_zeros [] m = Inr m"
| "write_zeros (i # is) m = rbind (Machine_WriteRegister m (int i) 0) (write_zeros is)"

definition AddrSpace_InitRegisters :: "nat \<Rightarrow> machine \<Rightarrow> machine result" where
  "AddrSpace_InitRegisters numPages m =
     rbind (write_zeros [0..<NumTotalRegs] m) (\<lambda>m.
     rbind (Machine_WriteRegister m (int PCReg) 0) (\<lambda>m.
     rbind (Machine_WriteRegister m (int NextPCReg) 4) (\<lambda>m.
     Machine_WriteRegister m (int StackReg) (of_nat (numPages * PageSize) - 16))))"

definition AddrSpace_RestoreState :: "machine \<Rightarrow> machine" where
  "AddrSpace_RestoreState m =
     m\<lparr>tlb := map_option (map (\<lambda>e. e\<lparr>te_valid := False\<rparr>)) (tlb m)\<rparr>"

text \<open>
  \<open>n\<close> rounds of the loop of \<^verbatim>\<open>Machine::Run\<close>, for the thread \<open>pid\<close>; the clock tick between two
  instructions belongs to the interrupt simulation and does not touch the machine.
\<close>

fun run_loop :: "handler \<Rightarrow> int \<Rightarrow> nat \<Rightarrow> machine \<Rightarrow> machine result" where
  "run_loop h pid 0 m = Inr m"
| "run_loop h pid (Suc n) m = rbind (Machine_OneInstruction h pid m) (run_loop h pid n)"

definition Machine_Run :: "handler \<Rightarrow> int \<Rightarrow> nat \<Rightarrow> machine \<Rightarrow> machine result" where
  "Machine_Run h pid n m = run_loop h pid n (setStatus UserMode m)"

subsection \<open>The handler keeps the machine well formed\<close>

text \<open>An open file with the given contents: \<^verbatim>\<open>ReadAt\<close> copies the bytes that exist in the range.\<close>

definition vm_bytes :: "8 word list \<Rightarrow> open_vm" where
  "vm_bytes bs = Some (\<lambda>numBytes position. Inr (take numBytes (drop position bs)))"

lemma table_ok_map_page:
  assumes tab: "table_ok pt mm" and f: "f < 32" "int f \<notin> bits_of mm"
    and fresh: "\<forall>j. \<not> entry_for pt pid vpn j"
  shows "table_ok (pt[f := (pt ! f)\<lparr>virtualPage := vpn, physicalPage := of_nat f, te_valid := True, te_thread := pid\<rparr>])
           (bm_update mm (int f) True)"
proof -
  let ?e = "(pt ! f)\<lparr>virtualPage := vpn, physicalPage := of_nat f, te_valid := True, te_thread := pid\<rparr>"
  have len: "length pt = 32" and ok: "bitmap_ok mm" "numBits mm = 32" using tab by (auto simp: table_ok_def)
  have bits: "bits_of (bm_update mm (int f) True) = insert (int f) (bits_of mm)"
    using ok f(1) by (simp add: bits_of_bm_update)
  have nth: "pt[f := ?e] ! i = (if i = f then ?e else pt ! i)" if "i < 32" for i using that len by simp
  have old: "te_valid (pt ! i) \<Longrightarrow> int i \<in> bits_of mm" "physicalPage (pt ! i) = of_nat i" if "i < 32" for i
    using tab that by (simp_all add: table_ok_def)
  have uniq: "i = j" if "i < 32" "j < 32" "te_valid (pt ! i)" "te_valid (pt ! j)"
      "virtualPage (pt ! i) = virtualPage (pt ! j)" "te_thread (pt ! i) = te_thread (pt ! j)" for i j
    using tab that by (simp add: table_ok_def)
  have new: "i = f" if "i < 32" "te_valid (pt[f := ?e] ! i)" "virtualPage (pt[f := ?e] ! i) = vpn"
      "te_thread (pt[f := ?e] ! i) = pid" for i
    using that fresh by (auto simp: nth entry_for_def split: if_splits)
  have "i = j"
    if "i < 32" "j < 32" "te_valid (pt[f := ?e] ! i)" "te_valid (pt[f := ?e] ! j)"
      "virtualPage (pt[f := ?e] ! i) = virtualPage (pt[f := ?e] ! j)"
      "te_thread (pt[f := ?e] ! i) = te_thread (pt[f := ?e] ! j)" for i j
  proof (cases "i = f \<or> j = f")
    case True
    then show ?thesis using new [of i] new [of j] that nth [OF f(1)] by auto
  next
    case False
    then show ?thesis using uniq [of i j] that by (simp add: nth)
  qed
  moreover have "physicalPage (pt[f := ?e] ! i) = of_nat i
      \<and> (te_valid (pt[f := ?e] ! i) \<longrightarrow> int i \<in> bits_of (bm_update mm (int f) True))" if "i < 32" for i
    using old [OF that] by (simp add: nth [OF that] bits)
  ultimately show ?thesis
    unfolding table_ok_def using len ok by auto
qed

lemma page_fault_step:
  assumes ok: "machine_ok m" and pt: "pageTable m = Some pt"
    and fresh: "\<forall>j. \<not> entry_for pt pid (registers m BadVAddrReg div 128) j"
    and free: "bits_of (MemoryMap m) \<noteq> {0..<32}"
    and vm: "openVM = Some ReadAt" "ReadAt 128 (unat (registers m BadVAddrReg div 128) * 128) = Inr bytes"
      "length bytes \<le> 128"
  defines "f \<equiv> nat (Min ({0..<32} - bits_of (MemoryMap m)))"
  shows "\<exists>m'. page_fault pid openVM m = Inr m' \<and> machine_ok m' \<and> registers m' = registers m
     \<and> f < 32 \<and> int f \<notin> bits_of (MemoryMap m)
     \<and> mainMemory m' = put_bytes (f * 128) bytes (mainMemory m)
     \<and> (\<exists>pt'. pageTable m' = Some pt' \<and> entry_for pt' pid (registers m BadVAddrReg div 128) f
          \<and> readOnly (pt' ! f) = readOnly (pt ! f) \<and> (\<forall>i. i \<noteq> f \<longrightarrow> pt' ! i = pt ! i))"
proof -
  have tab: "table_ok pt (MemoryMap m)" and len: "length (mainMemory m) = 4096" and tlbs: "tlb m = None"
    using ok pt by (auto simp: machine_ok_def)
  then have lpt: "length pt = 32" and bm: "bitmap_ok (MemoryMap m)" "numBits (MemoryMap m) = 32"
    by (auto simp: table_ok_def)
  let ?f = "Min ({0..<32} - bits_of (MemoryMap m))"
  have fm: "?f \<in> {0..<32} - bits_of (MemoryMap m)" using Min_clear_bit [of "MemoryMap m"] free bm(2) by simp
  then have f: "f < 32" "int f \<notin> bits_of (MemoryMap m)" "int f = ?f" by (auto simp: f_def)
  have find: "BitMap_Find (MemoryMap m) = Inr (bm_update (MemoryMap m) (int f) True, int f)"
    using BitMap_Find_free [OF bm(1)] free bm(2) f(3) by simp
  let ?e = "(pt ! f)\<lparr>virtualPage := registers m BadVAddrReg div 128, physicalPage := of_nat f, te_valid := True,
      te_thread := pid\<rparr>"
  have "page_fault pid openVM m = Inr (m\<lparr>MemoryMap := bm_update (MemoryMap m) (int f) True,
      pageTable := Some (pt[f := ?e]), mainMemory := put_bytes (f * 128) bytes (mainMemory m)\<rparr>)"
    using find f(1) vm(1,2) pt lpt by (simp add: page_fault_def Let_def)
  moreover have "table_ok (pt[f := ?e]) (bm_update (MemoryMap m) (int f) True)"
    by (rule table_ok_map_page [OF tab f(1,2) fresh])
  moreover have "f * 128 + length bytes \<le> length (mainMemory m)" using f(1) vm(3) len by linarith
  ultimately show ?thesis
    using f(1,2) len lpt tlbs by (simp add: machine_ok_def entry_for_def)
qed

lemma page_fault_bytes:
  assumes "machine_ok m" "pageTable m = Some pt"
    "\<forall>j. \<not> entry_for pt pid (registers m BadVAddrReg div 128) j" "bits_of (MemoryMap m) \<noteq> {0..<32}"
    and f: "f = nat (Min ({0..<32} - bits_of (MemoryMap m)))"
  shows "\<exists>m' pt'. page_fault pid (vm_bytes bs) m = Inr m' \<and> machine_ok m' \<and> registers m' = registers m
     \<and> mainMemory m' = put_bytes (f * 128) (take 128 (drop (unat (registers m BadVAddrReg div 128) * 128) bs)) (mainMemory m)
     \<and> f < 32 \<and> pageTable m' = Some pt' \<and> entry_for pt' pid (registers m BadVAddrReg div 128) f
     \<and> readOnly (pt' ! f) = readOnly (pt ! f)"
proof -
  let ?bytes = "take 128 (drop (unat (registers m BadVAddrReg div 128) * 128) bs)"
  have "length ?bytes \<le> 128" by simp
  from page_fault_step [OF assms(1-4) vm_bytes_def refl this, folded f] show ?thesis by blast
qed

lemma page_fault_full:
  assumes "machine_ok m" "bits_of (MemoryMap m) = {0..<32}"
  shows "page_fault pid openVM m = Inl AssertFail"
proof -
  have bm: "bitmap_ok (MemoryMap m)" "numBits (MemoryMap m) = 32"
    using assms(1) by (auto simp: machine_ok_def table_ok_def)
  then have "BitMap_Find (MemoryMap m) = Inr (MemoryMap m, - 1)"
    using BitMap_Find_full [of "MemoryMap m"] assms(2) by simp
  then show ?thesis by (simp add: page_fault_def Let_def)
qed

abbreviation (input) handler_errors :: "nachos_error set" where
  "handler_errors \<equiv> {AssertFail, Halted, ThreadExit}"

lemma ExceptionHandler_post:
  assumes "sim_ok m" "trap_pre pid e (registers m BadVAddrReg) m"
  shows "rpost handler_errors sim_ok (ExceptionHandler pid (vm_bytes bs) e m)"
proof -
  have ok: "machine_ok m" and tlb: "tlb m = None" and r: "registers m LoadReg < 32" "registers m 0 = 0"
    using assms(1) by (auto simp: sim_ok_def half_ok_def machine_ok_def)
  then obtain pt where pt: "pageTable m = Some pt" by (auto simp: machine_ok_def)
  have "rpost handler_errors sim_ok (page_fault pid (vm_bytes bs) m)" if "e = PageFaultException"
  proof (cases "bits_of (MemoryMap m) = {0..<32}")
    case True
    then show ?thesis using page_fault_full [OF ok] by simp
  next
    case False
    have fresh: "\<forall>j. \<not> entry_for pt pid (registers m BadVAddrReg div 128) j"
      using assms(2) that pt by (simp add: trap_pre_def)
    obtain m' where "page_fault pid (vm_bytes bs) m = Inr m'" "machine_ok m'" "registers m' = registers m"
      using page_fault_bytes [OF ok pt fresh False refl, of bs] by blast
    then show ?thesis using r by (simp add: sim_ok_def half_ok_def)
  qed
  then show ?thesis using tlb by (simp add: ExceptionHandler_def Machine_ReadRegister_def)
qed

interpretation eh: exception_handler "ExceptionHandler pid (vm_bytes bs)" handler_errors pid for pid bs
  by unfold_locales (rule ExceptionHandler_post)

lemma run_loop_post:
  "sim_ok m \<Longrightarrow> rpost {AssertFail, Halted, ThreadExit, HostTrap} sim_ok
     (run_loop (ExceptionHandler pid (vm_bytes bs)) pid n m)"
proof (induction n arbitrary: m)
  case (Suc n)
  have "rpost {AssertFail, Halted, ThreadExit, HostTrap} sim_ok
      (Machine_OneInstruction (ExceptionHandler pid (vm_bytes bs)) pid m)"
    by (rule rpost_mono [OF eh.OneInstruction_post [OF Suc.prems]]) auto
  then show ?case unfolding run_loop.simps by (rule rpost_rbind) (rule Suc.IH)
qed simp

lemma write_zeros_eq:
  "set is \<subseteq> {..<40} \<Longrightarrow>
   write_zeros is m = Inr (m\<lparr>registers := (\<lambda>r. if r \<in> set is then 0 else registers m r)\<rparr>)"
proof (induction "is" arbitrary: m)
  case (Cons i "is")
  then show ?case
    by (auto simp: Machine_WriteRegister_def set_reg_def intro!: arg_cong [of _ _ "\<lambda>f. m\<lparr>registers := f\<rparr>"])
qed simp

subsection \<open>Properties\<close>

lemma example_machine_sim: "sim_ok example_machine"
  using example_machine_ok by (simp add: sim_ok_def half_ok_def example_machine_def)





text \<open>
  A program starts in a well-formed state: \<^verbatim>\<open>InitRegisters\<close> never fails and leaves every register
  zero except the two program counters (0 and 4) and the stack pointer, 16 bytes below the end of
  the address space.
\<close>

theorem InitRegisters_spec:
  "\<exists>m'. AddrSpace_InitRegisters numPages m = Inr m'
     \<and> registers m' = (\<lambda>r. if r < 40 then 0 else registers m r)
          (NextPCReg := 4, StackReg := of_nat (numPages * PageSize) - 16)
     \<and> mainMemory m' = mainMemory m \<and> pageTable m' = pageTable m \<and> MemoryMap m' = MemoryMap m
     \<and> sim_ok m' = machine_ok m"
proof -
  have w: "write_zeros [0..<40] m = Inr (m\<lparr>registers := (\<lambda>r. if r < 40 then 0 else registers m r)\<rparr>)"
    using write_zeros_eq [of "[0..<40]" m] by (simp add: lessThan_atLeast0)
  show ?thesis
    unfolding AddrSpace_InitRegisters_def w rbind.simps
    by (auto simp: Machine_WriteRegister_def set_reg_def sim_ok_def half_ok_def machine_ok_def fun_eq_iff)
qed

end
