(* ===== verification/Nachos_Threads.thy ===== *)
theory Nachos_Threads
  imports Nachos_Prelude
begin

text \<open>
  Threads and scheduling: \<^verbatim>\<open>threads/thread.h\<close>, \<^verbatim>\<open>threads/thread.cc\<close>, \<^verbatim>\<open>threads/scheduler.h\<close> and
  \<^verbatim>\<open>threads/scheduler.cc\<close>.  A thread is named by its address, a number.  The processor switches only
  at the calls of \<^verbatim>\<open>Scheduler::Run\<close>, so the state of a thread that is not running is where it goes on
  when it is switched in (\<open>pc\<close>); theory Nachos_Synch gives the steps between two switches.  The ready
  list is the FIFO list of theory Nachos_List.
\<close>

subsection \<open>Data\<close>

type_synonym tid = nat

datatype ThreadStatus = JUST_CREATED | RUNNING | READY | BLOCKED

text \<open>
  Where a thread goes on: at the start of its function, in its own code, in the loop of
  \<^verbatim>\<open>Semaphore::P\<close>, in that loop called from \<^verbatim>\<open>Lock::Acquire\<close>, between the loop and the assignment of
  \<^verbatim>\<open>heldthread\<close>, asleep in \<^verbatim>\<open>Condition::Wait\<close>, in the loop of the \<^verbatim>\<open>Acquire\<close> that ends it, or nowhere.
\<close>

datatype pc =
  Fresh | InCode | InP nat | InAcquire nat | Acquired nat | InWait nat nat | InReacquire nat nat | Finished

record tstate =
  currentThread :: "tid option"
  readyList :: "tid list"
  tstatus :: "tid \<Rightarrow> ThreadStatus"
  pc_of :: "tid \<Rightarrow> pc"
  threadToBeDestroyed :: "tid option"
  GlobalThreadList :: "tid option list"
  pid_of :: "tid \<Rightarrow> int option"

abbreviation (input) MAXTHREADNUM :: nat where "MAXTHREADNUM \<equiv> 128"

subsection \<open>The global thread table\<close>

definition GlobalThreadManager_new :: "tid option list" where
  "GlobalThreadManager_new = replicate MAXTHREADNUM None"

fun add_loop :: "tid \<Rightarrow> tid option list \<Rightarrow> nat \<Rightarrow> (tid option list \<times> nat) option" where
  "add_loop t [] i = None"
| "add_loop t (x # xs) i =
     (if x = None then Some (Some t # xs, i)
      else map_option (\<lambda>(ys, j). (x # ys, j)) (add_loop t xs (Suc i)))"

definition GlobalThreadManager_AddNewThreadtoList :: "tid \<Rightarrow> 'a tstate_scheme \<Rightarrow> 'a tstate_scheme \<times> bool" where
  "GlobalThreadManager_AddNewThreadtoList t s =
     (case add_loop t (GlobalThreadList s) 0 of
        Some (l, i) \<Rightarrow> (s\<lparr>GlobalThreadList := l, pid_of := (pid_of s)(t := Some (int i))\<rparr>, True)
      | None \<Rightarrow> (s, False))"

fun remove_loop :: "tid \<Rightarrow> tid option list \<Rightarrow> tid option list \<times> bool" where
  "remove_loop t [] = ([], False)"
| "remove_loop t (x # xs) =
     (if x = Some t then (None # xs, True)
      else let (ys, b) = remove_loop t xs in (x # ys, b))"

definition GlobalThreadManager_RemoveThreadFromList :: "tid \<Rightarrow> 'a tstate_scheme \<Rightarrow> 'a tstate_scheme \<times> bool" where
  "GlobalThreadManager_RemoveThreadFromList t s =
     (let (l, b) = remove_loop t (GlobalThreadList s) in (s\<lparr>GlobalThreadList := l\<rparr>, b))"

subsection \<open>Scheduler\<close>

definition Scheduler_ReadyToRun :: "tid \<Rightarrow> 'a tstate_scheme \<Rightarrow> 'a tstate_scheme" where
  "Scheduler_ReadyToRun t s = s\<lparr>readyList := readyList s @ [t], tstatus := (tstatus s)(t := READY)\<rparr>"

definition Scheduler_FindNextToRun :: "'a tstate_scheme \<Rightarrow> 'a tstate_scheme \<times> tid option" where
  "Scheduler_FindNextToRun s =
     (case readyList s of [] \<Rightarrow> (s, None) | t # ts \<Rightarrow> (s\<lparr>readyList := ts\<rparr>, Some t))"

definition Thread_Destruct :: "tid \<Rightarrow> 'a tstate_scheme \<Rightarrow> 'a tstate_scheme result" where
  "Thread_Destruct t s =
     (let s = fst (GlobalThreadManager_RemoveThreadFromList t s)
      in ASSERT (currentThread s \<noteq> Some t) (Inr s))"

text \<open>
  After \<^verbatim>\<open>SWITCH\<close>, a thread that was switched out earlier goes on inside its own call of \<^verbatim>\<open>Run\<close> and
  deletes the thread that finished; a new thread starts in \<^verbatim>\<open>ThreadRoot\<close> and does not.
\<close>

definition Scheduler_Run :: "tid \<Rightarrow> 'a tstate_scheme \<Rightarrow> 'a tstate_scheme result" where
  "Scheduler_Run nextThread s =
     (let s = s\<lparr>currentThread := Some nextThread, tstatus := (tstatus s)(nextThread := RUNNING)\<rparr> in
      if pc_of s nextThread = Fresh then Inr (s\<lparr>pc_of := (pc_of s)(nextThread := InCode)\<rparr>)
      else case threadToBeDestroyed s of
             None \<Rightarrow> Inr s
           | Some d \<Rightarrow> rbind (Thread_Destruct d s) (\<lambda>s. Inr (s\<lparr>threadToBeDestroyed := None\<rparr>)))"

subsection \<open>Threads\<close>

text \<open>
  The constructor registers the thread; when the table is full it calls the destructor on itself.
\<close>

definition Thread_Thread :: "tid \<Rightarrow> 'a tstate_scheme \<Rightarrow> 'a tstate_scheme result" where
  "Thread_Thread t s =
     (let s = s\<lparr>tstatus := (tstatus s)(t := JUST_CREATED)\<rparr>;
          (s, ok) = GlobalThreadManager_AddNewThreadtoList t s
      in if ok then Inr s else Thread_Destruct t s)"

definition Thread_Fork :: "tid \<Rightarrow> 'a tstate_scheme \<Rightarrow> 'a tstate_scheme" where
  "Thread_Fork t s = Scheduler_ReadyToRun t (s\<lparr>pc_of := (pc_of s)(t := Fresh)\<rparr>)"

text \<open>
  \<^verbatim>\<open>Sleep\<close>; \<open>p\<close> is where the thread goes on when it is woken.  With nothing ready the processor idles
  (no current thread) until an interrupt makes a thread ready; \<open>Sleep_wake\<close> is the rest of the loop.
\<close>

definition Thread_Sleep :: "tid \<Rightarrow> pc \<Rightarrow> 'a tstate_scheme \<Rightarrow> 'a tstate_scheme result" where
  "Thread_Sleep this p s =
     ASSERT (currentThread s = Some this)
       (let s = s\<lparr>tstatus := (tstatus s)(this := BLOCKED), pc_of := (pc_of s)(this := p)\<rparr>;
            (s, nextThread) = Scheduler_FindNextToRun s
        in case nextThread of
             None \<Rightarrow> Inr (s\<lparr>currentThread := None\<rparr>)
           | Some n \<Rightarrow> Scheduler_Run n s)"

definition Sleep_wake :: "'a tstate_scheme \<Rightarrow> 'a tstate_scheme result" where
  "Sleep_wake s =
     (let (s, nextThread) = Scheduler_FindNextToRun s
      in case nextThread of None \<Rightarrow> Inr s | Some n \<Rightarrow> Scheduler_Run n s)"

definition Thread_Yield :: "tid \<Rightarrow> 'a tstate_scheme \<Rightarrow> 'a tstate_scheme result" where
  "Thread_Yield this s =
     ASSERT (currentThread s = Some this)
       (let (s, nextThread) = Scheduler_FindNextToRun s
        in case nextThread of
             None \<Rightarrow> Inr s
           | Some n \<Rightarrow> Scheduler_Run n (Scheduler_ReadyToRun this s))"

definition Thread_Finish :: "tid \<Rightarrow> 'a tstate_scheme \<Rightarrow> 'a tstate_scheme result" where
  "Thread_Finish this s =
     ASSERT (currentThread s = Some this)
       (Thread_Sleep this Finished (s\<lparr>threadToBeDestroyed := Some this\<rparr>))"

subsection \<open>The thread table\<close>

definition table_of :: "'a tstate_scheme \<Rightarrow> tid set" where
  "table_of s = {t. Some t \<in> set (GlobalThreadList s)}"

text \<open>A registered thread is in the table once, at the index that is its pid.\<close>

definition table_inv :: "'a tstate_scheme \<Rightarrow> bool" where
  "table_inv s \<longleftrightarrow> length (GlobalThreadList s) = MAXTHREADNUM
     \<and> (\<forall>i<MAXTHREADNUM. \<forall>t. GlobalThreadList s ! i = Some t \<longrightarrow> pid_of s t = Some (int i))"

lemma add_loop_Some:
  "add_loop t l i = Some (l', j) \<Longrightarrow> \<exists>k. j = i + k \<and> k < length l \<and> l ! k = None \<and> l' = l[k := Some t]
     \<and> (\<forall>m<k. l ! m \<noteq> None)"
proof (induction t l i arbitrary: l' j rule: add_loop.induct)
  case (2 t x xs i)
  show ?case
  proof (cases "x = None")
    case True
    then show ?thesis using 2 by (auto intro!: exI [of _ 0])
  next
    case False
    then obtain ys where ys: "add_loop t xs (Suc i) = Some (ys, j)" "l' = x # ys" using 2 by auto
    then obtain k where "j = Suc i + k" "k < length xs" "xs ! k = None" "ys = xs[k := Some t]" "\<forall>m<k. xs ! m \<noteq> None"
      using 2 False by blast
    then show ?thesis
      using ys False by (auto intro!: exI [of _ "Suc k"] simp: nth_Cons split: nat.splits)
  qed
qed simp

lemma add_loop_None: "add_loop t l i = None \<longleftrightarrow> None \<notin> set l"
  by (induction t l i rule: add_loop.induct) auto

lemma remove_loop_present:
  "Some t \<in> set l \<Longrightarrow> \<exists>k<length l. l ! k = Some t \<and> remove_loop t l = (l[k := None], True)"
proof (induction l)
  case (Cons x xs)
  show ?case
  proof (cases "x = Some t")
    case False
    then obtain k where "k < length xs" "xs ! k = Some t" "remove_loop t xs = (xs[k := None], True)" using Cons by auto
    then show ?thesis using False by (auto intro!: exI [of _ "Suc k"])
  qed auto
qed simp

lemma remove_loop_absent: "Some t \<notin> set l \<Longrightarrow> remove_loop t l = (l, False)"
  by (induction l) auto

lemma table_inv_distinct:
  "table_inv s \<Longrightarrow> i < 128 \<Longrightarrow> j < 128 \<Longrightarrow> GlobalThreadList s ! i = Some t \<Longrightarrow> GlobalThreadList s ! j = Some t \<Longrightarrow> i = j"
  unfolding table_inv_def by (metis of_nat_eq_iff option.inject)

lemma Destruct_table:
  assumes "table_inv s" "currentThread s \<noteq> Some t"
  shows "\<exists>s'. Thread_Destruct t s = Inr s' \<and> table_inv s' \<and> table_of s' = table_of s - {t} \<and> pid_of s' = pid_of s"
proof (cases "Some t \<in> set (GlobalThreadList s)")
  case True
  obtain k where k: "k < 128" "GlobalThreadList s ! k = Some t"
      "remove_loop t (GlobalThreadList s) = ((GlobalThreadList s)[k := None], True)"
    using remove_loop_present [OF True] assms(1) by (auto simp: table_inv_def)
  let ?l = "(GlobalThreadList s)[k := None]"
  have len: "length (GlobalThreadList s) = 128" using assms(1) by (simp add: table_inv_def)
  have "Some u \<in> set ?l \<longleftrightarrow> Some u \<in> set (GlobalThreadList s) \<and> u \<noteq> t" for u
  proof
    assume "Some u \<in> set ?l"
    then obtain i where "i < 128" "?l ! i = Some u" using len by (auto simp: in_set_conv_nth)
    then show "Some u \<in> set (GlobalThreadList s) \<and> u \<noteq> t"
      using len table_inv_distinct [OF assms(1), of i k] k by (cases "i = k") (auto simp: in_set_conv_nth)
  next
    assume "Some u \<in> set (GlobalThreadList s) \<and> u \<noteq> t"
    then obtain i where "i < 128" "GlobalThreadList s ! i = Some u" "u \<noteq> t" using len by (auto simp: in_set_conv_nth)
    then show "Some u \<in> set ?l" using k len by (auto simp: in_set_conv_nth nth_list_update intro!: exI [of _ i])
  qed
  then show ?thesis
    using assms k
    by (auto simp: Thread_Destruct_def GlobalThreadManager_RemoveThreadFromList_def Let_def table_inv_def
        table_of_def nth_list_update)
next
  case False
  then show ?thesis
    using assms
    by (auto simp: Thread_Destruct_def GlobalThreadManager_RemoveThreadFromList_def remove_loop_absent table_of_def table_inv_def)
qed

lemma Thread_table:
  assumes inv: "table_inv s" and new: "t \<notin> table_of s" and cur: "currentThread s \<noteq> Some t"
  shows "\<exists>s'. Thread_Thread t s = Inr s' \<and> table_inv s'
     \<and> (if None \<in> set (GlobalThreadList s)
        then table_of s' = insert t (table_of s)
          \<and> (\<exists>i<128. pid_of s' t = Some (int i) \<and> GlobalThreadList s ! i = None \<and> (\<forall>j<i. GlobalThreadList s ! j \<noteq> None))
        else table_of s' = table_of s)"
proof (cases "add_loop t (GlobalThreadList s) 0")
  case None
  have inv': "table_inv (s\<lparr>tstatus := (tstatus s)(t := JUST_CREATED)\<rparr>)" using inv by (simp add: table_inv_def)
  have "None \<notin> set (GlobalThreadList s)" using None add_loop_None by blast
  then show ?thesis
    using None new Destruct_table [OF inv', of t] cur
    by (auto simp: Thread_Thread_def GlobalThreadManager_AddNewThreadtoList_def Let_def table_of_def)
next
  case (Some q)
  obtain l i where q: "q = (l, i)" by force
  have len: "length (GlobalThreadList s) = 128" using inv by (simp add: table_inv_def)
  obtain k where k: "i = k" "k < 128" "GlobalThreadList s ! k = None" "l = (GlobalThreadList s)[k := Some t]"
      "\<forall>m<k. GlobalThreadList s ! m \<noteq> None"
    using add_loop_Some [of t "GlobalThreadList s" 0 l i] Some q len by auto
  have "None \<in> set (GlobalThreadList s)" using k len by (metis nth_mem)
  moreover have "table_of s = {u. Some u \<in> set (GlobalThreadList s)}" by (simp add: table_of_def)
  moreover have "{u. Some u \<in> set l} = insert t {u. Some u \<in> set (GlobalThreadList s)}"
  proof (rule set_eqI, simp)
    fix u
    show "Some u \<in> set l \<longleftrightarrow> u = t \<or> Some u \<in> set (GlobalThreadList s)"
    proof
      assume "Some u \<in> set l"
      then obtain i where "i < 128" "l ! i = Some u" using k(4) len by (auto simp: in_set_conv_nth)
      then show "u = t \<or> Some u \<in> set (GlobalThreadList s)"
        using k(4) len by (cases "i = k") (auto simp: in_set_conv_nth)
    next
      assume "u = t \<or> Some u \<in> set (GlobalThreadList s)"
      then obtain i where "i < 128" "i = k \<and> u = t \<or> GlobalThreadList s ! i = Some u"
        using k(2) len by (auto simp: in_set_conv_nth)
      then show "Some u \<in> set l"
        using k len by (auto simp: in_set_conv_nth nth_list_update intro!: exI [of _ i])
    qed
  qed
  moreover have "table_inv (s\<lparr>tstatus := (tstatus s)(t := JUST_CREATED), GlobalThreadList := l,
      pid_of := (pid_of s)(t := Some (int k))\<rparr>)"
    using inv k new len unfolding table_inv_def table_of_def
    by (auto simp: nth_list_update in_set_conv_nth)
  ultimately show ?thesis
    using Some q k
    by (auto simp: Thread_Thread_def GlobalThreadManager_AddNewThreadtoList_def table_of_def)
qed

subsection \<open>Properties\<close>

definition example_threads :: tstate where
  "example_threads = \<lparr>currentThread = Some 0, readyList = [], tstatus = (\<lambda>_. RUNNING), pc_of = (\<lambda>_. InCode),
     threadToBeDestroyed = None, GlobalThreadList = Some 0 # replicate 127 None, pid_of = [0 \<mapsto> 0]\<rparr>"

text \<open>
  The thread table: creating a thread while a slot is free registers it at the lowest free slot,
  which becomes its pid and is nobody else's; deleting it again gives the slot back and leaves the
  other threads registered.
\<close>

theorem Thread_create_delete:
  assumes "table_inv s" "t \<notin> table_of s" "currentThread s \<noteq> Some t" "None \<in> set (GlobalThreadList s)"
  shows "\<exists>s1 s2 i. Thread_Thread t s = Inr s1 \<and> table_inv s1 \<and> table_of s1 = insert t (table_of s)
     \<and> i < MAXTHREADNUM \<and> pid_of s1 t = Some (int i) \<and> GlobalThreadList s ! i = None
     \<and> (\<forall>j<i. GlobalThreadList s ! j \<noteq> None) \<and> (\<forall>u\<in>table_of s. pid_of s1 u \<noteq> Some (int i))
     \<and> Thread_Destruct t s1 = Inr s2 \<and> table_inv s2 \<and> table_of s2 = table_of s"
proof -
  obtain s1 i where s1: "Thread_Thread t s = Inr s1" "table_inv s1" "table_of s1 = insert t (table_of s)" "i < 128"
    "pid_of s1 t = Some (int i)" "GlobalThreadList s ! i = None" "\<forall>j<i. GlobalThreadList s ! j \<noteq> None"
    using Thread_table [OF assms(1-3)] assms(4) by auto
  have cur: "currentThread s1 \<noteq> Some t"
    using s1(1) assms(3)
    by (auto simp: Thread_Thread_def GlobalThreadManager_AddNewThreadtoList_def Thread_Destruct_def
        GlobalThreadManager_RemoveThreadFromList_def Let_def split: option.splits prod.splits if_splits)
  obtain s2 where s2: "Thread_Destruct t s1 = Inr s2" "table_inv s2" "table_of s2 = table_of s1 - {t}"
    using Destruct_table [OF s1(2) cur] by blast
  have "pid_of s1 u \<noteq> Some (int i)" if "u \<in> table_of s" for u
  proof
    assume p: "pid_of s1 u = Some (int i)"
    have "u \<in> table_of s1" "t \<in> table_of s1" using that s1(3) by auto
    then obtain a b where "a < 128" "GlobalThreadList s1 ! a = Some u" "b < 128" "GlobalThreadList s1 ! b = Some t"
      using s1(2) by (auto simp: table_of_def table_inv_def in_set_conv_nth)
    then have "a = i" "b = i" "u = t" using s1(2,5) p unfolding table_inv_def by auto
    then show False using that assms(2) by simp
  qed
  then show ?thesis using s1 s2 assms(2) by auto
qed

theorem Thread_create_delete_witness:
  "\<exists>s1 s2. Thread_Thread 7 example_threads = Inr s1 \<and> pid_of s1 7 = Some 1
     \<and> Thread_Destruct 7 s1 = Inr s2 \<and> table_of s2 = table_of example_threads"
proof -
  have l: "GlobalThreadList example_threads ! i = (if i = 0 then Some 0 else None)" if "i < 128" for i
    using that by (auto simp: example_threads_def nth_Cons split: nat.splits)
  have "table_inv example_threads"
    unfolding table_inv_def using l by (auto simp: example_threads_def split: if_splits)
  moreover have "7 \<notin> table_of example_threads" "currentThread example_threads \<noteq> Some 7"
    "None \<in> set (GlobalThreadList example_threads)"
    by (auto simp: table_of_def example_threads_def)
  ultimately obtain s1 s2 i where w: "Thread_Thread 7 example_threads = Inr s1" "i < 128" "pid_of s1 7 = Some (int i)"
    "GlobalThreadList example_threads ! i = None" "\<forall>j<i. GlobalThreadList example_threads ! j \<noteq> None"
    "Thread_Destruct 7 s1 = Inr s2" "table_of s2 = table_of example_threads"
    using Thread_create_delete [of example_threads 7] by blast
  have "i \<noteq> 0" using w(4) l [of 0] by (cases "i = 0") auto
  moreover have "\<not> 1 < i" using w(2,5) l [of 1] by auto
  ultimately have "i = 1" by simp
  with w show ?thesis by auto
qed

end
