(* ===== verification/Nachos_Synch.thy ===== *)
theory Nachos_Synch
  imports Nachos_Prelude Nachos_Threads
begin

text \<open>
  Synchronisation: semaphores, locks and condition variables of \<^verbatim>\<open>threads/synch.h\<close> and
  \<^verbatim>\<open>threads/synch.cc\<close>.  The code between two context switches runs with interrupts disabled, so an
  operation is a function on the kernel state up to the point where it sleeps; a thread that sleeps
  inside an operation goes on at its \<open>pc\<close> when it is switched in.  The step relation interleaves the
  operations of all threads with preemption, wake-ups by interrupt handlers, and thread creation, and
  the invariants hold for every interleaving.
\<close>

subsection \<open>Data\<close>

record Semaphore =
  sem_value :: int
  sem_queue :: "tid list"

text \<open>A semaphore of its own, or the one inside a lock.\<close>

datatype semref = Sem nat | LockSem nat

record sync = tstate +
  sems :: "semref \<Rightarrow> Semaphore"
  heldthread :: "nat \<Rightarrow> tid option"
  waitinglist :: "nat \<Rightarrow> tid list"

definition Semaphore_Semaphore :: "int \<Rightarrow> Semaphore" where
  "Semaphore_Semaphore initialValue = \<lparr>sem_value = initialValue, sem_queue = []\<rparr>"

definition set_pc :: "tid \<Rightarrow> pc \<Rightarrow> sync \<Rightarrow> sync" where
  "set_pc t p s = s\<lparr>pc_of := (pc_of s)(t := p)\<rparr>"

definition set_sem :: "semref \<Rightarrow> Semaphore \<Rightarrow> sync \<Rightarrow> sync" where
  "set_sem r q s = s\<lparr>sems := (sems s)(r := q)\<rparr>"

subsection \<open>Semaphores\<close>

text \<open>
  One round of the loop of \<^verbatim>\<open>P\<close> by the running thread \<open>t\<close>: sleep in the loop (at \<open>p\<close>), or take the
  semaphore and go on at \<open>p'\<close>.
\<close>

definition Semaphore_P :: "semref \<Rightarrow> pc \<Rightarrow> pc \<Rightarrow> tid \<Rightarrow> sync \<Rightarrow> sync result" where
  "Semaphore_P r p p' t s =
     (let q = sems s r in
      if sem_value q = 0
      then Thread_Sleep t p (set_sem r (q\<lparr>sem_queue := sem_queue q @ [t]\<rparr>) s)
      else Inr (set_pc t p' (set_sem r (q\<lparr>sem_value := sem_value q - 1\<rparr>) s)))"

definition Semaphore_V :: "semref \<Rightarrow> sync \<Rightarrow> sync" where
  "Semaphore_V r s =
     (let q = sems s r;
          (s, q) = (case sem_queue q of
                      [] \<Rightarrow> (s, q)
                    | t # ts \<Rightarrow> (Scheduler_ReadyToRun t s, q\<lparr>sem_queue := ts\<rparr>))
      in set_sem r (q\<lparr>sem_value := sem_value q + 1\<rparr>) s)"

subsection \<open>Locks\<close>

text \<open>\<^verbatim>\<open>Acquire\<close> up to the return of \<^verbatim>\<open>lock->P()\<close>, and the assignment that follows it.\<close>

definition Lock_Acquire :: "nat \<Rightarrow> tid \<Rightarrow> sync \<Rightarrow> sync result" where
  "Lock_Acquire l t s = Semaphore_P (LockSem l) (InAcquire l) (Acquired l) t s"

definition Lock_Acquire_end :: "nat \<Rightarrow> tid \<Rightarrow> sync \<Rightarrow> sync" where
  "Lock_Acquire_end l t s = set_pc t InCode (s\<lparr>heldthread := (heldthread s)(l := Some t)\<rparr>)"

definition Lock_isHeldByCurrentThread :: "nat \<Rightarrow> sync \<Rightarrow> bool" where
  "Lock_isHeldByCurrentThread l s = (currentThread s = heldthread s l)"

definition Lock_Release :: "nat \<Rightarrow> sync \<Rightarrow> sync" where
  "Lock_Release l s =
     (if Lock_isHeldByCurrentThread l s
      then Semaphore_V (LockSem l) (s\<lparr>heldthread := (heldthread s)(l := None)\<rparr>) else s)"

subsection \<open>Condition variables\<close>

definition Condition_Wait :: "nat \<Rightarrow> nat \<Rightarrow> tid \<Rightarrow> sync \<Rightarrow> sync result" where
  "Condition_Wait c l t s =
     (let s = Lock_Release l s;
          s = s\<lparr>waitinglist := (waitinglist s)(c := waitinglist s c @ [t])\<rparr>
      in Thread_Sleep t (InWait c l) s)"

text \<open>
  The rest of \<^verbatim>\<open>Wait\<close> after the thread is woken: \<^verbatim>\<open>Acquire\<close>, with interrupts off all along, so that
  \<^verbatim>\<open>heldthread\<close> is assigned without a window.
\<close>

definition Condition_Reacquire :: "nat \<Rightarrow> nat \<Rightarrow> tid \<Rightarrow> sync \<Rightarrow> sync result" where
  "Condition_Reacquire c l t s =
     (if sem_value (sems s (LockSem l)) = 0
      then Semaphore_P (LockSem l) (InReacquire c l) InCode t s
      else rbind (Semaphore_P (LockSem l) (InReacquire c l) InCode t s) (\<lambda>s.
             Inr (s\<lparr>heldthread := (heldthread s)(l := Some t)\<rparr>)))"

definition Condition_Signal :: "nat \<Rightarrow> sync \<Rightarrow> sync" where
  "Condition_Signal c s =
     (case waitinglist s c of
        [] \<Rightarrow> s
      | t # ts \<Rightarrow> Scheduler_ReadyToRun t (s\<lparr>waitinglist := (waitinglist s)(c := ts)\<rparr>))"

function Condition_Broadcast :: "nat \<Rightarrow> sync \<Rightarrow> sync" where
  "Condition_Broadcast c s =
     (if waitinglist s c = [] then s else Condition_Broadcast c (Condition_Signal c s))"
  by auto
termination
  by (relation "measure (\<lambda>(c, s). length (waitinglist s c))")
    (auto simp: Condition_Signal_def Scheduler_ReadyToRun_def split: list.splits)

declare Condition_Broadcast.simps [simp del]

subsection \<open>The operations of a running thread\<close>

text \<open>What a thread in its own code may call, and what a thread inside an operation goes on with.\<close>

datatype op =
  P nat | V nat | Acquire nat | Release nat | Wait nat nat | Signal nat | Broadcast nat | Yield | Finish

definition do_op :: "op \<Rightarrow> tid \<Rightarrow> sync \<Rightarrow> sync result" where
  "do_op x t s =
     (case x of
        P n \<Rightarrow> Semaphore_P (Sem n) (InP n) InCode t s
      | V n \<Rightarrow> Inr (Semaphore_V (Sem n) s)
      | Acquire l \<Rightarrow> Lock_Acquire l t s
      | Release l \<Rightarrow> Inr (Lock_Release l s)
      | Wait c l \<Rightarrow> Condition_Wait c l t s
      | Signal c \<Rightarrow> Inr (Condition_Signal c s)
      | Broadcast c \<Rightarrow> Inr (Condition_Broadcast c s)
      | Yield \<Rightarrow> Thread_Yield t s
      | Finish \<Rightarrow> Thread_Finish t s)"

definition resume :: "tid \<Rightarrow> sync \<Rightarrow> sync result" where
  "resume t s =
     (case pc_of s t of
        InP n \<Rightarrow> Semaphore_P (Sem n) (InP n) InCode t s
      | InAcquire l \<Rightarrow> Lock_Acquire l t s
      | Acquired l \<Rightarrow> Inr (Lock_Acquire_end l t s)
      | InWait c l \<Rightarrow> Condition_Reacquire c l t s
      | InReacquire c l \<Rightarrow> Condition_Reacquire c l t s
      | _ \<Rightarrow> Inr s)"

text \<open>
  One step of the kernel: the running thread calls an operation or goes on with one; the timer makes
  it yield while interrupts are on (in its own code, and in \<^verbatim>\<open>Acquire\<close> just before \<^verbatim>\<open>heldthread\<close> is
  assigned); an interrupt handler releases a semaphore; the idle processor finds a ready thread; a new
  thread is forked.
\<close>

inductive step :: "sync \<Rightarrow> sync \<Rightarrow> bool" where
  call: "currentThread s = Some t \<Longrightarrow> pc_of s t = InCode \<Longrightarrow> do_op x t s = Inr s' \<Longrightarrow> step s s'"
| go_on: "currentThread s = Some t \<Longrightarrow> pc_of s t \<notin> {InCode, Fresh, Finished} \<Longrightarrow> resume t s = Inr s' \<Longrightarrow> step s s'"
| preempt: "currentThread s = Some t \<Longrightarrow> pc_of s t = InCode \<or> (\<exists>l. pc_of s t = Acquired l)
    \<Longrightarrow> Thread_Yield t s = Inr s' \<Longrightarrow> step s s'"
| handler: "step s (Semaphore_V (Sem n) s)"
| wake: "currentThread s = None \<Longrightarrow> Sleep_wake s = Inr s' \<Longrightarrow> step s s'"
| fork: "currentThread s = Some t \<Longrightarrow> pc_of s t = InCode \<Longrightarrow> pc_of s u = Finished \<Longrightarrow> u \<notin> table_of s
    \<Longrightarrow> Thread_Thread u s = Inr s' \<Longrightarrow> u \<in> table_of s' \<Longrightarrow> step s (Thread_Fork u s')"

inductive_cases stepE: "step s s'"

text \<open>The state at the start: one thread in its code, semaphores with initial values, free locks.\<close>

definition initial :: "(nat \<Rightarrow> nat) \<Rightarrow> tid \<Rightarrow> sync" where
  "initial iv t =
     \<lparr>currentThread = Some t, readyList = [], tstatus = (\<lambda>_. RUNNING), pc_of = (\<lambda>_. Finished)(t := InCode),
      threadToBeDestroyed = None, GlobalThreadList = Some t # replicate 127 None, pid_of = [t \<mapsto> 0],
      sems = (\<lambda>r. Semaphore_Semaphore (case r of Sem n \<Rightarrow> int (iv n) | LockSem l \<Rightarrow> 1)),
      heldthread = (\<lambda>_. None), waitinglist = (\<lambda>_. [])\<rparr>"

subsection \<open>The invariant\<close>

definition runnable :: "'a tstate_scheme \<Rightarrow> tid list" where
  "runnable s = (case currentThread s of None \<Rightarrow> readyList s | Some t \<Rightarrow> t # readyList s)"

text \<open>The thread is in the loop of \<^verbatim>\<open>P\<close> on this semaphore.\<close>

fun waits_on :: "pc \<Rightarrow> semref \<Rightarrow> bool" where
  "waits_on (InP n) r = (r = Sem n)"
| "waits_on (InAcquire l) r = (r = LockSem l)"
| "waits_on (InReacquire c l) r = (r = LockSem l)"
| "waits_on _ r = False"

text \<open>Every thread is in one place: running or ready, or in the one queue its \<open>pc\<close> says.\<close>

definition placed :: "tid list \<Rightarrow> (tid \<Rightarrow> pc) \<Rightarrow> (semref \<Rightarrow> Semaphore) \<Rightarrow> (nat \<Rightarrow> tid list) \<Rightarrow> bool" where
  "placed rn pc sm wl \<longleftrightarrow> distinct rn \<and> (\<forall>t\<in>set rn. pc t \<noteq> Finished)
     \<and> (\<forall>r. distinct (sem_queue (sm r)) \<and> (\<forall>t\<in>set (sem_queue (sm r)). waits_on (pc t) r \<and> t \<notin> set rn))
     \<and> (\<forall>c. distinct (wl c) \<and> (\<forall>t\<in>set (wl c). (\<exists>l. pc t = InWait c l) \<and> t \<notin> set rn))"

text \<open>No thread is lost: one that has not finished is running, ready, or in some queue.\<close>

definition located :: "tid list \<Rightarrow> (semref \<Rightarrow> Semaphore) \<Rightarrow> (nat \<Rightarrow> tid list) \<Rightarrow> tid set" where
  "located rn sm wl = set rn \<union> (\<Union>r. set (sem_queue (sm r))) \<union> (\<Union>c. set (wl c))"

definition accounted :: "tid list \<Rightarrow> (tid \<Rightarrow> pc) \<Rightarrow> (semref \<Rightarrow> Semaphore) \<Rightarrow> (nat \<Rightarrow> tid list) \<Rightarrow> bool" where
  "accounted rn pc sm wl \<longleftrightarrow> {t. pc t \<noteq> Finished} \<subseteq> located rn sm wl"

text \<open>A lock is free, or held, or its semaphore is taken by one thread that is about to be the holder.\<close>

definition lock_inv :: "(tid \<Rightarrow> pc) \<Rightarrow> int \<Rightarrow> tid option \<Rightarrow> nat \<Rightarrow> bool" where
  "lock_inv pc v h l \<longleftrightarrow>
     (v = 1 \<and> h = None \<and> (\<forall>t. pc t \<noteq> Acquired l))
   \<or> (v = 0 \<and> h \<noteq> None \<and> (\<forall>t. pc t \<noteq> Acquired l))
   \<or> (v = 0 \<and> h = None \<and> (\<exists>!t. pc t = Acquired l))"

text \<open>No wake-up is lost: with waiters queued, each unit of the value has a woken thread that will retry.\<close>

definition wake_inv :: "tid list \<Rightarrow> (tid \<Rightarrow> pc) \<Rightarrow> Semaphore \<Rightarrow> semref \<Rightarrow> bool" where
  "wake_inv rn pc q r \<longleftrightarrow> 0 \<le> sem_value q
     \<and> (sem_queue q \<noteq> [] \<longrightarrow> sem_value q \<le> int (length (filter (\<lambda>t. waits_on (pc t) r) rn)))"

text \<open>
  A thread that has not finished is in the thread table; the finished thread that waits for its
  deletion is there too, and it is not one that runs.
\<close>

definition dead_inv :: "'a tstate_scheme \<Rightarrow> bool" where
  "dead_inv s \<longleftrightarrow> (\<forall>d. threadToBeDestroyed s = Some d \<longrightarrow> pc_of s d = Finished \<and> d \<in> table_of s)
     \<and> (\<forall>t. pc_of s t \<noteq> Finished \<longrightarrow> t \<in> table_of s)
     \<and> (\<forall>t. currentThread s = Some t \<longrightarrow> pc_of s t \<noteq> Fresh) \<and> table_inv s"

definition sinv :: "sync \<Rightarrow> bool" where
  "sinv s \<longleftrightarrow> placed (runnable s) (pc_of s) (sems s) (waitinglist s) \<and> dead_inv s
     \<and> accounted (runnable s) (pc_of s) (sems s) (waitinglist s)
     \<and> (\<forall>l. lock_inv (pc_of s) (sem_value (sems s (LockSem l))) (heldthread s l) l)
     \<and> (\<forall>r. wake_inv (runnable s) (pc_of s) (sems s r) r)"

lemma sinv_initial: "sinv (initial iv t)"
proof -
  have "table_inv (initial iv t)"
    by (auto simp: table_inv_def initial_def nth_Cons split: nat.splits)
  then show ?thesis
    by (auto simp: sinv_def placed_def lock_inv_def wake_inv_def dead_inv_def runnable_def initial_def
        Semaphore_Semaphore_def table_of_def accounted_def located_def split: semref.splits)
qed

subsection \<open>Context switches keep the invariant\<close>

lemma Thread_Sleep_wake:
  "currentThread s = Some t \<Longrightarrow>
   Thread_Sleep t p s = Sleep_wake (s\<lparr>tstatus := (tstatus s)(t := BLOCKED), pc_of := (pc_of s)(t := p), currentThread := None\<rparr>)"
  by (cases s) (auto simp: Thread_Sleep_def Sleep_wake_def Scheduler_FindNextToRun_def Scheduler_Run_def Let_def
      split: list.splits option.splits)

lemma Thread_Yield_wake:
  "currentThread s = Some t \<Longrightarrow>
   Thread_Yield t s = (if readyList s = [] then Inr s
     else Sleep_wake (s\<lparr>readyList := readyList s @ [t], tstatus := (tstatus s)(t := READY), currentThread := None\<rparr>))"
  by (cases s) (auto simp: Thread_Yield_def Sleep_wake_def Scheduler_FindNextToRun_def Scheduler_Run_def Scheduler_ReadyToRun_def
      Let_def split: list.splits option.splits)

lemma Destruct_frame:
  "Thread_Destruct d s = Inr s' \<Longrightarrow> \<exists>l. s' = s\<lparr>GlobalThreadList := l\<rparr>"
  by (auto simp: Thread_Destruct_def GlobalThreadManager_RemoveThreadFromList_def Let_def
      split: prod.splits if_splits)

lemma placed_pc:
  "placed rn pc sm wl \<Longrightarrow> t \<in> set rn \<Longrightarrow> p \<noteq> Finished \<Longrightarrow> placed rn (pc(t := p)) sm wl"
  unfolding placed_def by auto

lemma accounted_pc: "accounted rn pc sm wl \<Longrightarrow> t \<in> set rn \<Longrightarrow> accounted rn (pc(t := p)) sm wl"
  unfolding accounted_def located_def by auto

lemma located_move:
  "located rd (sm(r := (sm r)\<lparr>sem_queue := sem_queue (sm r) @ [t]\<rparr>)) wl = located (t # rd) sm wl"
  "located rd sm (wl(c := wl c @ [t])) = located (t # rd) sm wl"
  "located rn (sm(r := (sm r)\<lparr>sem_value := v\<rparr>)) wl = located rn sm wl"
  "located (xs @ [t]) sm wl = located (t # xs) sm wl"
  unfolding located_def by (auto split: if_splits)

lemma UN_upd: "(\<Union>r. set (f ((g(a := x)) r))) = set (f x) \<union> (\<Union>r\<in>- {a}. set (f (g r)))"
  by (auto split: if_splits)

lemma UN_at: "(\<Union>r. set (f (g r))) = set (f (g a)) \<union> (\<Union>r\<in>- {a}. set (f (g r)))"
  by auto

lemma located_wake:
  "sem_queue (sm r) = t # ts \<Longrightarrow> located (rn @ [t]) (sm(r := (sm r)\<lparr>sem_queue := ts, sem_value := v\<rparr>)) wl = located rn sm wl"
  "wl c = t # ts \<Longrightarrow> located (rn @ [t]) sm (wl(c := ts)) = located rn sm wl"
  unfolding located_def
  using UN_upd [of sem_queue sm r "(sm r)\<lparr>sem_queue := ts, sem_value := v\<rparr>"] UN_at [of sem_queue sm r]
    UN_upd [of "\<lambda>x. x" wl c ts] UN_at [of "\<lambda>x. x" wl c]
  by (auto simp del: fun_upd_apply)

lemma lock_inv_pc:
  "lock_inv pc v h l \<Longrightarrow> pc n \<noteq> Acquired l \<Longrightarrow> p \<noteq> Acquired l \<Longrightarrow> lock_inv (pc(n := p)) v h l"
  unfolding lock_inv_def by (auto split: if_splits)

lemma waits_on_pc: "waits_on (pc n) = waits_on p \<Longrightarrow> (\<lambda>t. waits_on ((pc(n := p)) t) r) = (\<lambda>t. waits_on (pc t) r)"
  by (auto simp: fun_eq_iff)

lemma lock_inv_start: "lock_inv pc v h l \<Longrightarrow> pc n = Fresh \<Longrightarrow> lock_inv (pc(n := InCode)) v h l"
  by (simp add: lock_inv_pc)

lemma wake_inv_start: "wake_inv rn pc q r \<Longrightarrow> pc n = Fresh \<Longrightarrow> wake_inv rn (pc(n := InCode)) q r"
  unfolding wake_inv_def using waits_on_pc [of pc n InCode r] by (simp add: fun_eq_iff)

text \<open>
  The processor takes the next ready thread: the destructor of a finished thread does not fail,
  since the finished thread is not the one that runs.
\<close>

lemma Sleep_wake_sinv:
  assumes inv: "sinv s" and idle: "currentThread s = None"
  shows "\<exists>s'. Sleep_wake s = Inr s' \<and> sinv s'"
proof (cases "readyList s")
  case Nil
  then show ?thesis using inv by (simp add: Sleep_wake_def Scheduler_FindNextToRun_def)
next
  case (Cons n ts)
  let ?s = "s\<lparr>readyList := ts, currentThread := Some n, tstatus := (tstatus s)(n := RUNNING)\<rparr>"
  have w: "Sleep_wake s = (if pc_of s n = Fresh then Inr (?s\<lparr>pc_of := (pc_of s)(n := InCode)\<rparr>)
      else case threadToBeDestroyed s of
             None \<Rightarrow> Inr ?s
           | Some d \<Rightarrow> rbind (Thread_Destruct d ?s) (\<lambda>s. Inr (s\<lparr>threadToBeDestroyed := None\<rparr>)))"
    using Cons by (simp add: Sleep_wake_def Scheduler_FindNextToRun_def Scheduler_Run_def Let_def)
  have rn: "runnable ?s = runnable s" using idle Cons by (simp add: runnable_def)
  have n: "pc_of s n \<noteq> Finished" using inv Cons idle by (simp add: sinv_def placed_def runnable_def)
  have t: "table_inv ?s" using inv by (simp add: sinv_def dead_inv_def table_inv_def)
  show ?thesis
  proof (cases "pc_of s n = Fresh")
    case True
    then show ?thesis
      using inv w rn t Cons idle
      by (auto simp: sinv_def dead_inv_def runnable_def table_inv_def table_of_def lock_inv_start wake_inv_start
          intro!: placed_pc accounted_pc)
  next
    case False
    show ?thesis
    proof (cases "threadToBeDestroyed s")
      case None
      then show ?thesis using inv w False rn t by (auto simp: sinv_def dead_inv_def runnable_def table_of_def)
    next
      case (Some d)
      then have "pc_of s d = Finished" using inv by (simp add: sinv_def dead_inv_def)
      then have "currentThread ?s \<noteq> Some d" using n by auto
      then obtain s' where s': "Thread_Destruct d ?s = Inr s'" "table_inv s'" "table_of s' = table_of ?s - {d}" using Destruct_table [OF t] by blast
      then obtain l where "s' = ?s\<lparr>GlobalThreadList := l\<rparr>" using Destruct_frame by blast
      then show ?thesis
        using inv w False rn s' Some \<open>pc_of s d = Finished\<close>
        by (auto simp: sinv_def dead_inv_def runnable_def table_inv_def table_of_def)
    qed
  qed
qed

text \<open>A thread leaves the processor: it goes to the ready list, a queue, a waiting list, or away.\<close>

lemma length_filter_rotate: "length (filter Q (xs @ [t])) = length (filter Q (t # xs))"
  by simp

lemma Yield_sinv:
  assumes inv: "sinv s" and cur: "currentThread s = Some t"
  shows "\<exists>s'. Thread_Yield t s = Inr s' \<and> sinv s'"
proof (cases "readyList s = []")
  case False
  let ?s = "s\<lparr>readyList := readyList s @ [t], tstatus := (tstatus s)(t := READY), currentThread := None\<rparr>"
  have "sinv ?s"
    using inv cur
    by (auto simp: sinv_def placed_def wake_inv_def dead_inv_def runnable_def table_inv_def table_of_def
        accounted_def located_move
        simp del: filter_append filter.simps simp add: length_filter_rotate)
  then show ?thesis using Sleep_wake_sinv [of ?s] cur False by (simp add: Thread_Yield_wake)
qed (use assms in \<open>simp add: Thread_Yield_wake\<close>)

lemma Sleep_sinv:
  assumes "sinv (s\<lparr>tstatus := (tstatus s)(t := BLOCKED), pc_of := (pc_of s)(t := p), currentThread := None\<rparr>)"
    "currentThread s = Some t"
  shows "\<exists>s'. Thread_Sleep t p s = Inr s' \<and> sinv s'"
  using Sleep_wake_sinv [OF assms(1)] by (simp add: Thread_Sleep_wake assms(2))

subsection \<open>The operations keep the invariant\<close>

lemma filter_pc: "t \<notin> set xs \<Longrightarrow> filter (\<lambda>u. Q ((f(t := p)) u)) xs = filter (\<lambda>u. Q (f u)) xs"
  by (rule filter_cong) auto

lemma waits_not: "waits_on p r \<Longrightarrow> p \<noteq> Finished \<and> p \<noteq> Acquired l \<and> p \<noteq> InWait c l \<and> p \<noteq> Fresh \<and> p \<noteq> InCode"
  by (cases p) auto

lemma waits_unique: "waits_on p r \<Longrightarrow> waits_on p r' \<Longrightarrow> r' = r"
  by (cases p) auto

lemma runnable_upd [simp]:
  "runnable (s\<lparr>heldthread := h\<rparr>) = runnable s" "runnable (s\<lparr>sems := q\<rparr>) = runnable s"
  "runnable (s\<lparr>waitinglist := w\<rparr>) = runnable s" "runnable (s\<lparr>heldthread := h, sems := q\<rparr>) = runnable s"
  by (auto simp: runnable_def split: option.splits)

lemma runnable_Some: "currentThread s = Some t \<Longrightarrow> runnable s = t # readyList s"
  by (simp add: runnable_def)

lemma table_inv_cong:
  "GlobalThreadList s' = GlobalThreadList s \<Longrightarrow> pid_of s' = pid_of s \<Longrightarrow> table_inv s' = table_inv s"
  by (simp add: table_inv_def)

lemma placed_enqueue:
  assumes "placed (t # rd) pc sm wl" "waits_on p r"
  shows "placed rd (pc(t := p)) (sm(r := (sm r)\<lparr>sem_queue := sem_queue (sm r) @ [t]\<rparr>)) wl"
  using assms unfolding placed_def by auto

lemma wake_inv_enqueue:
  assumes "t \<notin> set rd" "waits_on p r" "wake_inv (t # rd) pc (sm r') r'" "\<And>r. waits_on (pc t) r \<Longrightarrow> r = r0" "r0 = r"
    "sem_value (sm r) = 0"
  shows "wake_inv rd (pc(t := p)) ((sm(r := (sm r)\<lparr>sem_queue := sem_queue (sm r) @ [t]\<rparr>)) r') r'"
proof (cases "r' = r")
  case True
  then show ?thesis using assms by (simp add: wake_inv_def)
next
  case False
  then have "\<not> waits_on (pc t) r'" using assms by blast
  then show ?thesis
    using assms(1,3) False by (simp add: wake_inv_def filter_pc [of t rd "\<lambda>p. waits_on p r'"] del: fun_upd_apply) (simp add: fun_upd_def)
qed

lemma P_sleep_sinv:
  assumes inv: "sinv s" and cur: "currentThread s = Some t" and na: "\<And>l. pc_of s t \<noteq> Acquired l"
    and w: "waits_on p r" "\<And>r'. waits_on (pc_of s t) r' \<Longrightarrow> r' = r" and v: "sem_value (sems s r) = 0"
  shows "\<exists>s'. Semaphore_P r p p' t s = Inr s' \<and> sinv s'"
proof -
  let ?q = "sems s r"
  let ?s = "set_sem r (?q\<lparr>sem_queue := sem_queue ?q @ [t]\<rparr>) s"
  let ?s' = "?s\<lparr>tstatus := (tstatus ?s)(t := BLOCKED), pc_of := (pc_of ?s)(t := p), currentThread := None\<rparr>"
  have rn: "runnable s = t # readyList s" "runnable ?s' = readyList s"
    using cur by (simp_all add: runnable_def set_sem_def)
  have d: "t \<notin> set (readyList s)" using inv rn by (simp add: sinv_def placed_def)
  have "placed (runnable ?s') (pc_of ?s') (sems ?s') (waitinglist ?s')"
    using placed_enqueue [OF _ w(1)] inv unfolding rn sinv_def by (simp add: set_sem_def)
  moreover have "accounted (runnable ?s') (pc_of ?s') (sems ?s') (waitinglist ?s')"
    using accounted_pc [of "t # readyList s" "pc_of s" "sems s" "waitinglist s" t p] inv unfolding rn sinv_def
    by (simp add: set_sem_def accounted_def located_move)
  moreover have "dead_inv ?s'"
    using inv cur waits_not [OF w(1)] unfolding sinv_def placed_def rn dead_inv_def
    by (auto simp: set_sem_def table_inv_def table_of_def)
  moreover have "lock_inv (pc_of ?s') (sem_value (sems ?s' (LockSem l))) (heldthread ?s' l) l" for l
    using inv na waits_not [OF w(1), of l] unfolding sinv_def by (auto simp: set_sem_def intro!: lock_inv_pc)
  moreover have "wake_inv (runnable ?s') (pc_of ?s') (sems ?s' r') r'" for r'
    using wake_inv_enqueue [OF d w(1), of "pc_of s" "sems s" r' r] w(2) v inv unfolding sinv_def rn
    by (simp add: set_sem_def)
  ultimately have "sinv ?s'" by (simp add: sinv_def)
  then show ?thesis using Sleep_sinv [of ?s t p] cur v by (simp add: Semaphore_P_def set_sem_def Let_def)
qed

lemma placed_value: "placed rn pc (sm(r := (sm r)\<lparr>sem_value := v\<rparr>)) wl = placed rn pc sm wl"
  unfolding placed_def by (auto split: if_splits)

lemma wake_inv_take:
  assumes d: "t \<notin> set rd" and wk: "wake_inv (t # rd) pc (sm r') r'" and w: "\<And>r'. waits_on (pc t) r' \<Longrightarrow> r' = r"
    and p: "\<And>r'. \<not> waits_on p r'" and v: "sem_value (sm r) \<noteq> 0"
  shows "wake_inv (t # rd) (pc(t := p)) ((sm(r := (sm r)\<lparr>sem_value := sem_value (sm r) - 1\<rparr>)) r') r'"
proof -
  have f: "filter (\<lambda>u. waits_on ((pc(t := p)) u) r') (t # rd) = filter (\<lambda>u. waits_on (pc u) r') rd"
    using d p filter_pc [of t rd "\<lambda>p. waits_on p r'" pc p] by simp
  show ?thesis
  proof (cases "r' = r")
    case True
    show ?thesis using wk v unfolding wake_inv_def True f [unfolded True] by (auto split: if_splits)
  next
    case False
    then have "\<not> waits_on (pc t) r'" using w by blast
    then show ?thesis using wk False unfolding wake_inv_def f by simp
  qed
qed

text \<open>
  The running thread takes semaphore \<open>r\<close>; \<open>lk\<close> are the lock holders afterwards.
\<close>

lemma P_take_sinv:
  assumes inv: "sinv s" and cur: "currentThread s = Some t" and na: "\<And>l. pc_of s t \<noteq> Acquired l"
    and w: "\<And>r'. waits_on (pc_of s t) r' \<Longrightarrow> r' = r" and v: "sem_value (sems s r) \<noteq> 0"
    and p: "\<And>r'. \<not> waits_on p r'" "p \<noteq> Finished" "p \<noteq> Fresh"
    and lk: "\<And>l. lock_inv ((pc_of s)(t := p))
              (sem_value (sems s (LockSem l)) - (if r = LockSem l then 1 else 0)) (h l) l"
  shows "sinv (set_pc t p (set_sem r ((sems s r)\<lparr>sem_value := sem_value (sems s r) - 1\<rparr>) s)\<lparr>heldthread := h\<rparr>)"
    (is "sinv ?s'")
proof -
  have rn: "runnable s = t # readyList s" "runnable ?s' = t # readyList s"
    using cur by (simp_all add: runnable_def set_sem_def set_pc_def)
  have d: "t \<notin> set (readyList s)" "pc_of s t \<noteq> Finished" using inv rn by (simp_all add: sinv_def placed_def)
  have "placed (runnable ?s') (pc_of ?s') (sems ?s') (waitinglist ?s')"
    using inv p unfolding rn sinv_def by (simp add: set_sem_def set_pc_def placed_value placed_pc)
  moreover have "accounted (runnable ?s') (pc_of ?s') (sems ?s') (waitinglist ?s')"
    using accounted_pc [of "t # readyList s" "pc_of s" "sems s" "waitinglist s" t p] inv unfolding rn sinv_def
    by (simp add: set_sem_def set_pc_def accounted_def located_move)
  moreover have "dead_inv ?s'"
    using inv cur p(2,3) d(2) unfolding sinv_def dead_inv_def
    by (auto simp: set_sem_def set_pc_def table_inv_def table_of_def)
  moreover have "lock_inv (pc_of ?s') (sem_value (sems ?s' (LockSem l))) (heldthread ?s' l) l" for l
    using lk [of l] by (auto simp: set_sem_def set_pc_def split: if_splits)
  moreover have "wake_inv (runnable ?s') (pc_of ?s') (sems ?s' r') r'" for r'
  proof -
    have "wake_inv (t # readyList s) (pc_of s) (sems s r') r'" using inv unfolding sinv_def rn by simp
    then have "wake_inv (t # readyList s) ((pc_of s)(t := p))
        (((sems s)(r := (sems s r)\<lparr>sem_value := sem_value (sems s r) - 1\<rparr>)) r') r'"
      using d(1) w p(1) v by (intro wake_inv_take)
    then show ?thesis unfolding rn by (simp add: set_sem_def set_pc_def)
  qed
  ultimately show ?thesis by (simp add: sinv_def)
qed

text \<open>A running thread whose \<open>pc\<close> lets it try \<^verbatim>\<open>P\<close> on \<open>r\<close>.\<close>

definition may_try :: "pc \<Rightarrow> semref \<Rightarrow> bool" where
  "may_try p r \<longleftrightarrow> p = InCode \<or> waits_on p r \<or> (\<exists>c l. p = InWait c l \<and> r = LockSem l)"

lemma may_try:
  assumes "may_try p r"
  shows "p \<noteq> Acquired l" "waits_on p r' \<Longrightarrow> r' = r"
  using assms by (cases p; auto simp: may_try_def)+

lemma P_Sem_sinv:
  assumes "sinv s" "currentThread s = Some t" "may_try (pc_of s t) (Sem n)"
  shows "\<exists>s'. Semaphore_P (Sem n) (InP n) InCode t s = Inr s' \<and> sinv s'"
proof (cases "sem_value (sems s (Sem n)) = 0")
  case True
  then show ?thesis using P_sleep_sinv [of s t "InP n" "Sem n"] assms may_try [OF assms(3)] by auto
next
  case False
  have "sinv (set_pc t InCode (set_sem (Sem n) ((sems s (Sem n))\<lparr>sem_value := sem_value (sems s (Sem n)) - 1\<rparr>) s)
      \<lparr>heldthread := heldthread s\<rparr>)"
  proof (rule P_take_sinv)
    fix k
    show "lock_inv ((pc_of s)(t := InCode))
        (sem_value (sems s (LockSem k)) - (if Sem n = LockSem k then 1 else 0)) (heldthread s k) k"
      using assms(1) may_try [OF assms(3)] by (simp add: sinv_def lock_inv_pc)
  qed (use assms may_try [OF assms(3)] False in auto)
  then show ?thesis using False by (simp add: Semaphore_P_def set_pc_def set_sem_def Let_def)
qed

lemma Acquire_sinv:
  assumes "sinv s" "currentThread s = Some t" "may_try (pc_of s t) (LockSem l)"
  shows "\<exists>s'. Lock_Acquire l t s = Inr s' \<and> sinv s'"
proof (cases "sem_value (sems s (LockSem l)) = 0")
  case True
  then show ?thesis
    using P_sleep_sinv [of s t "InAcquire l" "LockSem l"] assms may_try [OF assms(3)] by (auto simp: Lock_Acquire_def)
next
  case False
  have "sinv (set_pc t (Acquired l) (set_sem (LockSem l) ((sems s (LockSem l))\<lparr>sem_value := sem_value (sems s (LockSem l)) - 1\<rparr>) s)
      \<lparr>heldthread := heldthread s\<rparr>)"
  proof (rule P_take_sinv)
    fix k
    have k: "lock_inv (pc_of s) (sem_value (sems s (LockSem k))) (heldthread s k) k"
      using assms(1) by (simp add: sinv_def)
    show "lock_inv ((pc_of s)(t := Acquired l))
        (sem_value (sems s (LockSem k)) - (if LockSem l = LockSem k then 1 else 0)) (heldthread s k) k"
    proof (cases "k = l")
      case True
      then show ?thesis using k False by (auto simp: lock_inv_def)
    next
      case False
      then show ?thesis using k may_try [OF assms(3)] by (simp add: lock_inv_pc)
    qed
  qed (use assms may_try [OF assms(3)] False in auto)
  then show ?thesis using False by (simp add: Lock_Acquire_def Semaphore_P_def set_pc_def set_sem_def Let_def)
qed

lemma Reacquire_sinv:
  assumes "sinv s" "currentThread s = Some t" "may_try (pc_of s t) (LockSem l)"
  shows "\<exists>s'. Condition_Reacquire c l t s = Inr s' \<and> sinv s'"
proof (cases "sem_value (sems s (LockSem l)) = 0")
  case True
  then show ?thesis
    using P_sleep_sinv [of s t "InReacquire c l" "LockSem l"] assms may_try [OF assms(3)]
    by (auto simp: Condition_Reacquire_def)
next
  case False
  have "sinv (set_pc t InCode (set_sem (LockSem l) ((sems s (LockSem l))\<lparr>sem_value := sem_value (sems s (LockSem l)) - 1\<rparr>) s)
      \<lparr>heldthread := (heldthread s)(l := Some t)\<rparr>)"
  proof (rule P_take_sinv)
    fix k
    have k: "lock_inv (pc_of s) (sem_value (sems s (LockSem k))) (heldthread s k) k"
      using assms(1) by (simp add: sinv_def)
    show "lock_inv ((pc_of s)(t := InCode))
        (sem_value (sems s (LockSem k)) - (if LockSem l = LockSem k then 1 else 0)) (((heldthread s)(l := Some t)) k) k"
    proof (cases "k = l")
      case True
      then show ?thesis using k False by (auto simp: lock_inv_def)
    next
      case False
      then show ?thesis using k may_try [OF assms(3)] by (simp add: lock_inv_pc)
    qed
  qed (use assms may_try [OF assms(3)] False in auto)
  then show ?thesis using False by (simp add: Condition_Reacquire_def Semaphore_P_def set_pc_def set_sem_def Let_def)
qed

text \<open>A waiting thread becomes ready: by \<^verbatim>\<open>V\<close>, by \<^verbatim>\<open>Signal\<close>.\<close>

lemma runnable_ready: "runnable (Scheduler_ReadyToRun t s) = runnable s @ [t]"
  by (auto simp: runnable_def Scheduler_ReadyToRun_def split: option.splits)

lemma placed_dequeue:
  assumes "placed rn pc sm wl" "sem_queue (sm r) = t # ts"
  shows "placed (rn @ [t]) pc (sm(r := (sm r)\<lparr>sem_queue := ts, sem_value := v\<rparr>)) wl"
proof -
  have t: "waits_on (pc t) r" "t \<notin> set rn" "t \<notin> set ts" "distinct ts" and ts: "\<forall>u\<in>set ts. waits_on (pc u) r \<and> u \<notin> set rn"
    using assms unfolding placed_def by (metis list.set_intros distinct.simps(2))+
  have o: "t \<notin> set (sem_queue (sm r'))" if "r' \<noteq> r" for r'
    using assms t(1) that waits_unique unfolding placed_def by metis
  have "t \<notin> set (wl c)" for c
    using assms(1) waits_not [OF t(1)] unfolding placed_def by metis
  then show ?thesis using assms(1) t ts o waits_not [OF t(1)] unfolding placed_def by auto
qed

lemma V_sinv:
  assumes inv: "sinv s"
    and lk: "\<And>l. lock_inv (pc_of s) (sem_value (sems s (LockSem l)) + (if r = LockSem l then 1 else 0)) (h l) l"
  shows "sinv (Semaphore_V r (s\<lparr>heldthread := h\<rparr>))"
proof (cases "sem_queue (sems s r)")
  case Nil
  have lk': "lock_inv (pc_of s) (sem_value (((sems s)(r := (sems s r)\<lparr>sem_value := sem_value (sems s r) + 1\<rparr>)) (LockSem l))) (h l) l" for l
    using lk [of l] by (auto split: if_splits)
  have "dead_inv (set_sem r ((sems s r)\<lparr>sem_value := sem_value (sems s r) + 1\<rparr>) (s\<lparr>heldthread := h\<rparr>))"
    using inv by (auto simp: sinv_def set_sem_def dead_inv_def table_inv_def table_of_def)
  then show ?thesis
    using inv lk' Nil
    by (auto simp: Semaphore_V_def set_sem_def sinv_def placed_value wake_inv_def Let_def accounted_def located_move)
next
  case (Cons t ts)
  let ?s = "Semaphore_V r (s\<lparr>heldthread := h\<rparr>)"
  let ?q = "(sems s r)\<lparr>sem_queue := ts, sem_value := sem_value (sems s r) + 1\<rparr>"
  have e: "?s = set_sem r ?q (Scheduler_ReadyToRun t (s\<lparr>heldthread := h\<rparr>))"
    using Cons by (simp add: Semaphore_V_def Let_def)
  have rn: "runnable ?s = runnable s @ [t]"
    unfolding e by (auto simp: set_sem_def runnable_def Scheduler_ReadyToRun_def split: option.splits)
  have f: "sems ?s = (sems s)(r := ?q)" "pc_of ?s = pc_of s" "waitinglist ?s = waitinglist s" "heldthread ?s = h"
    unfolding e by (simp_all add: set_sem_def Scheduler_ReadyToRun_def)
  have t: "waits_on (pc_of s t) r" using inv Cons by (auto simp: sinv_def placed_def)
  have "placed (runnable ?s) (pc_of ?s) (sems ?s) (waitinglist ?s)"
    unfolding rn f by (rule placed_dequeue) (use inv Cons in \<open>auto simp: sinv_def\<close>)
  moreover have "accounted (runnable ?s) (pc_of ?s) (sems ?s) (waitinglist ?s)"
    using inv Cons unfolding rn f sinv_def by (simp add: accounted_def located_wake)
  moreover have "dead_inv ?s"
    using inv unfolding e by (auto simp: sinv_def dead_inv_def set_sem_def Scheduler_ReadyToRun_def table_inv_def table_of_def)
  moreover have "lock_inv (pc_of ?s) (sem_value (sems ?s (LockSem l))) (heldthread ?s l) l" for l
    using lk [of l] unfolding f by (auto split: if_splits)
  moreover have "wake_inv (runnable ?s) (pc_of ?s) (sems ?s r') r'" for r'
  proof -
    have "wake_inv (runnable s) (pc_of s) (sems s r') r'" using inv by (simp add: sinv_def)
    then show ?thesis using t Cons unfolding rn f by (auto simp: wake_inv_def)
  qed
  ultimately show ?thesis by (simp add: sinv_def)
qed

lemma V_Sem_sinv: "sinv s \<Longrightarrow> sinv (Semaphore_V (Sem n) s)"
  using V_sinv [of s "Sem n" "heldthread s"] by (simp add: sinv_def)

lemma Release_sinv:
  assumes "sinv s" "currentThread s = Some t"
  shows "sinv (Lock_Release l s)"
proof (cases "Lock_isHeldByCurrentThread l s \<and> heldthread s l \<noteq> None")
  case True
  have "sinv (Semaphore_V (LockSem l) (s\<lparr>heldthread := (heldthread s)(l := None)\<rparr>))"
  proof (rule V_sinv [OF assms(1)])
    fix k
    have "lock_inv (pc_of s) (sem_value (sems s (LockSem k))) (heldthread s k) k" using assms by (simp add: sinv_def)
    then show "lock_inv (pc_of s) (sem_value (sems s (LockSem k)) + (if LockSem l = LockSem k then 1 else 0))
        (((heldthread s)(l := None)) k) k"
      using True by (auto simp: lock_inv_def)
  qed
  then show ?thesis using True by (simp add: Lock_Release_def)
qed (use assms in \<open>auto simp: Lock_Release_def Lock_isHeldByCurrentThread_def\<close>)

lemma placed_signal:
  assumes "placed rn pc sm wl" "wl c = t # ts"
  shows "placed (rn @ [t]) pc sm (wl(c := ts))"
proof -
  have t: "t \<notin> set rn" "t \<notin> set ts" "distinct ts" and ts: "\<forall>u\<in>set ts. (\<exists>l. pc u = InWait c l) \<and> u \<notin> set rn"
    using assms unfolding placed_def by (metis list.set_intros distinct.simps(2))+
  obtain l where l: "pc t = InWait c l" using assms unfolding placed_def by (metis list.set_intros(1))
  have o: "t \<notin> set (wl c')" if "c' \<noteq> c" for c'
    using assms(1) l that unfolding placed_def by (metis pc.inject(4))
  have q: "t \<notin> set (sem_queue (sm r))" for r
    using assms(1) l waits_not unfolding placed_def by metis
  show ?thesis using assms(1) t ts o q l unfolding placed_def by auto
qed

lemma Signal_sinv: "sinv s \<Longrightarrow> sinv (Condition_Signal c s)"
proof (cases "waitinglist s c")
  case (Cons t ts)
  assume inv: "sinv s"
  let ?s = "Condition_Signal c s"
  have e: "?s = Scheduler_ReadyToRun t (s\<lparr>waitinglist := (waitinglist s)(c := ts)\<rparr>)"
    using Cons by (simp add: Condition_Signal_def)
  have rn: "runnable ?s = runnable s @ [t]" unfolding e runnable_ready by simp
  have f: "sems ?s = sems s" "pc_of ?s = pc_of s" "waitinglist ?s = (waitinglist s)(c := ts)" "heldthread ?s = heldthread s"
    unfolding e by (simp_all add: Scheduler_ReadyToRun_def)
  have "placed (runnable ?s) (pc_of ?s) (sems ?s) (waitinglist ?s)"
    unfolding rn f by (rule placed_signal) (use inv Cons in \<open>auto simp: sinv_def\<close>)
  moreover have "accounted (runnable ?s) (pc_of ?s) (sems ?s) (waitinglist ?s)"
    using inv Cons unfolding rn f sinv_def by (simp add: accounted_def located_wake)
  moreover have "dead_inv ?s"
    using inv unfolding e by (auto simp: sinv_def dead_inv_def Scheduler_ReadyToRun_def table_inv_def table_of_def)
  moreover have "wake_inv (runnable ?s) (pc_of ?s) (sems ?s r) r" for r
  proof -
    have "wake_inv (runnable s) (pc_of s) (sems s r) r" using inv by (simp add: sinv_def)
    then show ?thesis unfolding rn f by (auto simp: wake_inv_def)
  qed
  ultimately show ?thesis using inv by (simp add: sinv_def f)
qed (simp add: Condition_Signal_def)

lemma Broadcast_sinv: "sinv s \<Longrightarrow> sinv (Condition_Broadcast c s)"
  by (induction c s rule: Condition_Broadcast.induct) (subst Condition_Broadcast.simps, simp add: Signal_sinv)

lemma Broadcast_empties: "waitinglist (Condition_Broadcast c s) c = []"
  by (induction c s rule: Condition_Broadcast.induct) (subst Condition_Broadcast.simps, simp)

lemma V_frame [simp]:
  "currentThread (Semaphore_V r s) = currentThread s" "pc_of (Semaphore_V r s) = pc_of s"
  "waitinglist (Semaphore_V r s) = waitinglist s" "heldthread (Semaphore_V r s) = heldthread s"
  by (auto simp: Semaphore_V_def set_sem_def Scheduler_ReadyToRun_def Let_def split: list.splits)

lemma Release_frame [simp]:
  "currentThread (Lock_Release l s) = currentThread s" "pc_of (Lock_Release l s) = pc_of s"
  "waitinglist (Lock_Release l s) = waitinglist s"
  by (auto simp: Lock_Release_def)

text \<open>A thread leaves the processor for a waiting list, or for good.\<close>

lemma Wait_sinv:
  assumes "sinv s0" "currentThread s0 = Some t" "pc_of s0 t = InCode"
  shows "\<exists>s'. Condition_Wait c l t s0 = Inr s' \<and> sinv s'"
proof -
  define s where "s = Lock_Release l s0"
  have inv: "sinv s" and cur: "currentThread s = Some t" "pc_of s t = InCode"
    using assms Release_sinv by (auto simp: s_def)
  let ?w = "s\<lparr>waitinglist := (waitinglist s)(c := waitinglist s c @ [t])\<rparr>"
  let ?s = "?w\<lparr>tstatus := (tstatus ?w)(t := BLOCKED), pc_of := (pc_of ?w)(t := InWait c l), currentThread := None\<rparr>"
  have rn: "runnable s = t # readyList s" "runnable ?s = readyList s" using cur by (simp_all add: runnable_def)
  have d: "t \<notin> set (readyList s)" using inv rn by (simp add: sinv_def placed_def)
  have "placed (t # readyList s) (pc_of s) (sems s) (waitinglist s)" using inv rn by (simp add: sinv_def)
  then have "placed (runnable ?s) (pc_of ?s) (sems ?s) (waitinglist ?s)"
    unfolding rn(2) by (auto simp: placed_def)
  moreover have "accounted (runnable ?s) (pc_of ?s) (sems ?s) (waitinglist ?s)"
    using accounted_pc [of "t # readyList s" "pc_of s" "sems s" "waitinglist s" t "InWait c l"] inv unfolding rn sinv_def
    by (simp add: accounted_def located_move)
  moreover have "dead_inv ?s" using inv cur by (auto simp: sinv_def dead_inv_def table_inv_def table_of_def)
  moreover have "lock_inv (pc_of ?s) (sem_value (sems ?s (LockSem k))) (heldthread ?s k) k" for k
    using inv cur by (simp add: sinv_def lock_inv_pc)
  moreover have "wake_inv (runnable ?s) (pc_of ?s) (sems ?s r) r" for r
  proof -
    have "wake_inv (t # readyList s) (pc_of s) (sems s r) r" using inv rn by (simp add: sinv_def)
    then show ?thesis
      using filter_pc [OF d, of "\<lambda>p. waits_on p r" "pc_of s" "InWait c l"] cur unfolding rn(2) wake_inv_def by simp
  qed
  ultimately have "sinv ?s" by (simp add: sinv_def)
  then show ?thesis
    using Sleep_sinv [of ?w t "InWait c l"] cur unfolding Condition_Wait_def s_def [symmetric] by (simp add: Let_def)
qed

lemma Finish_sinv:
  assumes inv: "sinv s" and cur: "currentThread s = Some t" "pc_of s t = InCode"
  shows "\<exists>s'. Thread_Finish t s = Inr s' \<and> sinv s'"
proof -
  let ?w = "s\<lparr>threadToBeDestroyed := Some t\<rparr>"
  let ?s = "?w\<lparr>tstatus := (tstatus ?w)(t := BLOCKED), pc_of := (pc_of ?w)(t := Finished), currentThread := None\<rparr>"
  have rn: "runnable s = t # readyList s" "runnable ?s = readyList s" using cur by (simp_all add: runnable_def)
  have d: "t \<notin> set (readyList s)" using inv rn by (simp add: sinv_def placed_def)
  have "placed (t # readyList s) (pc_of s) (sems s) (waitinglist s)" using inv rn by (simp add: sinv_def)
  then have "placed (runnable ?s) (pc_of ?s) (sems ?s) (waitinglist ?s)"
    unfolding rn(2) by (auto simp: placed_def)
  moreover have "accounted (runnable ?s) (pc_of ?s) (sems ?s) (waitinglist ?s)"
    using inv rn by (auto simp: sinv_def accounted_def located_def)
  moreover have "dead_inv ?s" using inv cur by (auto simp: sinv_def dead_inv_def table_inv_def table_of_def)
  moreover have "lock_inv (pc_of ?s) (sem_value (sems ?s (LockSem k))) (heldthread ?s k) k" for k
    using inv cur by (simp add: sinv_def lock_inv_pc)
  moreover have "wake_inv (runnable ?s) (pc_of ?s) (sems ?s r) r" for r
  proof -
    have "wake_inv (t # readyList s) (pc_of s) (sems s r) r" using inv rn by (simp add: sinv_def)
    then show ?thesis
      using filter_pc [OF d, of "\<lambda>p. waits_on p r" "pc_of s" Finished] cur unfolding rn(2) wake_inv_def by simp
  qed
  ultimately have "sinv ?s" by (simp add: sinv_def)
  then show ?thesis using Sleep_sinv [of ?w t Finished] cur by (simp add: Thread_Finish_def)
qed

lemma Acquire_end_sinv:
  assumes inv: "sinv s" and cur: "currentThread s = Some t" "pc_of s t = Acquired l"
  shows "sinv (Lock_Acquire_end l t s)"
proof -
  let ?s = "Lock_Acquire_end l t s"
  have f: "sems ?s = sems s" "pc_of ?s = (pc_of s)(t := InCode)" "waitinglist ?s = waitinglist s"
    "heldthread ?s = (heldthread s)(l := Some t)" "runnable ?s = runnable s"
    using cur by (simp_all add: Lock_Acquire_end_def set_pc_def runnable_def)
  have rn: "t \<in> set (runnable s)" "runnable s = t # readyList s" using cur by (simp_all add: runnable_def)
  have "placed (runnable ?s) (pc_of ?s) (sems ?s) (waitinglist ?s)"
    unfolding f by (rule placed_pc) (use inv rn in \<open>auto simp: sinv_def\<close>)
  moreover have "accounted (runnable ?s) (pc_of ?s) (sems ?s) (waitinglist ?s)"
    unfolding f by (rule accounted_pc) (use inv rn in \<open>auto simp: sinv_def\<close>)
  moreover have "dead_inv ?s"
    using inv cur by (auto simp: Lock_Acquire_end_def set_pc_def sinv_def dead_inv_def table_inv_def table_of_def)
  moreover have "lock_inv (pc_of ?s) (sem_value (sems ?s (LockSem k))) (heldthread ?s k) k" for k
  proof -
    have k: "lock_inv (pc_of s) (sem_value (sems s (LockSem k))) (heldthread s k) k" using inv by (simp add: sinv_def)
    show ?thesis
    proof (cases "k = l")
      case True
      then show ?thesis using k cur unfolding f by (auto simp: lock_inv_def)
    next
      case False
      then show ?thesis using k cur unfolding f by (simp add: lock_inv_pc)
    qed
  qed
  moreover have "wake_inv (runnable ?s) (pc_of ?s) (sems ?s r) r" for r
  proof -
    have "(\<lambda>u. waits_on (((pc_of s)(t := InCode)) u) r) = (\<lambda>u. waits_on (pc_of s u) r)" using cur by auto
    moreover have "wake_inv (runnable s) (pc_of s) (sems s r) r" using inv by (simp add: sinv_def)
    ultimately show ?thesis unfolding f wake_inv_def by simp
  qed
  ultimately show ?thesis by (simp add: sinv_def)
qed

lemma Thread_frame:
  assumes "Thread_Thread u s = Inr s'"
  shows "\<exists>st l pd. s' = s\<lparr>tstatus := st, GlobalThreadList := l, pid_of := pd\<rparr>"
proof -
  have "s = s\<lparr>pid_of := pid_of s\<rparr>" "s = s\<lparr>GlobalThreadList := GlobalThreadList s, pid_of := pid_of s\<rparr>" by simp_all
  then show ?thesis
    using assms
    by (cases s) (auto simp: Thread_Thread_def GlobalThreadManager_AddNewThreadtoList_def Thread_Destruct_def
        GlobalThreadManager_RemoveThreadFromList_def Let_def split: option.splits prod.splits if_splits)
qed

lemma Fork_sinv:
  assumes inv: "sinv s" and new: "pc_of s u = Finished" "u \<notin> table_of s"
    and th: "Thread_Thread u s = Inr s'" "u \<in> table_of s'"
  shows "sinv (Thread_Fork u s')"
proof -
  obtain st l pd where e: "s' = s\<lparr>tstatus := st, GlobalThreadList := l, pid_of := pd\<rparr>" using Thread_frame [OF th(1)] by blast
  let ?s = "Thread_Fork u s'"
  have cur: "currentThread s \<noteq> Some u" using inv new(1) by (auto simp: sinv_def placed_def runnable_def)
  have tb: "table_inv s'" "table_of s' = insert u (table_of s)"
    using Thread_table [of s u] inv cur new(2) th by (auto simp: sinv_def dead_inv_def split: if_splits)
  have f: "sems ?s = sems s" "pc_of ?s = (pc_of s)(u := Fresh)" "waitinglist ?s = waitinglist s"
    "heldthread ?s = heldthread s" "runnable ?s = runnable s @ [u]"
    by (auto simp: Thread_Fork_def e Scheduler_ReadyToRun_def runnable_def split: option.splits)
  have p: "placed (runnable s) (pc_of s) (sems s) (waitinglist s)" using inv by (simp add: sinv_def)
  have "u \<notin> set (runnable s)" using p new(1) unfolding placed_def by blast
  moreover have "u \<notin> set (sem_queue (sems s r))" for r using p new(1) waits_not unfolding placed_def by metis
  moreover have "u \<notin> set (waitinglist s c)" for c using p new(1) unfolding placed_def by fastforce
  ultimately have "placed (runnable ?s) (pc_of ?s) (sems ?s) (waitinglist ?s)" using p unfolding f placed_def by auto
  moreover have "accounted (runnable ?s) (pc_of ?s) (sems ?s) (waitinglist ?s)"
    using inv unfolding f by (auto simp: sinv_def accounted_def located_def)
  moreover have "dead_inv ?s"
    using inv new tb cur by (auto simp: Thread_Fork_def Scheduler_ReadyToRun_def e sinv_def dead_inv_def table_inv_def table_of_def)
  moreover have "lock_inv (pc_of ?s) (sem_value (sems ?s (LockSem k))) (heldthread ?s k) k" for k
    using inv new unfolding f by (simp add: sinv_def lock_inv_pc)
  moreover have "wake_inv (runnable ?s) (pc_of ?s) (sems ?s r) r" for r
  proof -
    have "(\<lambda>t. waits_on (((pc_of s)(u := Fresh)) t) r) = (\<lambda>t. waits_on (pc_of s t) r)" using new by auto
    moreover have "wake_inv (runnable s) (pc_of s) (sems s r) r" using inv by (simp add: sinv_def)
    ultimately show ?thesis using new unfolding f wake_inv_def by simp
  qed
  ultimately show ?thesis by (simp add: sinv_def)
qed

lemma do_op_sinv:
  assumes "sinv s" "currentThread s = Some t" "pc_of s t = InCode"
  shows "\<exists>s'. do_op x t s = Inr s' \<and> sinv s'"
proof (cases x)
  case (P n)
  then show ?thesis using P_Sem_sinv [OF assms(1,2)] assms(3) by (simp add: do_op_def may_try_def)
next
  case (Acquire l)
  then show ?thesis using Acquire_sinv [OF assms(1,2)] assms(3) by (simp add: do_op_def may_try_def)
next
  case (Release l)
  then show ?thesis using Release_sinv [OF assms(1,2)] by (simp add: do_op_def)
next
  case (Wait c l)
  then show ?thesis using Wait_sinv [OF assms] by (simp add: do_op_def)
next
  case Yield
  then show ?thesis using Yield_sinv [OF assms(1,2)] by (simp add: do_op_def)
next
  case Finish
  then show ?thesis using Finish_sinv [OF assms] by (simp add: do_op_def)
qed (use assms in \<open>simp_all add: do_op_def V_Sem_sinv Signal_sinv Broadcast_sinv\<close>)

lemma resume_sinv:
  assumes "sinv s" "currentThread s = Some t"
  shows "\<exists>s'. resume t s = Inr s' \<and> sinv s'"
proof (cases "pc_of s t")
  case (InP n)
  then show ?thesis using P_Sem_sinv [OF assms] by (simp add: resume_def may_try_def)
next
  case (InAcquire l)
  then show ?thesis using Acquire_sinv [OF assms] by (simp add: resume_def may_try_def)
next
  case (Acquired l)
  then show ?thesis using Acquire_end_sinv [OF assms] by (simp add: resume_def)
next
  case (InWait c l)
  then show ?thesis using Reacquire_sinv [OF assms] by (simp add: resume_def may_try_def)
next
  case (InReacquire c l)
  then show ?thesis using Reacquire_sinv [OF assms] by (simp add: resume_def may_try_def)
qed (use assms in \<open>simp_all add: resume_def\<close>)

lemma step_sinv: "sinv s \<Longrightarrow> step s s' \<Longrightarrow> sinv s'"
proof (erule stepE)
  fix t x
  assume "sinv s" "currentThread s = Some t" "pc_of s t = InCode" "do_op x t s = Inr s'"
  then show "sinv s'" using do_op_sinv [of s t x] by auto
next
  fix t
  assume "sinv s" "currentThread s = Some t" "resume t s = Inr s'"
  then show "sinv s'" using resume_sinv [of s t] by auto
next
  fix t
  assume "sinv s" "currentThread s = Some t" "Thread_Yield t s = Inr s'"
  then show "sinv s'" using Yield_sinv [of s t] by auto
next
  assume "sinv s" "currentThread s = None" "Sleep_wake s = Inr s'"
  then show "sinv s'" using Sleep_wake_sinv [of s] by auto
qed (auto intro: V_Sem_sinv Fork_sinv)

interpretation sync: step_system "\<lambda>s. \<exists>iv t. s = initial iv t" step sinv
  by unfold_locales (auto simp: sinv_initial step_sinv)

lemma reach_sinv: "step\<^sup>*\<^sup>* (initial iv t) s \<Longrightarrow> sinv s"
  by (rule sync.inv_reachable) auto

subsection \<open>A contended lock\<close>

text \<open>
  A run used as an example: thread 0 forks thread 1, takes lock 0 and yields; thread 1 tries the lock
  and sleeps.
\<close>

definition contended :: sync where
  "contended =
     \<lparr>currentThread = Some 0, readyList = [], tstatus = (\<lambda>_. RUNNING)(1 := BLOCKED, 0 := RUNNING),
      pc_of = (\<lambda>_. Finished)(0 := InCode, 1 := InAcquire 0),
      threadToBeDestroyed = None, GlobalThreadList = Some 0 # Some 1 # replicate 126 None, pid_of = [0 \<mapsto> 0, 1 \<mapsto> 1],
      sems = (\<lambda>r. Semaphore_Semaphore (case r of Sem n \<Rightarrow> 0 | LockSem l \<Rightarrow> 1))(LockSem 0 := \<lparr>sem_value = 0, sem_queue = [1]\<rparr>),
      heldthread = [0 \<mapsto> 0], waitinglist = (\<lambda>_. [])\<rparr>"

lemma contended_reachable: "step\<^sup>*\<^sup>* (initial (\<lambda>_. 0) 0) contended"
proof -
  let ?g = "Some 0 # Some 1 # replicate 126 None"
  let ?i = "initial (\<lambda>_. 0) 0"
  let ?t = "?i\<lparr>tstatus := (tstatus ?i)(1 := JUST_CREATED), GlobalThreadList := ?g, pid_of := [0 \<mapsto> 0, 1 \<mapsto> 1]\<rparr>"
  let ?s1 = "Thread_Fork 1 ?t"
  let ?s2 = "set_pc 0 (Acquired 0) (set_sem (LockSem 0) \<lparr>sem_value = 0, sem_queue = []\<rparr> ?s1)"
  let ?s3 = "Lock_Acquire_end 0 0 ?s2"
  let ?s4 = "?s3\<lparr>currentThread := Some 1, readyList := [0], tstatus := (tstatus ?s3)(0 := READY, 1 := RUNNING),
      pc_of := (pc_of ?s3)(1 := InCode)\<rparr>"
  have r: "replicate 127 None = None # replicate 126 (None :: tid option)"
    using replicate_Suc [of 126 "None :: tid option"] by simp
  have "step ?i ?s1"
  proof (rule step.fork [of _ 0])
    show "Thread_Thread 1 ?i = Inr ?t"
      by (simp add: Thread_Thread_def GlobalThreadManager_AddNewThreadtoList_def initial_def r Let_def)
  qed (auto simp: initial_def table_of_def)
  moreover have "step ?s1 ?s2"
    by (rule step.call [of _ 0 "Acquire 0"])
      (auto simp: initial_def Thread_Fork_def Scheduler_ReadyToRun_def do_op_def Lock_Acquire_def Semaphore_P_def
        Semaphore_Semaphore_def set_pc_def set_sem_def)
  moreover have "step ?s2 ?s3"
    by (rule step.go_on [of _ 0])
      (auto simp: initial_def Thread_Fork_def Scheduler_ReadyToRun_def resume_def set_pc_def set_sem_def)
  moreover have "step ?s3 ?s4"
    by (rule step.preempt [of _ 0])
      (auto simp: initial_def Thread_Fork_def Scheduler_ReadyToRun_def Thread_Yield_def Scheduler_FindNextToRun_def
        Scheduler_Run_def Lock_Acquire_end_def set_pc_def set_sem_def)
  moreover have "step ?s4 contended"
    by (rule step.call [of _ 1 "Acquire 0"])
      (auto simp: initial_def Thread_Fork_def Scheduler_ReadyToRun_def do_op_def Lock_Acquire_def Semaphore_P_def
        Semaphore_Semaphore_def Thread_Sleep_def Scheduler_FindNextToRun_def Scheduler_Run_def Lock_Acquire_end_def
        set_pc_def set_sem_def contended_def fun_eq_iff split: semref.splits)
  ultimately show ?thesis by (meson converse_rtranclp_into_rtranclp rtranclp.rtrancl_refl)
qed

subsection \<open>Properties\<close>

definition owns :: "sync \<Rightarrow> nat \<Rightarrow> tid \<Rightarrow> bool" where
  "owns s l t \<longleftrightarrow> heldthread s l = Some t \<or> pc_of s t = Acquired l"

text \<open>
  (C1) Locks exclude each other's owners, whatever the interleaving of threads, timer and interrupt
  handlers: at most one thread is past \<^verbatim>\<open>P\<close> in \<^verbatim>\<open>Acquire\<close> and not yet past \<^verbatim>\<open>Release\<close>, and the lock's
  semaphore is 1 exactly when there is none, else 0.
\<close>

theorem lock_mutual_exclusion:
  assumes "step\<^sup>*\<^sup>* (initial iv m) s"
  shows "(owns s l t \<and> owns s l u \<longrightarrow> t = u)
     \<and> sem_value (sems s (LockSem l)) = (if \<exists>t. owns s l t then 0 else 1)"
proof -
  have "lock_inv (pc_of s) (sem_value (sems s (LockSem l))) (heldthread s l) l"
    using reach_sinv [OF assms] by (simp add: sinv_def)
  then show ?thesis unfolding lock_inv_def owns_def by auto
qed

theorem lock_mutual_exclusion_witness:
  "owns contended 0 0 \<and> \<not> owns contended 0 1 \<and> sem_value (sems contended (LockSem 0)) = 0"
proof -
  have "owns contended 0 0" by (simp add: owns_def contended_def)
  then show ?thesis
    using lock_mutual_exclusion [OF contended_reachable, of 0 0 1] by auto
qed

text \<open>
  (C15) No wake-up is lost: the value of a semaphore is never negative, and as long as threads sleep
  in its queue, every unit of its value has a thread, running or ready, that was woken and will try
  \<^verbatim>\<open>P\<close> again.
\<close>

theorem semaphore_no_lost_wakeup:
  assumes "step\<^sup>*\<^sup>* (initial iv m) s"
  shows "0 \<le> sem_value (sems s r)
     \<and> (sem_queue (sems s r) \<noteq> [] \<longrightarrow>
          sem_value (sems s r) \<le> int (length (filter (\<lambda>t. waits_on (pc_of s t) r) (runnable s))))"
  using reach_sinv [OF assms] by (simp add: sinv_def wake_inv_def)

theorem semaphore_no_lost_wakeup_witness:
  "sem_queue (sems contended (LockSem 0)) = [1]
   \<and> sem_value (sems contended (LockSem 0)) \<le> int (length (filter (\<lambda>t. waits_on (pc_of contended t) (LockSem 0)) [0]))"
proof -
  have "sem_queue (sems contended (LockSem 0)) = [1]" "runnable contended = [0]"
    by (simp_all add: contended_def runnable_def)
  then show ?thesis using semaphore_no_lost_wakeup [OF contended_reachable, of "LockSem 0"] by simp
qed

text \<open>
  (C6) No thread is lost or duplicated: a thread that has not finished is running or ready, or sleeps
  in exactly one queue, the one of the semaphore or condition variable where it waits; no list holds
  a thread twice.
\<close>

theorem thread_in_one_place:
  assumes "step\<^sup>*\<^sup>* (initial iv m) s"
  shows "(pc_of s t \<noteq> Finished \<longrightarrow> t \<in> set (runnable s) \<or> (\<exists>r. t \<in> set (sem_queue (sems s r))) \<or> (\<exists>c. t \<in> set (waitinglist s c)))
     \<and> (t \<in> set (sem_queue (sems s r)) \<longrightarrow> waits_on (pc_of s t) r \<and> t \<notin> set (runnable s)
          \<and> (\<forall>r'. t \<in> set (sem_queue (sems s r')) \<longrightarrow> r' = r) \<and> (\<forall>c. t \<notin> set (waitinglist s c)))
     \<and> (t \<in> set (waitinglist s c) \<longrightarrow> (\<exists>l. pc_of s t = InWait c l) \<and> t \<notin> set (runnable s)
          \<and> (\<forall>c'. t \<in> set (waitinglist s c') \<longrightarrow> c' = c))
     \<and> distinct (runnable s) \<and> distinct (sem_queue (sems s r)) \<and> distinct (waitinglist s c)"
proof -
  have p: "placed (runnable s) (pc_of s) (sems s) (waitinglist s)"
    and a: "accounted (runnable s) (pc_of s) (sems s) (waitinglist s)"
    using reach_sinv [OF assms] by (simp_all add: sinv_def)
  have w: "waits_on (pc_of s t) r \<and> t \<notin> set (runnable s)" if "t \<in> set (sem_queue (sems s r))" for r
    using p that by (simp add: placed_def)
  have v: "(\<exists>l. pc_of s t = InWait c l) \<and> t \<notin> set (runnable s)" if "t \<in> set (waitinglist s c)" for c
    using p that by (simp add: placed_def)
  have "r' = r" if "t \<in> set (sem_queue (sems s r))" "t \<in> set (sem_queue (sems s r'))" for r r'
    using w that waits_unique by blast
  moreover have "c' = c" if "t \<in> set (waitinglist s c)" "t \<in> set (waitinglist s c')" for c c'
    using v [OF that(1)] v [OF that(2)] by auto
  moreover have "t \<notin> set (waitinglist s c)" if "t \<in> set (sem_queue (sems s r))" for r c
    using v w [OF that] waits_not by blast
  moreover have "pc_of s t \<noteq> Finished \<longrightarrow> t \<in> set (runnable s) \<or> (\<exists>r. t \<in> set (sem_queue (sems s r))) \<or> (\<exists>c. t \<in> set (waitinglist s c))"
    using a by (auto simp: accounted_def located_def)
  ultimately show ?thesis using w v p unfolding placed_def by blast
qed

theorem thread_in_one_place_witness:
  "1 \<in> set (sem_queue (sems contended (LockSem 0))) \<and> 1 \<notin> set (runnable contended)
   \<and> 1 \<notin> set (sem_queue (sems contended (Sem 0)))"
proof -
  have "1 \<in> set (sem_queue (sems contended (LockSem 0)))" by (simp add: contended_def)
  then show ?thesis using thread_in_one_place [OF contended_reachable, of 1 "LockSem 0"] by blast
qed



end
