(* ===== verification/Nachos_Disk.thy ===== *)
theory Nachos_Disk
  imports Nachos_Prelude Nachos_Interrupt
begin

text \<open>
  The simulated disk: \<^verbatim>\<open>machine/disk.h\<close>, \<^verbatim>\<open>machine/disk.cc\<close>, and the file primitives of
  \<^verbatim>\<open>machine/sysdep.cc\<close> it is built on.  The disk is a host file with a magic number and 1024
  sectors of 128 bytes; a request is carried out at once on that file, and its completion is a pending
  interrupt of theory Nachos_Interrupt at the time the latency computation gives.  The lemmas show
  that the latency is positive and bounded, that sectors are independent cells, and that only one
  request is outstanding.
\<close>

subsection \<open>Host files\<close>

text \<open>
  An open host file: its bytes and the offset of the next access.  \<^verbatim>\<open>read\<close> returns what is left of
  the file when that is less than asked for, and \<^verbatim>\<open>write\<close> beyond the end fills the gap with zeros.
\<close>

record hostfile =
  hf_bytes :: "8 word list"
  hf_pos :: nat

definition Lseek :: "hostfile \<Rightarrow> int \<Rightarrow> hostfile result" where
  "Lseek f offset = ASSERT (offset \<ge> 0) (Inr (f\<lparr>hf_pos := nat offset\<rparr>))"

definition Read :: "hostfile \<Rightarrow> nat \<Rightarrow> (hostfile \<times> 8 word list) result" where
  "Read f nBytes =
     (let bs = get_bytes (hf_pos f) nBytes (hf_bytes f)
      in ASSERT (length bs = nBytes) (Inr (f\<lparr>hf_pos := hf_pos f + length bs\<rparr>, bs)))"

definition WriteFile :: "hostfile \<Rightarrow> 8 word list \<Rightarrow> hostfile" where
  "WriteFile f bs =
     (let filled = hf_bytes f @ replicate (hf_pos f + length bs - length (hf_bytes f)) 0
      in \<lparr>hf_bytes = put_bytes (hf_pos f) bs filled, hf_pos = hf_pos f + length bs\<rparr>)"

subsection \<open>The device\<close>

abbreviation (input) SectorSize :: int where "SectorSize \<equiv> 128"
abbreviation (input) SectorsPerTrack :: int where "SectorsPerTrack \<equiv> 32"
abbreviation (input) NumSectors :: int where "NumSectors \<equiv> 1024"
abbreviation (input) RotationTime :: int where "RotationTime \<equiv> 500"
abbreviation (input) SeekTime :: int where "SeekTime \<equiv> 500"
abbreviation (input) MagicNumber :: "32 word" where "MagicNumber \<equiv> 0x456789ab"
abbreviation (input) MagicSize :: int where "MagicSize \<equiv> 4"
abbreviation (input) DiskSize :: int where "DiskSize \<equiv> 131076"

record 'h dstate = "'h istate" +
  diskfile :: hostfile
  active :: bool
  lastSector :: int
  bufferInit :: int

text \<open>
  The constructor on the host file of that name, if there is one.  \<open>s\<close> is the interrupt state.
\<close>

definition Disk_Disk :: "8 word list option \<Rightarrow> 'h istate \<Rightarrow> 'h dstate result" where
  "Disk_Disk name s =
     rbind (case name of
              Some bs \<Rightarrow>
                rbind (Read \<lparr>hf_bytes = bs, hf_pos = 0\<rparr> (nat MagicSize)) (\<lambda>(f, m).
                  ASSERT (bytes_words m = [MagicNumber]) (Inr f))
            | None \<Rightarrow>
                (let f = WriteFile \<lparr>hf_bytes = [], hf_pos = 0\<rparr> (bytes4 MagicNumber)
                 in rbind (Lseek f (DiskSize - 4)) (\<lambda>f. Inr (WriteFile f (bytes4 0)))))
       (\<lambda>f. Inr (istate.extend s \<lparr>diskfile = f, active = False, lastSector = 0, bufferInit = 0\<rparr>))"

subsection \<open>Latency\<close>

text \<open>\<^verbatim>\<open>TimeToSeek\<close> returns the seek time and the rotation to the next sector boundary.\<close>

definition Disk_TimeToSeek :: "('h, 'z) dstate_scheme \<Rightarrow> int \<Rightarrow> int \<times> int" where
  "Disk_TimeToSeek s newSector =
     (let newTrack = cdiv newSector SectorsPerTrack;
          oldTrack = cdiv (lastSector s) SectorsPerTrack;
          seek = \<bar>newTrack - oldTrack\<bar> * SeekTime;
          over = cmod (totalTicks (stats s) + seek) RotationTime
      in (seek, if over > 0 then RotationTime - over else 0))"

definition Disk_ModuloDiff :: "int \<Rightarrow> int \<Rightarrow> int" where
  "Disk_ModuloDiff to from =
     (let toOffset = cmod to SectorsPerTrack; fromOffset = cmod from SectorsPerTrack
      in cmod ((toOffset - fromOffset) + SectorsPerTrack) SectorsPerTrack)"

definition Disk_ComputeLatency :: "('h, 'z) dstate_scheme \<Rightarrow> int \<Rightarrow> bool \<Rightarrow> int" where
  "Disk_ComputeLatency s newSector writing =
     (let (seek, rotation) = Disk_TimeToSeek s newSector;
          timeAfter = totalTicks (stats s) + seek + rotation
      in if \<not> writing \<and> seek = 0
            \<and> cdiv (timeAfter - bufferInit s) RotationTime > Disk_ModuloDiff newSector (cdiv (bufferInit s) RotationTime)
         then RotationTime
         else seek + (rotation + Disk_ModuloDiff newSector (cdiv timeAfter RotationTime) * RotationTime) + RotationTime)"

definition Disk_UpdateLast :: "int \<Rightarrow> ('h, 'z) dstate_scheme \<Rightarrow> ('h, 'z) dstate_scheme" where
  "Disk_UpdateLast newSector s =
     (let (seek, rotate) = Disk_TimeToSeek s newSector
      in s\<lparr>bufferInit := (if seek \<noteq> 0 then totalTicks (stats s) + seek + rotate else bufferInit s),
           lastSector := newSector\<rparr>)"

subsection \<open>Requests\<close>

text \<open>\<open>DiskDone\<close> is the handler of the completion interrupt and \<open>this\<close> its argument.\<close>

definition Disk_ReadRequest ::
  "'h \<Rightarrow> int \<Rightarrow> int \<Rightarrow> ('h, 'z) dstate_scheme \<Rightarrow> (('h, 'z) dstate_scheme \<times> 8 word list) result" where
  "Disk_ReadRequest DiskDone this sectorNumber s =
     (let ticks = Disk_ComputeLatency s sectorNumber False in
      ASSERT (\<not> active s) (ASSERT (sectorNumber \<ge> 0 \<and> sectorNumber < NumSectors)
        (rbind (Lseek (diskfile s) (SectorSize * sectorNumber + MagicSize)) (\<lambda>f.
         rbind (Read f (nat SectorSize)) (\<lambda>(f, bs).
         let s = Disk_UpdateLast sectorNumber (s\<lparr>diskfile := f, active := True\<rparr>);
             s = s\<lparr>stats := (stats s)\<lparr>numDiskReads := numDiskReads (stats s) + 1\<rparr>\<rparr>
         in rbind (Interrupt_Schedule DiskDone this ticks DiskInt s) (\<lambda>s. Inr (s, bs)))))))"

definition Disk_WriteRequest ::
  "'h \<Rightarrow> int \<Rightarrow> int \<Rightarrow> 8 word list \<Rightarrow> ('h, 'z) dstate_scheme \<Rightarrow> ('h, 'z) dstate_scheme result" where
  "Disk_WriteRequest DiskDone this sectorNumber bs s =
     (let ticks = Disk_ComputeLatency s sectorNumber True in
      ASSERT (\<not> active s) (ASSERT (sectorNumber \<ge> 0 \<and> sectorNumber < NumSectors)
        (rbind (Lseek (diskfile s) (SectorSize * sectorNumber + MagicSize)) (\<lambda>f.
         if length bs < nat SectorSize then Inl OutOfBounds else
         let f = WriteFile f (take (nat SectorSize) bs);
             s = Disk_UpdateLast sectorNumber (s\<lparr>diskfile := f, active := True\<rparr>);
             s = s\<lparr>stats := (stats s)\<lparr>numDiskWrites := numDiskWrites (stats s) + 1\<rparr>\<rparr>
         in Interrupt_Schedule DiskDone this ticks DiskInt s))))"

text \<open>The completion: \<open>handler\<close> is what the client registered.\<close>

definition Disk_HandleInterrupt ::
  "(('h, 'z) dstate_scheme \<Rightarrow> ('h, 'z) dstate_scheme result) \<Rightarrow> ('h, 'z) dstate_scheme \<Rightarrow> ('h, 'z) dstate_scheme result" where
  "Disk_HandleInterrupt handler s = handler (s\<lparr>active := False\<rparr>)"

subsection \<open>Sectors\<close>

definition sector :: "('h, 'z) dstate_scheme \<Rightarrow> int \<Rightarrow> 8 word list" where
  "sector s n = get_bytes (nat (SectorSize * n + MagicSize)) 128 (hf_bytes (diskfile s))"

definition disk_ok :: "('h, 'z) dstate_scheme \<Rightarrow> bool" where
  "disk_ok s \<longleftrightarrow> length (hf_bytes (diskfile s)) = nat DiskSize \<and> 0 \<le> lastSector s \<and> lastSector s < NumSectors
     \<and> 0 \<le> totalTicks (stats s) \<and> 0 \<le> bufferInit s"

lemma length_sector [simp]: "disk_ok s \<Longrightarrow> 0 \<le> n \<Longrightarrow> n < NumSectors \<Longrightarrow> length (sector s n) = 128"
  by (simp add: sector_def disk_ok_def)

lemma ModuloDiff_bounds: "0 \<le> a \<Longrightarrow> 0 \<le> b \<Longrightarrow> 0 \<le> Disk_ModuloDiff a b \<and> Disk_ModuloDiff a b < 32"
proof -
  assume "0 \<le> a" "0 \<le> b"
  moreover have "0 \<le> a mod 32 - b mod 32 + 32"
    using pos_mod_bound [of 32 b] pos_mod_sign [of 32 a] by linarith
  ultimately show ?thesis by (simp add: Disk_ModuloDiff_def)
qed

lemma TimeToSeek_bounds:
  assumes "disk_ok s" "0 \<le> n" "n < NumSectors" "Disk_TimeToSeek s n = (seek, rot)"
  shows "0 \<le> seek" "seek \<le> 15500" "0 \<le> rot" "rot < 500"
proof -
  have l: "0 \<le> lastSector s" "lastSector s < 1024" "0 \<le> totalTicks (stats s)"
    using assms(1) by (auto simp: disk_ok_def)
  have "n div 32 < 32" "0 \<le> n div 32" "lastSector s div 32 < 32" "0 \<le> lastSector s div 32"
    using assms(2,3) l by (auto simp: pos_imp_zdiv_nonneg_iff)
  then have a: "\<bar>n div 32 - lastSector s div 32\<bar> \<le> 31" by linarith
  have e: "seek = \<bar>n div 32 - lastSector s div 32\<bar> * 500"
    "rot = (if cmod (totalTicks (stats s) + seek) 500 > 0 then 500 - cmod (totalTicks (stats s) + seek) 500 else 0)"
    using assms(2,4) l by (auto simp: Disk_TimeToSeek_def Let_def)
  show sk: "0 \<le> seek" "seek \<le> 15500" using a unfolding e(1) by simp_all
  then have "cmod (totalTicks (stats s) + seek) 500 = (totalTicks (stats s) + seek) mod 500" using l by simp
  then show "0 \<le> rot" "rot < 500"
    using e(2) pos_mod_bound [of 500 "totalTicks (stats s) + seek"] by (auto split: if_splits)
qed

lemma ComputeLatency_bounds:
  assumes "disk_ok s" "0 \<le> n" "n < NumSectors"
  shows "500 \<le> Disk_ComputeLatency s n w" "Disk_ComputeLatency s n w \<le> 31999"
proof -
  obtain seek rot where t: "Disk_TimeToSeek s n = (seek, rot)" by fastforce
  note b = TimeToSeek_bounds [OF assms t]
  let ?after = "totalTicks (stats s) + seek + rot"
  have "0 \<le> ?after" using b assms(1) by (simp add: disk_ok_def)
  then have "0 \<le> cdiv ?after 500" by (simp add: pos_imp_zdiv_nonneg_iff)
  then have m: "0 \<le> Disk_ModuloDiff n (cdiv ?after 500)" "Disk_ModuloDiff n (cdiv ?after 500) < 32"
    using ModuloDiff_bounds assms(2) by blast+
  show "500 \<le> Disk_ComputeLatency s n w" "Disk_ComputeLatency s n w \<le> 31999"
    unfolding Disk_ComputeLatency_def t Let_def prod.case using b m by auto
qed

text \<open>What a request leaves alone.\<close>

definition same_rest :: "('h, 'z) dstate_scheme \<Rightarrow> ('h, 'z) dstate_scheme \<Rightarrow> bool" where
  "same_rest s s' \<longleftrightarrow> totalTicks (stats s') = totalTicks (stats s) \<and> level s' = level s \<and> inHandler s' = inHandler s
     \<and> yieldOnReturn s' = yieldOnReturn s \<and> status s' = status s \<and> dstate.more s' = dstate.more s"

definition completion :: "'h \<Rightarrow> int \<Rightarrow> int \<Rightarrow> 'h PendingInterrupt" where
  "completion h this w = \<lparr>pi_handler = h, pi_arg = this, pi_when = w, pi_type = DiskInt\<rparr>"

lemma UpdateLast_ok:
  assumes "disk_ok s" "0 \<le> n" "n < NumSectors"
  shows "disk_ok (Disk_UpdateLast n s)" "\<And>k. sector (Disk_UpdateLast n s) k = sector s k"
    "same_rest s (Disk_UpdateLast n s)" "active (Disk_UpdateLast n s) = active s" "pending (Disk_UpdateLast n s) = pending s"
    "stats (Disk_UpdateLast n s) = stats s"
proof -
  obtain seek rot where t: "Disk_TimeToSeek s n = (seek, rot)" by fastforce
  note b = TimeToSeek_bounds [OF assms t]
  show "disk_ok (Disk_UpdateLast n s)" using assms b by (simp add: Disk_UpdateLast_def t disk_ok_def)
qed (auto simp: Disk_UpdateLast_def Let_def sector_def same_rest_def split: prod.splits)

lemma ReadRequest_ok:
  assumes ok: "disk_ok s" and n: "0 \<le> n" "n < NumSectors" and "\<not> active s"
  shows "\<exists>s' w. Disk_ReadRequest h this n s = Inr (s', sector s n) \<and> disk_ok s' \<and> active s' \<and> same_rest s s'
     \<and> (\<forall>k. sector s' k = sector s k) \<and> totalTicks (stats s) < w
     \<and> pending s' = lst_sorted_insert (pending s) (completion h this w) w"
proof -
  let ?f = "(diskfile s)\<lparr>hf_pos := nat (128 * n + 4)\<rparr>"
  let ?g = "?f\<lparr>hf_pos := nat (128 * n + 4) + 128\<rparr>"
  let ?s1 = "Disk_UpdateLast n (s\<lparr>diskfile := ?g, active := True\<rparr>)"
  let ?s2 = "?s1\<lparr>stats := (stats ?s1)\<lparr>numDiskReads := numDiskReads (stats ?s1) + 1\<rparr>\<rparr>"
  let ?t = "Disk_ComputeLatency s n False"
  have rd: "Read ?f 128 = Inr (?g, sector s n)"
    using length_sector [OF ok n] by (simp add: Read_def sector_def Let_def)
  have ok1: "disk_ok (s\<lparr>diskfile := ?g, active := True\<rparr>)" using ok by (simp add: disk_ok_def)
  note u = UpdateLast_ok [OF ok1 n]
  have "0 < ?t" using ComputeLatency_bounds(1) [OF ok n, of False] by simp
  then have "Disk_ReadRequest h this n s =
      Inr (?s2\<lparr>pending := lst_sorted_insert (pending ?s2) (completion h this (now_ticks ?s2 + ?t)) (now_ticks ?s2 + ?t)\<rparr>, sector s n)"
    using assms rd by (simp add: Disk_ReadRequest_def Lseek_def Interrupt_Schedule_def completion_def Let_def)
  moreover have "now_ticks ?s2 = now_ticks s" using u(6) by simp
  ultimately show ?thesis
    using u \<open>0 < ?t\<close> by (auto simp: disk_ok_def same_rest_def sector_def intro!: exI [of _ "now_ticks s + ?t"])
qed

lemma sector_put:
  assumes "length f = 131076" "length bs = 128" "0 \<le> n" "n < NumSectors" "0 \<le> k" "k < NumSectors"
  shows "get_bytes (nat (128 * k + 4)) 128 (put_bytes (nat (128 * n + 4)) bs f)
    = (if k = n then bs else get_bytes (nat (128 * k + 4)) 128 f)"
proof (cases "k = n")
  case True
  then show ?thesis using get_put_same [of "nat (128 * n + 4)" bs f] assms by simp
next
  case False
  have "nat (128 * k + 4) + 128 \<le> nat (128 * n + 4) \<or> nat (128 * n + 4) + 128 \<le> nat (128 * k + 4)"
    using False assms(3,5) by linarith
  then show ?thesis using False assms by (simp add: get_put_other)
qed

lemma WriteRequest_ok:
  assumes ok: "disk_ok s" and n: "0 \<le> n" "n < NumSectors" and "\<not> active s" and bs: "length bs = 128"
  shows "\<exists>s' w. Disk_WriteRequest h this n bs s = Inr s' \<and> disk_ok s' \<and> active s' \<and> same_rest s s'
     \<and> (\<forall>k. 0 \<le> k \<and> k < NumSectors \<longrightarrow> sector s' k = (if k = n then bs else sector s k)) \<and> totalTicks (stats s) < w
     \<and> pending s' = lst_sorted_insert (pending s) (completion h this w) w"
proof -
  let ?f = "(diskfile s)\<lparr>hf_pos := nat (128 * n + 4)\<rparr>"
  let ?g = "\<lparr>hf_bytes = put_bytes (nat (128 * n + 4)) bs (hf_bytes (diskfile s)), hf_pos = nat (128 * n + 4) + 128\<rparr>"
  let ?s1 = "Disk_UpdateLast n (s\<lparr>diskfile := ?g, active := True\<rparr>)"
  let ?s2 = "?s1\<lparr>stats := (stats ?s1)\<lparr>numDiskWrites := numDiskWrites (stats ?s1) + 1\<rparr>\<rparr>"
  let ?t = "Disk_ComputeLatency s n True"
  have len: "length (hf_bytes (diskfile s)) = 131076" "nat (128 * n + 4) + 128 \<le> 131076" using ok n by (auto simp: disk_ok_def)
  have wr: "WriteFile ?f bs = ?g" using len bs by (simp add: WriteFile_def)
  have ok1: "disk_ok (s\<lparr>diskfile := ?g, active := True\<rparr>)" using ok len bs by (simp add: disk_ok_def)
  note u = UpdateLast_ok [OF ok1 n]
  have "0 < ?t" using ComputeLatency_bounds(1) [OF ok n, of True] by simp
  then have "Disk_WriteRequest h this n bs s =
      Inr (?s2\<lparr>pending := lst_sorted_insert (pending ?s2) (completion h this (now_ticks ?s2 + ?t)) (now_ticks ?s2 + ?t)\<rparr>)"
    using assms wr by (simp add: Disk_WriteRequest_def Lseek_def Interrupt_Schedule_def completion_def Let_def)
  moreover have "now_ticks ?s2 = now_ticks s" using u(6) by simp
  moreover have "sector (s\<lparr>diskfile := ?g, active := True\<rparr>) k = (if k = n then bs else sector s k)" if "0 \<le> k" "k < NumSectors" for k
    using sector_put [OF len(1) bs n that] by (simp add: sector_def)
  ultimately show ?thesis
    using u \<open>0 < ?t\<close>
    by (auto simp: disk_ok_def same_rest_def sector_def intro!: exI [of _ "now_ticks s + ?t"])
qed

lemma Disk_Disk_new:
  "\<exists>s'. Disk_Disk None s = Inr s' \<and> \<not> active s' \<and> istate.truncate s' = istate.truncate s
     \<and> (0 \<le> totalTicks (stats s) \<longrightarrow> disk_ok s')
     \<and> (\<forall>k. 0 \<le> k \<and> k < NumSectors \<longrightarrow> sector s' k = replicate 128 0)"
proof -
  let ?b = "bytes4 MagicNumber @ replicate 131072 0"
  let ?d = "istate.extend s \<lparr>diskfile = \<lparr>hf_bytes = ?b, hf_pos = 131076\<rparr>, active = False, lastSector = 0, bufferInit = 0\<rparr>"
  have z: "replicate 131068 0 @ bytes4 0 = replicate 131072 (0 :: 8 word)"
  proof -
    have "bytes4 0 = replicate 4 0" by (simp add: bytes4_def numeral_eq_Suc)
    then show ?thesis using replicate_add [of 131068 4 "0 :: 8 word"] by simp
  qed
  have "WriteFile \<lparr>hf_bytes = bytes4 MagicNumber, hf_pos = 131072\<rparr> (bytes4 0) = \<lparr>hf_bytes = ?b, hf_pos = 131076\<rparr>"
    unfolding z [symmetric] by (simp add: WriteFile_def put_bytes_def Let_def)
  moreover have "WriteFile \<lparr>hf_bytes = [], hf_pos = 0\<rparr> (bytes4 MagicNumber) = \<lparr>hf_bytes = bytes4 MagicNumber, hf_pos = 4\<rparr>"
    by (simp add: WriteFile_def put_bytes_def Let_def)
  ultimately have "Disk_Disk None s = Inr ?d" by (simp add: Disk_Disk_def Lseek_def)
  moreover have "sector ?d k = replicate 128 0" if "0 \<le> k" "k < NumSectors" for k
    using that by (simp add: sector_def get_bytes_def istate.defs min_def)
  ultimately show ?thesis by (auto simp: disk_ok_def istate.defs)
qed

subsection \<open>Properties\<close>

text \<open>
  The latency of every request is at least one sector time and bounded by the longest seek plus
  one rotation: so \<^verbatim>\<open>Schedule\<close>, which insists on a time in the future, accepts every completion
  interrupt.
\<close>

theorem Disk_latency_bounds:
  assumes "disk_ok s" "0 \<le> n" "n < NumSectors"
  shows "500 \<le> Disk_ComputeLatency s n w \<and> Disk_ComputeLatency s n w \<le> 31999
     \<and> Interrupt_Schedule h this (Disk_ComputeLatency s n w) DiskInt s \<noteq> Inl AssertFail"
  using ComputeLatency_bounds [OF assms, of w] by (simp add: Interrupt_Schedule_def Let_def)

theorem Disk_latency_bounds_witness:
  "\<exists>s. Disk_Disk None (Interrupt_Interrupt :: nat istate) = Inr s \<and> 500 \<le> Disk_ComputeLatency s 1023 True
     \<and> Disk_ComputeLatency s 1023 True \<le> 31999"
proof -
  obtain s where "Disk_Disk None (Interrupt_Interrupt :: nat istate) = Inr s" "disk_ok s"
    using Disk_Disk_new [of "Interrupt_Interrupt :: nat istate"]
    by (auto simp: Interrupt_Interrupt_def Statistics_Statistics_def)
  then show ?thesis using Disk_latency_bounds [of s 1023 True] by auto
qed



end
