(* ===== verification/Nachos_SynchDisk.thy ===== *)
theory Nachos_SynchDisk
  imports Nachos_Prelude Nachos_Disk
begin

text \<open>
  The synchronous disk of \<^verbatim>\<open>filesys/synchdisk.h\<close> and \<^verbatim>\<open>filesys/synchdisk.cc\<close>, with its cache of four
  sectors.  An operation holds \<^verbatim>\<open>lock\<close> from start to end, so it is modelled as one function of the
  calling thread, which waits for the completion interrupt while the processor idles (\<^verbatim>\<open>Interrupt::Idle\<close>
  of theory Nachos_Interrupt); that locks exclude each other is shown in theory Nachos_Synch.  The ticks
  that the locks count when they switch interrupts on again are left out.  The lemmas show that reads
  return the disk's contents as long as the cache is coherent, and that a write makes it incoherent.
\<close>

subsection \<open>Data\<close>

datatype dev = DiskDone

record Cache =
  ce_valid :: int
  ce_sector :: int
  ce_data :: "8 word list"

text \<open>\<open>host_time\<close> is what \<^verbatim>\<open>time(NULL)\<close> returns; the file headers record it.\<close>

record sdisk = "dev dstate" +
  dsem :: int
  cache :: "Cache list"
  FiFoPointer :: nat
  rwSem :: "int \<Rightarrow> int"
  readerNum :: "int \<Rightarrow> int"
  visitorNum :: "int \<Rightarrow> int"
  host_time :: "32 word"

text \<open>The four entries of \<^verbatim>\<open>cache\<close> are not initialised: \<open>garbage\<close> is what they hold.\<close>

definition SynchDisk_SynchDisk :: "Cache list \<Rightarrow> 32 word \<Rightarrow> 8 word list option \<Rightarrow> dev istate \<Rightarrow> sdisk result" where
  "SynchDisk_SynchDisk garbage time name s =
     rbind (Disk_Disk name s) (\<lambda>d.
       Inr (dstate.extend d \<lparr>dsem = 0, cache = garbage, FiFoPointer = 0, rwSem = (\<lambda>_. 1), readerNum = (\<lambda>_. 0),
              visitorNum = (\<lambda>_. 0), host_time = time\<rparr>))"

subsection \<open>Waiting for the disk\<close>

definition SynchDisk_RequestDone :: "sdisk \<Rightarrow> sdisk result" where
  "SynchDisk_RequestDone s = Inr (s\<lparr>dsem := dsem s + 1\<rparr>)"

text \<open>The only device of this kernel is the disk.\<close>

definition dispatch_disk :: "dev PendingInterrupt \<Rightarrow> sdisk \<Rightarrow> sdisk result" where
  "dispatch_disk p s = (case pi_handler p of DiskDone \<Rightarrow> Disk_HandleInterrupt SynchDisk_RequestDone s)"

text \<open>
  The loop of \<^verbatim>\<open>semaphore->P()\<close> for the only runnable thread: asleep, the processor idles until an
  interrupt handler calls \<^verbatim>\<open>V\<close>.
\<close>

partial_function (option) wait_sem :: "sdisk \<Rightarrow> sdisk result option" where
  "wait_sem s =
     (if dsem s = 0
      then (case Interrupt_Idle dispatch_disk Inr s of
              None \<Rightarrow> None
            | Some r \<Rightarrow> (case r of Inl e \<Rightarrow> Some (Inl e) | Inr s \<Rightarrow> wait_sem s))
      else Some (Inr (s\<lparr>dsem := dsem s - 1\<rparr>)))"

definition semaphore_P :: "sdisk \<Rightarrow> sdisk result" where
  "semaphore_P s =
     (let oldLevel = level s in
      case wait_sem (s\<lparr>level := IntOff\<rparr>) of
        None \<Rightarrow> Inl Blocked
      | Some r \<Rightarrow> rbind r (\<lambda>s. Inr (s\<lparr>level := oldLevel\<rparr>)))"

subsection \<open>Reading and writing sectors\<close>

fun cache_find :: "Cache list \<Rightarrow> int \<Rightarrow> nat \<Rightarrow> nat option" where
  "cache_find [] n i = None"
| "cache_find (e # es) n i = (if ce_valid e = 1 \<and> ce_sector e = n then Some i else cache_find es n (Suc i))"

definition SynchDisk_ReadSector :: "int \<Rightarrow> sdisk \<Rightarrow> (sdisk \<times> 8 word list) result" where
  "SynchDisk_ReadSector sectorNumber s =
     (case cache_find (cache s) sectorNumber 0 of
        None \<Rightarrow>
          rbind (Disk_ReadRequest DiskDone 0 sectorNumber s) (\<lambda>(s, data).
          let s = s\<lparr>cache := (cache s)[FiFoPointer s := \<lparr>ce_valid = 1, ce_sector = sectorNumber, ce_data = data\<rparr>],
                    FiFoPointer := (FiFoPointer s + 1) mod 4\<rparr>
          in rbind (semaphore_P s) (\<lambda>s. Inr (s, data)))
      | Some i \<Rightarrow>
          let data = ce_data (cache s ! i) in
          rbind (Disk_HandleInterrupt SynchDisk_RequestDone s) (\<lambda>s.
          rbind (semaphore_P s) (\<lambda>s. Inr (s, data))))"

definition SynchDisk_WriteSector :: "int \<Rightarrow> 8 word list \<Rightarrow> sdisk \<Rightarrow> sdisk result" where
  "SynchDisk_WriteSector sectorNumber data s =
     rbind (Disk_WriteRequest DiskDone 0 sectorNumber data s) semaphore_P"

subsection \<open>Readers and writers of a file\<close>

text \<open>
  \<^verbatim>\<open>readerWtiterSemap[sector]->P()\<close> by the only runnable thread: with the value 0 nothing would wake it.
\<close>

definition rw_P :: "int \<Rightarrow> sdisk \<Rightarrow> sdisk result" where
  "rw_P n s = (if rwSem s n = 0 then Inl Blocked else Inr (s\<lparr>rwSem := (rwSem s)(n := rwSem s n - 1)\<rparr>))"

definition rw_V :: "int \<Rightarrow> sdisk \<Rightarrow> sdisk" where
  "rw_V n s = s\<lparr>rwSem := (rwSem s)(n := rwSem s n + 1)\<rparr>"

definition in_sectors :: "int \<Rightarrow> 'a result \<Rightarrow> 'a result" where
  "in_sectors n r = (if 0 \<le> n \<and> n < NumSectors then r else Inl OutOfBounds)"

definition SynchDisk_SynchReaderStart :: "int \<Rightarrow> sdisk \<Rightarrow> sdisk result" where
  "SynchDisk_SynchReaderStart n s =
     in_sectors n
       (let s = s\<lparr>readerNum := (readerNum s)(n := readerNum s n + 1)\<rparr>
        in if readerNum s n = 1 then rw_P n s else Inr s)"

definition SynchDisk_SynchReaderExit :: "int \<Rightarrow> sdisk \<Rightarrow> sdisk result" where
  "SynchDisk_SynchReaderExit n s =
     in_sectors n
       (let s = s\<lparr>readerNum := (readerNum s)(n := readerNum s n - 1)\<rparr>
        in Inr (if readerNum s n = 0 then rw_V n s else s))"

definition SynchDisk_SynchWriterStart :: "int \<Rightarrow> sdisk \<Rightarrow> sdisk result" where
  "SynchDisk_SynchWriterStart n s = in_sectors n (rw_P n s)"

definition SynchDisk_SynchWriterExit :: "int \<Rightarrow> sdisk \<Rightarrow> sdisk result" where
  "SynchDisk_SynchWriterExit n s = in_sectors n (Inr (rw_V n s))"

subsection \<open>The disk interrupt arrives\<close>

text \<open>No request is outstanding and nothing else is pending.\<close>

definition quiet :: "sdisk \<Rightarrow> bool" where
  "quiet s \<longleftrightarrow> disk_ok s \<and> \<not> active s \<and> dsem s = 0 \<and> pending s = [] \<and> length (cache s) = 4 \<and> FiFoPointer s < 4"

text \<open>What the upper layers see: sectors, cache and the per-file counters.\<close>

definition fs_frame :: "sdisk \<Rightarrow> sdisk \<Rightarrow> bool" where
  "fs_frame s s' \<longleftrightarrow> rwSem s' = rwSem s \<and> readerNum s' = readerNum s \<and> visitorNum s' = visitorNum s \<and> host_time s' = host_time s"

lemma fs_frame_refl [simp]: "fs_frame s s"
  and fs_frame_trans: "fs_frame s s' \<Longrightarrow> fs_frame s' s'' \<Longrightarrow> fs_frame s s''"
  by (auto simp: fs_frame_def)

lemma due_loop_empty:
  "pending s = [] \<Longrightarrow> level s = IntOff \<Longrightarrow> due_loop d l s = Some (Inr s)"
  by (subst due_loop.simps) (simp add: Interrupt_CheckIfDue_def)

lemma Idle_disk:
  assumes "pending s = [(w, completion DiskDone 0 w)]" "level s = IntOff" "totalTicks (stats s) < w"
  shows "Interrupt_Idle dispatch_disk Inr s =
    Some (Inr (s\<lparr>stats := (stats s)\<lparr>idleTicks := idleTicks (stats s) + (w - totalTicks (stats s)), totalTicks := w\<rparr>,
       pending := [], inHandler := False, yieldOnReturn := False, status := SystemMode, active := False, dsem := dsem s + 1\<rparr>))"
  using assms
  by (simp add: Interrupt_Idle_def Interrupt_CheckIfDue_def fire_def dispatch_disk_def completion_def
      Disk_HandleInterrupt_def SynchDisk_RequestDone_def Let_def due_loop_empty)

lemma semaphore_P_waits:
  assumes "pending s = [(w, completion DiskDone 0 w)]" "totalTicks (stats s) < w" "dsem s = 0"
  shows "\<exists>s'. semaphore_P s = Inr s' \<and> pending s' = [] \<and> \<not> active s' \<and> dsem s' = 0 \<and> totalTicks (stats s') = w
     \<and> diskfile s' = diskfile s \<and> lastSector s' = lastSector s \<and> bufferInit s' = bufferInit s
     \<and> cache s' = cache s \<and> FiFoPointer s' = FiFoPointer s \<and> fs_frame s s'"
  using assms
  by (subst semaphore_P_def, subst wait_sem.simps, subst Idle_disk [of _ w])
    (auto simp: wait_sem.simps Let_def fs_frame_def)

lemma semaphore_P_ready:
  "dsem s = 1 \<Longrightarrow> semaphore_P s = Inr (s\<lparr>dsem := 0\<rparr>)"
  by (simp add: semaphore_P_def wait_sem.simps Let_def)

subsection \<open>What a read returns\<close>

definition cached :: "sdisk \<Rightarrow> int \<Rightarrow> bool" where
  "cached s n \<longleftrightarrow> cache_find (cache s) n 0 \<noteq> None"

definition view :: "sdisk \<Rightarrow> int \<Rightarrow> 8 word list" where
  "view s n = (case cache_find (cache s) n 0 of None \<Rightarrow> sector s n | Some i \<Rightarrow> ce_data (cache s ! i))"

lemma cache_find_Some:
  "cache_find es n i = Some j \<Longrightarrow> \<exists>k. j = i + k \<and> k < length es \<and> ce_valid (es ! k) = 1 \<and> ce_sector (es ! k) = n"
proof (induction es n i arbitrary: j rule: cache_find.induct)
  case (2 e es n i)
  show ?case
  proof (cases "ce_valid e = 1 \<and> ce_sector e = n")
    case False
    then obtain k where "j = Suc i + k" "k < length es" "ce_valid (es ! k) = 1" "ce_sector (es ! k) = n"
      using 2 by auto
    then show ?thesis by (auto intro!: exI [of _ "Suc k"])
  qed (use 2 in auto)
qed simp

lemma cache_find_None: "cache_find es n i = None \<longleftrightarrow> (\<forall>e\<in>set es. \<not> (ce_valid e = 1 \<and> ce_sector e = n))"
  by (induction es n i rule: cache_find.induct) auto

lemma more_fields:
  assumes "dstate.more s' = dstate.more (s :: sdisk)"
  shows "dsem s' = dsem s" "cache s' = cache s" "FiFoPointer s' = FiFoPointer s" "fs_frame s s'"
  using assms by (cases s, cases s', simp add: fs_frame_def)+

lemma ReadSector_hit: "quiet s \<Longrightarrow> cached s n \<Longrightarrow> SynchDisk_ReadSector n s = Inr (s, view s n)"
proof (cases "cache_find (cache s) n 0")
  case (Some i)
  assume q: "quiet s"
  let ?s1 = "s\<lparr>active := False, dsem := 1\<rparr>"
  have "Disk_HandleInterrupt SynchDisk_RequestDone s = Inr ?s1"
    using q by (simp add: Disk_HandleInterrupt_def SynchDisk_RequestDone_def quiet_def)
  moreover have "?s1\<lparr>dsem := 0\<rparr> = s" using q by (simp add: quiet_def)
  ultimately show ?thesis
    using Some by (simp add: SynchDisk_ReadSector_def view_def semaphore_P_ready Let_def)
qed (simp add: cached_def)

lemma ReadSector_ok:
  assumes q: "quiet s" and n: "0 \<le> n" "n < NumSectors"
  shows "\<exists>s'. SynchDisk_ReadSector n s = Inr (s', view s n) \<and> quiet s' \<and> fs_frame s s'
     \<and> (\<forall>k. sector s' k = sector s k)
     \<and> cache s' = (if cached s n then cache s
                   else (cache s)[FiFoPointer s := \<lparr>ce_valid = 1, ce_sector = n, ce_data = sector s n\<rparr>])
     \<and> FiFoPointer s' = (if cached s n then FiFoPointer s else (FiFoPointer s + 1) mod 4)"
proof (cases "cache_find (cache s) n 0")
  case None
  obtain s1 w where s1: "Disk_ReadRequest DiskDone 0 n s = Inr (s1, sector s n)" "disk_ok s1" "same_rest s s1"
      "\<And>k. sector s1 k = sector s k" "totalTicks (stats s) < w" "pending s1 = [(w, completion DiskDone 0 w)]"
    using ReadRequest_ok [of s n DiskDone 0] q n by (auto simp: quiet_def)
  have m: "dsem s1 = 0" "cache s1 = cache s" "FiFoPointer s1 = FiFoPointer s" "fs_frame s s1" "totalTicks (stats s1) < w"
    using s1(3,5) q more_fields [of s1 s] by (simp_all add: same_rest_def quiet_def)
  let ?s2 = "s1\<lparr>cache := (cache s1)[FiFoPointer s1 := \<lparr>ce_valid = 1, ce_sector = n, ce_data = sector s n\<rparr>],
      FiFoPointer := (FiFoPointer s1 + 1) mod 4\<rparr>"
  obtain s' where s': "semaphore_P ?s2 = Inr s'" "pending s' = []" "\<not> active s'" "dsem s' = 0" "totalTicks (stats s') = w"
      "diskfile s' = diskfile s1" "lastSector s' = lastSector s1" "bufferInit s' = bufferInit s1"
      "cache s' = cache ?s2" "FiFoPointer s' = FiFoPointer ?s2" "fs_frame ?s2 s'"
    using semaphore_P_waits [of ?s2 w] s1(6) m(1,5) by auto
  have "disk_ok s'" using s1(2) s' m(5) by (simp add: disk_ok_def)
  then have "quiet s'" using s' q m by (simp add: quiet_def)
  moreover have "sector s' k = sector s k" for k using s'(6) s1(4) [of k] by (simp add: sector_def)
  moreover have "fs_frame s s'" using s'(11) m(4) by (simp add: fs_frame_def)
  ultimately show ?thesis
    using None s1(1) s' m by (simp add: SynchDisk_ReadSector_def view_def cached_def)
next
  case (Some i)
  then have "cached s n" by (simp add: cached_def)
  then show ?thesis using q ReadSector_hit [OF q] by auto
qed

lemma WriteSector_ok:
  assumes q: "quiet s" and n: "0 \<le> n" "n < NumSectors" and bs: "length bs = 128"
  shows "\<exists>s'. SynchDisk_WriteSector n bs s = Inr s' \<and> quiet s' \<and> fs_frame s s'
     \<and> (\<forall>k. 0 \<le> k \<and> k < NumSectors \<longrightarrow> sector s' k = (if k = n then bs else sector s k))
     \<and> cache s' = cache s \<and> FiFoPointer s' = FiFoPointer s"
proof -
  obtain s1 w where s1: "Disk_WriteRequest DiskDone 0 n bs s = Inr s1" "disk_ok s1" "same_rest s s1"
      "\<And>k. 0 \<le> k \<Longrightarrow> k < NumSectors \<Longrightarrow> sector s1 k = (if k = n then bs else sector s k)"
      "totalTicks (stats s) < w" "pending s1 = [(w, completion DiskDone 0 w)]"
    using WriteRequest_ok [of s n bs DiskDone 0] q n bs by (auto simp: quiet_def)
  have m: "dsem s1 = 0" "cache s1 = cache s" "FiFoPointer s1 = FiFoPointer s" "fs_frame s s1" "totalTicks (stats s1) < w"
    using s1(3,5) q more_fields [of s1 s] by (simp_all add: same_rest_def quiet_def)
  obtain s' where s': "semaphore_P s1 = Inr s'" "pending s' = []" "\<not> active s'" "dsem s' = 0" "totalTicks (stats s') = w"
      "diskfile s' = diskfile s1" "lastSector s' = lastSector s1" "bufferInit s' = bufferInit s1"
      "cache s' = cache s1" "FiFoPointer s' = FiFoPointer s1" "fs_frame s1 s'"
    using semaphore_P_waits [of s1 w] s1(6) m(1,5) by auto
  have "disk_ok s'" using s1(2) s' m(5) by (simp add: disk_ok_def)
  then have "quiet s'" using s' q m by (simp add: quiet_def)
  moreover have "sector s' k = sector s1 k" for k using s'(6) by (simp add: sector_def)
  moreover have "fs_frame s s'" using s'(11) m(4) by (simp add: fs_frame_def)
  ultimately show ?thesis
    using s1(1,4) s' m by (simp add: SynchDisk_WriteSector_def)
qed

text \<open>What a request that returned has done, whatever sector was asked for.\<close>

lemma ReadSector_inv:
  assumes "quiet s" "SynchDisk_ReadSector n s = Inr (s', bs)"
  shows "bs = view s n \<and> quiet s' \<and> fs_frame s s' \<and> (\<forall>k. sector s' k = sector s k)
     \<and> cache s' = (if cached s n then cache s
                   else (cache s)[FiFoPointer s := \<lparr>ce_valid = 1, ce_sector = n, ce_data = sector s n\<rparr>])
     \<and> FiFoPointer s' = (if cached s n then FiFoPointer s else (FiFoPointer s + 1) mod 4)"
proof (cases "cached s n")
  case True
  then show ?thesis using ReadSector_hit [OF assms(1) True] assms by auto
next
  case False
  then have "0 \<le> n" "n < NumSectors"
    using assms(2) by (auto simp: cached_def SynchDisk_ReadSector_def Disk_ReadRequest_def Let_def)
  from ReadSector_ok [OF assms(1) this] show ?thesis using assms(2) by auto
qed

lemma WriteSector_inv:
  assumes "quiet s" "SynchDisk_WriteSector n bs s = Inr s'" "length bs = 128"
  shows "quiet s' \<and> fs_frame s s' \<and> cache s' = cache s \<and> FiFoPointer s' = FiFoPointer s"
proof -
  have "0 \<le> n" "n < NumSectors"
    using assms(2) by (auto simp: SynchDisk_WriteSector_def Disk_WriteRequest_def Let_def)
  from WriteSector_ok [OF assms(1) this assms(3)] show ?thesis using assms(2) by auto
qed

subsection \<open>Coherence\<close>

definition coherent :: "sdisk \<Rightarrow> bool" where
  "coherent s \<longleftrightarrow> (\<forall>e\<in>set (cache s). ce_valid e = 1 \<longrightarrow> ce_data e = sector s (ce_sector e))"

lemma coherent_view: "coherent s \<Longrightarrow> view s n = sector s n"
proof (cases "cache_find (cache s) n 0")
  case (Some i)
  assume "coherent s"
  then show ?thesis using Some cache_find_Some [OF Some] by (auto simp: view_def coherent_def)
qed (simp add: view_def)

lemma uncached_view: "\<not> cached s n \<Longrightarrow> view s n = sector s n"
  by (auto simp: cached_def view_def)

lemma ReadSector_coherent_ok:
  assumes "quiet s" "coherent s" "0 \<le> n" "n < NumSectors"
  shows "\<exists>s'. SynchDisk_ReadSector n s = Inr (s', sector s n) \<and> quiet s' \<and> coherent s' \<and> fs_frame s s'
     \<and> (\<forall>k. sector s' k = sector s k) \<and> cached s' n"
proof -
  obtain s' where s': "SynchDisk_ReadSector n s = Inr (s', view s n)" "quiet s'" "fs_frame s s'" "\<And>k. sector s' k = sector s k"
    "cache s' = (if cached s n then cache s
                   else (cache s)[FiFoPointer s := \<lparr>ce_valid = 1, ce_sector = n, ce_data = sector s n\<rparr>])"
    using ReadSector_ok [OF assms(1,3,4)] by blast
  let ?e = "\<lparr>ce_valid = 1, ce_sector = n, ce_data = sector s n\<rparr>"
  have sub: "set (cache s') \<subseteq> insert ?e (set (cache s))" using s'(5) by (auto dest: set_update_subset_insert [THEN subsetD])
  have "coherent s'"
  proof (unfold coherent_def, intro ballI impI)
    fix e
    assume "e \<in> set (cache s')" "ce_valid e = 1"
    then have "e = ?e \<or> e \<in> set (cache s)" using sub by blast
    then show "ce_data e = sector s' (ce_sector e)"
      using assms(2) s'(4) \<open>ce_valid e = 1\<close> by (auto simp: coherent_def)
  qed
  moreover have "cached s' n"
  proof (cases "cached s n")
    case True
    then show ?thesis using s'(5) by (simp add: cached_def)
  next
    case False
    have "?e \<in> set (cache s')"
      using False s'(5) assms(1) by (simp add: quiet_def set_update_memI)
    then show ?thesis unfolding cached_def cache_find_None by force
  qed
  ultimately show ?thesis using s' coherent_view [OF assms(2)] by auto
qed

lemma cached_ReadSector:
  assumes "quiet s" "0 \<le> n" "n < NumSectors" "SynchDisk_ReadSector n s = Inr (s', bs)"
  shows "cached s' n" "view s' n = bs" "bs = view s n"
proof -
  let ?e = "\<lparr>ce_valid = 1, ce_sector = n, ce_data = sector s n\<rparr>"
  have r: "bs = view s n" "cache s' = (if cached s n then cache s else (cache s)[FiFoPointer s := ?e])" "FiFoPointer s < length (cache s)"
    using ReadSector_ok [OF assms(1-3)] assms(1,4) by (auto simp: quiet_def)
  show "bs = view s n" by (fact r(1))
  have "cached s' n \<and> view s' n = bs"
  proof (cases "cached s n")
    case True
    then show ?thesis using r by (auto simp: cached_def view_def)
  next
    case False
    have "?e \<in> set (cache s')" using False r by (simp add: set_update_memI)
    then have c: "cached s' n" unfolding cached_def cache_find_None by force
    then obtain i where i: "cache_find (cache s') n 0 = Some i" by (auto simp: cached_def)
    then have "cache s' ! i \<in> set (cache s')" "ce_valid (cache s' ! i) = 1 \<and> ce_sector (cache s' ! i) = n"
      using cache_find_Some [OF i] by auto
    moreover have "\<forall>e\<in>set (cache s). \<not> (ce_valid e = 1 \<and> ce_sector e = n)"
      using False by (simp add: cached_def cache_find_None)
    moreover have "set (cache s') \<subseteq> insert ?e (set (cache s))"
      using r(2) False by (auto dest: set_update_subset_insert [THEN subsetD])
    ultimately have "cache s' ! i = ?e" by blast
    then show ?thesis using c i r(1) uncached_view [OF False] by (simp add: view_def)
  qed
  then show "cached s' n" "view s' n = bs" by auto
qed

subsection \<open>The interface for readers\<close>

text \<open>
  What the file layers rely on when they read: a sector read returns the contents of the sector and
  changes neither them nor what later reads return.
\<close>

fun read_seq :: "(int \<Rightarrow> 's \<Rightarrow> ('s \<times> 8 word list) result) \<Rightarrow> int list \<Rightarrow> 's \<Rightarrow> ('s \<times> 8 word list) result" where
  "read_seq rd [] s = Inr (s, [])"
| "read_seq rd (n # ns) s = rbind (rd n s) (\<lambda>(s, bs). rbind (read_seq rd ns s) (\<lambda>(s, cs). Inr (s, bs @ cs)))"

locale sector_reader =
  fixes rd :: "int \<Rightarrow> 's \<Rightarrow> ('s \<times> 8 word list) result"
    and ok :: "'s \<Rightarrow> bool"
    and contents :: "'s \<Rightarrow> int \<Rightarrow> 8 word list"
    and frame :: "'s \<Rightarrow> 's \<Rightarrow> bool"
  assumes rd_ok: "ok s \<Longrightarrow> 0 \<le> n \<Longrightarrow> n < NumSectors \<Longrightarrow>
      \<exists>s'. rd n s = Inr (s', contents s n) \<and> ok s' \<and> frame s s' \<and> (\<forall>k. contents s' k = contents s k)"
    and frame_refl: "frame s s"
    and frame_trans: "frame s s' \<Longrightarrow> frame s' s'' \<Longrightarrow> frame s s''"
    and contents_length: "ok s \<Longrightarrow> 0 \<le> n \<Longrightarrow> n < NumSectors \<Longrightarrow> length (contents s n) = 128"
begin

lemma read_seq_ok:
  "ok s \<Longrightarrow> \<forall>n\<in>set ns. 0 \<le> n \<and> n < NumSectors \<Longrightarrow>
   \<exists>s'. read_seq rd ns s = Inr (s', concat (map (contents s) ns)) \<and> ok s' \<and> frame s s'
     \<and> (\<forall>k. contents s' k = contents s k)"
proof (induction ns arbitrary: s)
  case (Cons n ns)
  obtain s1 where s1: "rd n s = Inr (s1, contents s n)" "ok s1" "frame s s1" "\<And>k. contents s1 k = contents s k"
    using rd_ok [of s n] Cons.prems by auto
  obtain s2 where s2: "read_seq rd ns s1 = Inr (s2, concat (map (contents s1) ns))" "ok s2" "frame s1 s2"
      "\<And>k. contents s2 k = contents s1 k"
    using Cons.IH [OF s1(2)] Cons.prems by auto
  have "contents s1 = contents s" using s1(4) by auto
  then show ?case using s1(1) s2 frame_trans [OF s1(3) s2(3)] by auto
qed (simp add: frame_refl)

lemma length_read: "ok s \<Longrightarrow> \<forall>n\<in>set ns. 0 \<le> n \<and> n < NumSectors \<Longrightarrow> length (concat (map (contents s) ns)) = 128 * length ns"
  by (induction ns) (simp_all add: contents_length)

end

interpretation sd: sector_reader SynchDisk_ReadSector "\<lambda>s. quiet s \<and> coherent s" sector fs_frame
proof unfold_locales
  fix s :: sdisk and n
  assume "quiet s \<and> coherent s" "0 \<le> n" "n < NumSectors"
  then show "\<exists>s'. SynchDisk_ReadSector n s = Inr (s', sector s n) \<and> (quiet s' \<and> coherent s') \<and> fs_frame s s'
      \<and> (\<forall>k. sector s' k = sector s k)"
    using ReadSector_coherent_ok [of s n] by auto
qed (auto intro: fs_frame_trans simp: quiet_def)

subsection \<open>Properties\<close>

text \<open>A new disk with an empty cache.\<close>

abbreviation (input) no_cache :: "Cache list" where
  "no_cache \<equiv> replicate 4 \<lparr>ce_valid = 0, ce_sector = 0, ce_data = []\<rparr>"

lemma new_disk:
  "\<exists>s. SynchDisk_SynchDisk no_cache t None Interrupt_Interrupt = Inr s \<and> quiet s \<and> coherent s
     \<and> (\<forall>k. 0 \<le> k \<and> k < NumSectors \<longrightarrow> sector s k = replicate 128 0) \<and> rwSem s = (\<lambda>_. 1) \<and> readerNum s = (\<lambda>_. 0)
     \<and> cache s = no_cache"
proof -
  obtain d :: "dev dstate" where d: "Disk_Disk None Interrupt_Interrupt = Inr d" "\<not> active d"
      "istate.truncate d = istate.truncate (Interrupt_Interrupt :: dev istate)" "disk_ok d"
      "\<And>k. 0 \<le> k \<Longrightarrow> k < NumSectors \<Longrightarrow> sector d k = replicate 128 0"
    using Disk_Disk_new [of "Interrupt_Interrupt :: dev istate"] by (auto simp: Interrupt_Interrupt_def Statistics_Statistics_def)
  have "pending d = []" using d(3) by (simp add: istate.truncate_def Interrupt_Interrupt_def)
  then show ?thesis
    using d by (auto simp: SynchDisk_SynchDisk_def quiet_def coherent_def disk_ok_def sector_def dstate.defs)
qed

text \<open>
  (C24) Reading a sector through the cache: when every valid cache entry agrees with the disk, a read
  completes (the completion interrupt arrives while the processor idles), returns the sector's
  contents, keeps the cache in agreement and leaves the sector cached, so that reading it again
  returns the same; no sector changes.
\<close>

theorem ReadSector_reads:
  assumes "quiet s" "coherent s" "0 \<le> n" "n < NumSectors"
  shows "\<exists>s' s''. SynchDisk_ReadSector n s = Inr (s', sector s n) \<and> quiet s' \<and> coherent s' \<and> cached s' n
     \<and> (\<forall>k. sector s' k = sector s k) \<and> SynchDisk_ReadSector n s' = Inr (s'', sector s n)"
proof -
  obtain s' where s': "SynchDisk_ReadSector n s = Inr (s', sector s n)" "quiet s'" "coherent s'" "cached s' n"
      "\<forall>k. sector s' k = sector s k"
    using ReadSector_coherent_ok [OF assms] by blast
  moreover obtain s'' where "SynchDisk_ReadSector n s' = Inr (s'', sector s' n)"
    using ReadSector_coherent_ok [OF s'(2,3) assms(3,4)] by blast
  ultimately show ?thesis by auto
qed

theorem ReadSector_reads_witness:
  "\<exists>s s'. SynchDisk_SynchDisk no_cache 0 None Interrupt_Interrupt = Inr s
     \<and> SynchDisk_ReadSector 7 s = Inr (s', replicate 128 0) \<and> cached s' 7"
proof -
  obtain s where s: "SynchDisk_SynchDisk no_cache 0 None Interrupt_Interrupt = Inr s" "quiet s" "coherent s"
      "sector s 7 = replicate 128 0"
    using new_disk [of 0] by auto
  then show ?thesis using ReadSector_reads [OF s(2,3), of 7] by auto
qed

text \<open>
  (C30) Writes bypass the cache: after a sector has been read, writing other data to it changes the
  disk but the next read still returns the old data.
\<close>

theorem WriteSector_leaves_stale_cache:
  assumes "quiet s" "0 \<le> n" "n < NumSectors" "length bs = 128"
    and "SynchDisk_ReadSector n s = Inr (s1, old)"
  shows "\<exists>s2 s3. SynchDisk_WriteSector n bs s1 = Inr s2 \<and> sector s2 n = bs
     \<and> SynchDisk_ReadSector n s2 = Inr (s3, old)"
proof -
  have q1: "quiet s1" using ReadSector_ok [OF assms(1-3)] assms(5) by auto
  obtain s2 where s2: "SynchDisk_WriteSector n bs s1 = Inr s2" "quiet s2" "sector s2 n = bs" "cache s2 = cache s1"
    using WriteSector_ok [OF q1 assms(2-4)] assms(2,3) by auto
  obtain i where "cache_find (cache s1) n 0 = Some i" "view s1 n = old"
    using cached_ReadSector [OF assms(1-3,5)] by (auto simp: cached_def)
  then have "view s2 n = old" using s2(4) by (simp add: view_def)
  then show ?thesis using ReadSector_ok [OF s2(2) assms(2,3)] s2 by auto
qed

theorem WriteSector_leaves_stale_cache_witness:
  "\<exists>s s1 s2 s3. SynchDisk_SynchDisk no_cache 0 None Interrupt_Interrupt = Inr s
     \<and> SynchDisk_ReadSector 7 s = Inr (s1, replicate 128 0)
     \<and> SynchDisk_WriteSector 7 (replicate 128 1) s1 = Inr s2 \<and> sector s2 7 = replicate 128 1
     \<and> SynchDisk_ReadSector 7 s2 = Inr (s3, replicate 128 0)"
proof -
  obtain s where s: "SynchDisk_SynchDisk no_cache 0 None Interrupt_Interrupt = Inr s" "quiet s" "coherent s"
      "sector s 7 = replicate 128 0"
    using new_disk [of 0] by auto
  obtain s1 where s1: "SynchDisk_ReadSector 7 s = Inr (s1, replicate 128 0)"
    using ReadSector_coherent_ok [OF s(2,3), of 7] s(4) by auto
  then show ?thesis using WriteSector_leaves_stale_cache [OF s(2) _ _ _ s1, of "replicate 128 1"] s(1) by auto
qed

end
