(* ===== verification/Nachos_FileHdr.thy ===== *)
theory Nachos_FileHdr
  imports Nachos_Prelude Nachos_Bitmap Nachos_SynchDisk
begin

text \<open>
  File headers: \<^verbatim>\<open>filesys/filehdr.h\<close> and \<^verbatim>\<open>filesys/filehdr.cc\<close>.  A header is one sector: six words and
  26 sector numbers, the last of which may name an index block of 32 more.  Arrays are lists with the
  access outside them made visible.  The lemmas show what allocation does to the free map and that
  deallocation undoes it, that a header survives being written and read, and which sector a byte of the
  file is looked up in.
\<close>

subsection \<open>Data\<close>

abbreviation (input) NumDirect :: int where "NumDirect \<equiv> 26"

record FileHeader =
  createTime :: "32 word"
  lastVistTime :: "32 word"
  lastModifyTime :: "32 word"
  hdrSector :: int
  numBytes :: int
  numSectors :: int
  dataSectors :: "int list"

definition array_get :: "'a list \<Rightarrow> int \<Rightarrow> 'a result" where
  "array_get xs i = (if 0 \<le> i \<and> i < int (length xs) then Inr (xs ! nat i) else Inl OutOfBounds)"

definition array_put :: "'a list \<Rightarrow> int \<Rightarrow> 'a \<Rightarrow> 'a list result" where
  "array_put xs i v = (if 0 \<le> i \<and> i < int (length xs) then Inr (xs[nat i := v]) else Inl OutOfBounds)"

text \<open>The image of a header in memory and on disk.\<close>

definition hdr_bytes :: "FileHeader \<Rightarrow> 8 word list" where
  "hdr_bytes h = words_bytes ([createTime h, lastVistTime h, lastModifyTime h, word_of_int (hdrSector h),
     word_of_int (numBytes h), word_of_int (numSectors h)] @ map word_of_int (dataSectors h))"

definition bytes_hdr :: "8 word list \<Rightarrow> FileHeader" where
  "bytes_hdr bs =
     (let ws = bytes_words bs
      in \<lparr>createTime = ws ! 0, lastVistTime = ws ! 1, lastModifyTime = ws ! 2, hdrSector = sint (ws ! 3),
          numBytes = sint (ws ! 4), numSectors = sint (ws ! 5), dataSectors = map sint (take 26 (drop 6 ws))\<rparr>)"

definition FileHeader_SetCreatTime :: "sdisk \<Rightarrow> FileHeader \<Rightarrow> FileHeader" where
  "FileHeader_SetCreatTime s h = h\<lparr>createTime := host_time s\<rparr>"

definition FileHeader_SetLastVisitTime :: "sdisk \<Rightarrow> FileHeader \<Rightarrow> FileHeader" where
  "FileHeader_SetLastVisitTime s h = h\<lparr>lastVistTime := host_time s\<rparr>"

definition FileHeader_SetLastModifyTime :: "sdisk \<Rightarrow> FileHeader \<Rightarrow> FileHeader" where
  "FileHeader_SetLastModifyTime s h = h\<lparr>lastModifyTime := host_time s\<rparr>"

subsection \<open>Allocation\<close>

fun run_fill :: "int list \<Rightarrow> int \<Rightarrow> int list \<Rightarrow> int list result" where
  "run_fill arr freeSpace [] = Inr arr"
| "run_fill arr freeSpace (i # is) = rbind (array_put arr i (freeSpace + i)) (\<lambda>arr. run_fill arr freeSpace is)"

fun find_fill :: "bitmap \<Rightarrow> int list \<Rightarrow> int list \<Rightarrow> (bitmap \<times> int list) result" where
  "find_fill freeMap arr [] = Inr (freeMap, arr)"
| "find_fill freeMap arr (i # is) =
     rbind (BitMap_Find freeMap) (\<lambda>(freeMap, v).
     rbind (array_put arr i v) (\<lambda>arr. find_fill freeMap arr is))"

text \<open>
  \<open>stack\<close> is what the uninitialised array \<^verbatim>\<open>secondIndex[32]\<close> holds.
\<close>

definition FileHeader_Allocate ::
  "int list \<Rightarrow> bitmap \<Rightarrow> int \<Rightarrow> FileHeader \<Rightarrow> sdisk \<Rightarrow> (sdisk \<times> bitmap \<times> FileHeader \<times> bool) result" where
  "FileHeader_Allocate stack freeMap fileSize h s =
     (let h = FileHeader_SetLastModifyTime s (FileHeader_SetLastVisitTime s (FileHeader_SetCreatTime s h));
          h = h\<lparr>numBytes := fileSize, numSectors := divRoundUp fileSize SectorSize\<rparr>
      in rbind (BitMap_NumClear freeMap) (\<lambda>free.
         if free < numSectors h then Inr (s, freeMap, h, False)
         else if numSectors h \<le> NumDirect then
           rbind (BitMap_FirstFind freeMap (numSectors h)) (\<lambda>(freeMap, freeSpace).
           if freeSpace \<noteq> - 1
           then rbind (run_fill (dataSectors h) freeSpace [0..numSectors h - 1]) (\<lambda>ds.
                  Inr (s, freeMap, h\<lparr>dataSectors := ds\<rparr>, True))
           else rbind (find_fill freeMap (dataSectors h) [0..numSectors h - 1]) (\<lambda>(freeMap, ds).
                  Inr (s, freeMap, h\<lparr>dataSectors := ds\<rparr>, True)))
         else
           rbind (find_fill freeMap (dataSectors h) [0..NumDirect - 2]) (\<lambda>(freeMap, ds).
           rbind (find_fill freeMap ds [NumDirect - 1]) (\<lambda>(freeMap, ds).
           rbind (find_fill freeMap stack [0..numSectors h - NumDirect]) (\<lambda>(freeMap, secondIndex).
           rbind (array_get ds (NumDirect - 1)) (\<lambda>index.
           rbind (SynchDisk_WriteSector index (words_bytes (map word_of_int secondIndex)) s) (\<lambda>s.
             Inr (s, freeMap, h\<lparr>dataSectors := ds\<rparr>, True))))))))"

fun dealloc_loop :: "bitmap \<Rightarrow> int list \<Rightarrow> int list \<Rightarrow> bitmap result" where
  "dealloc_loop freeMap arr [] = Inr freeMap"
| "dealloc_loop freeMap arr (i # is) =
     rbind (array_get arr i) (\<lambda>n.
     rbind (BitMap_Test freeMap n) (\<lambda>t.
     ASSERT t (rbind (BitMap_Clear freeMap n) (\<lambda>freeMap. dealloc_loop freeMap arr is))))"

fun clear_direct :: "bitmap \<Rightarrow> int list \<Rightarrow> int list \<Rightarrow> bitmap result" where
  "clear_direct freeMap arr [] = Inr freeMap"
| "clear_direct freeMap arr (i # is) =
     rbind (array_get arr i) (\<lambda>n. rbind (BitMap_Clear freeMap n) (\<lambda>freeMap. clear_direct freeMap arr is))"

text \<open>\<^verbatim>\<open>(int) secondIndex[i * 4]\<close> of a \<^verbatim>\<open>char\<close> array: the lowest byte of entry \<open>i\<close>, with its sign.\<close>

definition index_entry :: "8 word list \<Rightarrow> int \<Rightarrow> int result" where
  "index_entry bs i = rbind (array_get bs (i * 4)) (\<lambda>b. Inr (sint b))"

fun clear_index :: "bitmap \<Rightarrow> 8 word list \<Rightarrow> int list \<Rightarrow> bitmap result" where
  "clear_index freeMap bs [] = Inr freeMap"
| "clear_index freeMap bs (i # is) =
     rbind (index_entry bs i) (\<lambda>n. rbind (BitMap_Clear freeMap n) (\<lambda>freeMap. clear_index freeMap bs is))"

definition FileHeader_Deallocate :: "bitmap \<Rightarrow> FileHeader \<Rightarrow> sdisk \<Rightarrow> (sdisk \<times> bitmap) result" where
  "FileHeader_Deallocate freeMap h s =
     (if numSectors h \<le> NumDirect
      then rbind (dealloc_loop freeMap (dataSectors h) [0..numSectors h - 1]) (\<lambda>freeMap. Inr (s, freeMap))
      else
        rbind (array_get (dataSectors h) (NumDirect - 1)) (\<lambda>index.
        rbind (SynchDisk_ReadSector index s) (\<lambda>(s, secondIndex).
        rbind (clear_index freeMap secondIndex [0..numSectors h - NumDirect]) (\<lambda>freeMap.
        rbind (clear_direct freeMap (dataSectors h) [0..NumDirect - 1]) (\<lambda>freeMap.
          Inr (s, freeMap))))))"

subsection \<open>Headers on disk\<close>

definition FileHeader_FetchFrom :: "int \<Rightarrow> sdisk \<Rightarrow> (sdisk \<times> FileHeader) result" where
  "FileHeader_FetchFrom n s =
     rbind (SynchDisk_ReadSector n s) (\<lambda>(s, bs). Inr (s, FileHeader_SetLastVisitTime s (bytes_hdr bs)))"

definition FileHeader_WriteBack :: "int \<Rightarrow> FileHeader \<Rightarrow> sdisk \<Rightarrow> (sdisk \<times> FileHeader) result" where
  "FileHeader_WriteBack n h s =
     (let h = (FileHeader_SetLastModifyTime s h)\<lparr>hdrSector := n\<rparr>
      in rbind (SynchDisk_WriteSector n (hdr_bytes h) s) (\<lambda>s. Inr (s, h)))"

subsection \<open>Looking up and extending\<close>

definition FileHeader_ByteToSector :: "int \<Rightarrow> FileHeader \<Rightarrow> sdisk \<Rightarrow> (sdisk \<times> int) result" where
  "FileHeader_ByteToSector offset h s =
     (if offset < SectorSize * (NumDirect - 1)
      then rbind (array_get (dataSectors h) (cdiv offset SectorSize)) (\<lambda>n. Inr (s, n))
      else
        let secondIndexPosition = cdiv (offset - SectorSize * (NumDirect - 1)) SectorSize in
        rbind (array_get (dataSectors h) (NumDirect - 1)) (\<lambda>index.
        rbind (SynchDisk_ReadSector index s) (\<lambda>(s, secondIndex).
        rbind (index_entry secondIndex secondIndexPosition) (\<lambda>n. Inr (s, n)))))"

definition FileHeader_FileLength :: "FileHeader \<Rightarrow> int" where
  "FileHeader_FileLength h = numBytes h"

text \<open>
  The loop of \<^verbatim>\<open>ExtendFile\<close> returns in its first round; with no round the function ends without a
  \<^verbatim>\<open>return\<close>.
\<close>

definition FileHeader_ExtendFile :: "bitmap \<Rightarrow> int \<Rightarrow> FileHeader \<Rightarrow> (bitmap \<times> FileHeader \<times> bool) result" where
  "FileHeader_ExtendFile freeMap bytes h =
     (let newFileLength = numBytes h + bytes;
          preSectorNum = numSectors h;
          newNumSectors = divRoundUp newFileLength SectorSize
      in if newNumSectors = preSectorNum then Inr (freeMap, h\<lparr>numBytes := newFileLength\<rparr>, True)
         else rbind (BitMap_NumClear freeMap) (\<lambda>free.
           if free < newNumSectors - preSectorNum then Inr (freeMap, h, False)
           else if preSectorNum < newNumSectors then
             rbind (BitMap_Find freeMap) (\<lambda>(freeMap, temp).
             rbind (array_put (dataSectors h) preSectorNum temp) (\<lambda>ds.
               Inr (freeMap, h\<lparr>dataSectors := ds, numBytes := newFileLength, numSectors := newNumSectors\<rparr>, True)))
           else Inl NoReturnValue))"

subsection \<open>Printing a file\<close>

text \<open>
  What \<^verbatim>\<open>Print\<close> writes after the line with the size: numbers of blocks and index entries, labels of sectors,
  and the data as characters or in hexadecimal.  The times, which go through \<^verbatim>\<open>localtime\<close>, are left out.
\<close>

datatype print_item = Block int | IndexBlock int | IndexEntry int | SectorLine int | Char "8 word" | Hex "8 word" | NewLine

definition show_byte :: "8 word \<Rightarrow> print_item" where
  "show_byte c = (if 32 \<le> sint c \<and> sint c \<le> 126 then Char c else Hex c)"

definition show_data :: "FileHeader \<Rightarrow> int \<Rightarrow> 8 word list \<Rightarrow> print_item list \<times> int" where
  "show_data h k bs =
     (let m = max 0 (min SectorSize (numBytes h - k)) in (map show_byte (take (nat m) bs) @ [NewLine], k + m))"

fun print_blocks :: "int list \<Rightarrow> int list \<Rightarrow> print_item list result" where
  "print_blocks arr [] = Inr []"
| "print_blocks arr (i # is) =
     rbind (array_get arr i) (\<lambda>n. rbind (print_blocks arr is) (\<lambda>out. Inr (Block n # out)))"

fun print_entries :: "8 word list \<Rightarrow> int list \<Rightarrow> print_item list result" where
  "print_entries idx [] = Inr []"
| "print_entries idx (i # is) =
     rbind (index_entry idx i) (\<lambda>n. rbind (print_entries idx is) (\<lambda>out. Inr (IndexEntry n # out)))"

text \<open>\<open>entry i\<close> is the sector of the \<open>i\<close>th block; \<open>k\<close> counts the bytes printed.\<close>

fun print_data :: "bool \<Rightarrow> (int \<Rightarrow> int result) \<Rightarrow> FileHeader \<Rightarrow> int list \<Rightarrow> int \<Rightarrow> sdisk \<Rightarrow> (sdisk \<times> int \<times> print_item list) result" where
  "print_data label entry h [] k s = Inr (s, k, [])"
| "print_data label entry h (i # is) k s =
     rbind (entry i) (\<lambda>n.
     rbind (SynchDisk_ReadSector n s) (\<lambda>(s, bs).
     let (out, k) = show_data h k bs in
     rbind (print_data label entry h is k s) (\<lambda>(s, k, outs).
       Inr (s, k, (if label then [SectorLine n] else []) @ out @ outs))))"

definition print_index :: "FileHeader \<Rightarrow> sdisk \<Rightarrow> (sdisk \<times> print_item list) result" where
  "print_index h s =
     (if numSectors h \<le> NumDirect - 1
      then rbind (print_blocks (dataSectors h) [0..numSectors h - 1]) (\<lambda>out. Inr (s, out))
      else
        rbind (print_blocks (dataSectors h) [0..NumDirect - 2]) (\<lambda>out.
        rbind (array_get (dataSectors h) (NumDirect - 1)) (\<lambda>index.
        rbind (SynchDisk_ReadSector index s) (\<lambda>(s, secondIndex).
        rbind (print_entries secondIndex [0..numSectors h - NumDirect]) (\<lambda>entries.
          Inr (s, out @ IndexBlock index # entries))))))"

definition FileHeader_Print :: "FileHeader \<Rightarrow> sdisk \<Rightarrow> (sdisk \<times> print_item list) result" where
  "FileHeader_Print h s =
     rbind (print_index h s) (\<lambda>(s, head).
     if numSectors h \<le> NumDirect - 1
     then rbind (print_data False (array_get (dataSectors h)) h [0..numSectors h - 1] 0 s) (\<lambda>(s, k, out).
            Inr (s, head @ out))
     else
       rbind (print_data True (array_get (dataSectors h)) h [0..NumDirect - 2] 0 s) (\<lambda>(s, k, direct).
       rbind (array_get (dataSectors h) (NumDirect - 1)) (\<lambda>index.
       rbind (SynchDisk_ReadSector index s) (\<lambda>(s, secondIndex).
       rbind (print_data True (index_entry secondIndex) h [0..numSectors h - NumDirect] k s) (\<lambda>(s, k, out).
         Inr (s, head @ direct @ out))))))"

definition FileHeader_GetCreatTime :: "FileHeader \<Rightarrow> 32 word" where
  "FileHeader_GetCreatTime h = createTime h"

definition FileHeader_GetLastVistTime :: "FileHeader \<Rightarrow> 32 word" where
  "FileHeader_GetLastVistTime h = lastVistTime h"

definition FileHeader_GetLastModifyTime :: "FileHeader \<Rightarrow> 32 word" where
  "FileHeader_GetLastModifyTime h = lastModifyTime h"

subsection \<open>Headers in memory and on disk\<close>

definition hdr_ok :: "FileHeader \<Rightarrow> bool" where
  "hdr_ok h \<longleftrightarrow> length (dataSectors h) = 26 \<and> fits32 (hdrSector h) \<and> fits32 (numBytes h) \<and> fits32 (numSectors h)
     \<and> (\<forall>d\<in>set (dataSectors h). fits32 d)"

lemma length_hdr_bytes [simp]: "length (dataSectors h) = 26 \<Longrightarrow> length (hdr_bytes h) = 128"
  by (simp add: hdr_bytes_def)

lemma bytes_hdr_bytes: "hdr_ok h \<Longrightarrow> bytes_hdr (hdr_bytes h) = h"
proof -
  assume ok: "hdr_ok h"
  let ?ws = "[createTime h, lastVistTime h, lastModifyTime h, word_of_int (hdrSector h),
     word_of_int (numBytes h), word_of_int (numSectors h)] @ map word_of_int (dataSectors h)"
  have "map sint (map word_of_int (dataSectors h) :: 32 word list) = dataSectors h"
    using ok by (auto simp: hdr_ok_def sint_of_int intro!: map_idI)
  moreover have "bytes_words (hdr_bytes h) = ?ws" unfolding hdr_bytes_def by (rule bytes_words_id)
  ultimately show ?thesis
    using ok unfolding bytes_hdr_def Let_def by (simp add: hdr_ok_def sint_of_int)
qed

lemma FetchFrom_ok:
  assumes "quiet s" "0 \<le> n" "n < NumSectors" "view s n = hdr_bytes h" "hdr_ok h"
  shows "\<exists>s'. FileHeader_FetchFrom n s = Inr (s', h\<lparr>lastVistTime := host_time s\<rparr>) \<and> quiet s' \<and> fs_frame s s'
     \<and> (\<forall>k. sector s' k = sector s k)"
proof -
  obtain s' where s': "SynchDisk_ReadSector n s = Inr (s', view s n)" "quiet s'" "fs_frame s s'" "\<forall>k. sector s' k = sector s k"
    using ReadSector_ok [OF assms(1-3)] by blast
  then show ?thesis
    using assms(4,5) by (simp add: FileHeader_FetchFrom_def bytes_hdr_bytes FileHeader_SetLastVisitTime_def fs_frame_def)
qed

subsection \<open>Allocation and deallocation\<close>

lemma run_fill_ok:
  assumes "n \<le> int (length arr)" "0 \<le> k"
  shows "\<exists>arr'. run_fill arr fs [k..n - 1] = Inr arr' \<and> length arr' = length arr
     \<and> (\<forall>i<length arr. arr' ! i = (if k \<le> int i \<and> int i < n then fs + int i else arr ! i))"
  using assms
proof (induction "nat (n - k)" arbitrary: arr k)
  case 0
  then show ?case by simp
next
  case (Suc m)
  then have k: "k < n" "[k..n - 1] = k # [k + 1..n - 1]" using upto_rec1 [of k "n - 1"] by simp_all
  have m: "m = nat (n - (k + 1))" using Suc.hyps(2) by simp
  let ?a = "arr[nat k := fs + k]"
  have "array_put arr k (fs + k) = Inr ?a" using k Suc.prems by (simp add: array_put_def)
  moreover obtain arr' where "run_fill ?a fs [k + 1..n - 1] = Inr arr'" "length arr' = length ?a"
      "\<forall>i<length ?a. arr' ! i = (if k + 1 \<le> int i \<and> int i < n then fs + int i else ?a ! i)"
    using Suc.hyps(1) [OF m, of ?a] Suc.prems k by auto
  ultimately show ?case
    using k Suc.prems by (auto simp: nth_list_update)
qed

lemma dealloc_loop_ok:
  assumes "bitmap_ok bm" "set is \<subseteq> {0..<int (length arr)}" "distinct (map (\<lambda>i. arr ! nat i) is)"
    "(\<lambda>i. arr ! nat i) ` set is \<subseteq> bits_of bm"
  shows "\<exists>bm'. dealloc_loop bm arr is = Inr bm' \<and> bitmap_ok bm' \<and> numBits bm' = numBits bm
     \<and> bits_of bm' = bits_of bm - (\<lambda>i. arr ! nat i) ` set is"
  using assms
proof (induction "is" arbitrary: bm)
  case (Cons i "is")
  let ?n = "arr ! nat i"
  have n: "?n \<in> bits_of bm" "0 \<le> ?n" "?n < numBits bm" using Cons.prems by (auto simp: bits_of_def)
  let ?bm = "bm_update bm ?n False"
  have b: "bits_of ?bm = bits_of bm - {?n}" using bits_of_bm_update [OF Cons.prems(1) n(2,3)] by simp
  have step: "dealloc_loop bm arr (i # is) = dealloc_loop ?bm arr is"
    using Cons.prems n by (simp add: array_get_def BitMap_Test_ok BitMap_Clear_ok)
  have sub: "(\<lambda>i. arr ! nat i) ` set is \<subseteq> bits_of ?bm" using Cons.prems(3,4) unfolding b by (metis Diff_empty distinct.simps(2) image_set insert_subset list.map(2) list.set(2) subset_Diff_insert)
  have "\<exists>bm'. dealloc_loop ?bm arr is = Inr bm' \<and> bitmap_ok bm' \<and> numBits bm' = numBits ?bm
     \<and> bits_of bm' = bits_of ?bm - (\<lambda>i. arr ! nat i) ` set is"
    using Cons.prems sub by (intro Cons.IH) auto
  then show ?case using b step by auto
qed simp

lemma Allocate_direct:
  assumes bm: "bitmap_ok freeMap" "\<exists>i. free_run freeMap n i" and n: "n = divRoundUp fileSize SectorSize" "1 \<le> n" "n \<le> 26"
    and h: "length (dataSectors h) = 26"
  shows "\<exists>fm h' i. FileHeader_Allocate stack freeMap fileSize h s = Inr (s, fm, h', True) \<and> free_run freeMap n i
     \<and> bitmap_ok fm \<and> numBits fm = numBits freeMap \<and> bits_of fm = bits_of freeMap \<union> {i..<i + n}
     \<and> numBytes h' = fileSize \<and> numSectors h' = n \<and> length (dataSectors h') = 26
     \<and> (\<forall>j<26. dataSectors h' ! j = (if int j < n then i + int j else dataSectors h ! j))"
proof -
  obtain fm i where f: "BitMap_FirstFind freeMap n = Inr (fm, i)" "free_run freeMap n i" "bitmap_ok fm"
      "numBits fm = numBits freeMap" "bits_of fm = bits_of freeMap \<union> {i..<i + n}"
    using BitMap_FirstFind_run [OF bm(1) n(2) bm(2)] by blast
  have "{i..<i + n} \<subseteq> {0..<numBits freeMap} - bits_of freeMap" using f(2) by (auto simp: free_run_def)
  then have "n \<le> int (card ({0..<numBits freeMap} - bits_of freeMap))"
    using card_mono [of "{0..<numBits freeMap} - bits_of freeMap" "{i..<i + n}"] n(2) by simp
  then obtain c where c: "BitMap_NumClear freeMap = Inr c" "n \<le> c" using bm.num_clear_eq [OF bm(1)] by auto
  have i: "i \<noteq> - 1" using f(2) by (auto simp: free_run_def)
  obtain ds where "run_fill (dataSectors h) i [0..n - 1] = Inr ds" "length ds = 26"
      "\<forall>j<26. ds ! j = (if int j < n then i + int j else dataSectors h ! j)"
    using run_fill_ok [of n "dataSectors h" 0 i] n h by auto
  then show ?thesis
    using c f i n unfolding FileHeader_Allocate_def Let_def
    by (auto simp: FileHeader_SetCreatTime_def FileHeader_SetLastVisitTime_def FileHeader_SetLastModifyTime_def)
qed

lemma Deallocate_direct:
  assumes "bitmap_ok fm" "numSectors h = n" "n \<le> 26" "length (dataSectors h) = 26"
    "\<forall>j<26. int j < n \<longrightarrow> dataSectors h ! j = i + int j" "{i..<i + n} \<subseteq> bits_of fm"
  shows "\<exists>fm'. FileHeader_Deallocate fm h s = Inr (s, fm') \<and> bitmap_ok fm' \<and> numBits fm' = numBits fm
     \<and> bits_of fm' = bits_of fm - {i..<i + n}"
proof -
  have e: "dataSectors h ! nat j = i + j" if "j \<in> set [0..n - 1]" for j
    using assms(3,5) that by (auto dest: spec [of _ "nat j"])
  then have m: "map (\<lambda>j. dataSectors h ! nat j) [0..n - 1] = map (\<lambda>j. i + j) [0..n - 1]"
    and im: "(\<lambda>j. dataSectors h ! nat j) ` set [0..n - 1] = {i..<i + n}"
    using run_image [of i n] by (auto intro!: map_cong)
  have sub: "{0..n - 1} \<subseteq> {0..<26}" using assms(3) by auto
  obtain fm' where "dealloc_loop fm (dataSectors h) [0..n - 1] = Inr fm'" "bitmap_ok fm'" "numBits fm' = numBits fm"
      "bits_of fm' = bits_of fm - {i..<i + n}"
    using dealloc_loop_ok [OF assms(1), of "[0..n - 1]" "dataSectors h"] assms(3,4,6) sub unfolding m im
    by (auto simp: distinct_map)
  then show ?thesis using assms by (simp add: FileHeader_Deallocate_def)
qed

subsection \<open>Lookup\<close>

lemma ByteToSector_direct:
  "0 \<le> offset \<Longrightarrow> offset < 3200 \<Longrightarrow> length (dataSectors h) = 26 \<Longrightarrow>
   FileHeader_ByteToSector offset h s = Inr (s, dataSectors h ! nat (offset div 128))"
  by (simp add: FileHeader_ByteToSector_def array_get_def pos_imp_zdiv_nonneg_iff)

lemma ByteToSector_index:
  assumes "quiet s" "length (dataSectors h) = 26" "0 \<le> dataSectors h ! 25" "dataSectors h ! 25 < NumSectors" "j < 32"
    "length (view s (dataSectors h ! 25)) = 128"
  shows "\<exists>s'. FileHeader_ByteToSector (3200 + 128 * int j) h s = Inr (s', sint (view s (dataSectors h ! 25) ! (4 * j)))
     \<and> quiet s' \<and> fs_frame s s' \<and> (\<forall>k. sector s' k = sector s k)"
proof -
  let ?n = "dataSectors h ! 25"
  obtain s' where s': "SynchDisk_ReadSector ?n s = Inr (s', view s ?n)" "quiet s'" "fs_frame s s'" "\<forall>k. sector s' k = sector s k"
    using ReadSector_ok [OF assms(1,3,4)] by blast
  moreover have "index_entry (view s ?n) (int j) = Inr (sint (view s ?n ! (4 * j)))"
    using assms(5,6) by (simp add: index_entry_def array_get_def nat_mult_distrib mult.commute)
  ultimately show ?thesis using assms(2) by (simp add: FileHeader_ByteToSector_def array_get_def)
qed

lemma nth_words_bytes: "j < length ws \<Longrightarrow> words_bytes ws ! (4 * j) = ucast (ws ! j)"
proof (induction ws arbitrary: j)
  case (Cons w ws)
  then show ?case by (cases j) (simp_all add: words_bytes_def bytes4_def)
qed simp

lemma WriteBack_ok:
  assumes "quiet s" "0 \<le> n" "n < NumSectors" "length (dataSectors h) = 26"
  shows "\<exists>s'. FileHeader_WriteBack n h s = Inr (s', h\<lparr>lastModifyTime := host_time s, hdrSector := n\<rparr>) \<and> quiet s' \<and> fs_frame s s'
     \<and> (\<forall>k. 0 \<le> k \<and> k < NumSectors \<longrightarrow> sector s' k =
          (if k = n then hdr_bytes (h\<lparr>lastModifyTime := host_time s, hdrSector := n\<rparr>) else sector s k))
     \<and> cache s' = cache s \<and> FiFoPointer s' = FiFoPointer s"
  using WriteSector_ok [OF assms(1-3), of "hdr_bytes (h\<lparr>lastModifyTime := host_time s, hdrSector := n\<rparr>)"] assms(4)
  by (auto simp: FileHeader_WriteBack_def FileHeader_SetLastModifyTime_def)

subsection \<open>Properties\<close>

text \<open>
  (C28) Creating and deleting a file of up to 26 sectors: when the free map has a run of clear bits of
  that length, \<^verbatim>\<open>Allocate\<close> succeeds, the file gets consecutive sectors that were free, exactly those
  become marked, and \<^verbatim>\<open>Deallocate\<close> with the same header frees exactly them again.
\<close>

theorem Allocate_Deallocate:
  assumes "bitmap_ok freeMap" "n = divRoundUp fileSize SectorSize" "1 \<le> n" "n \<le> NumDirect"
    "\<exists>i. free_run freeMap n i" "length (dataSectors h) = 26"
  shows "\<exists>fm h' i fm'. FileHeader_Allocate stack freeMap fileSize h s = Inr (s, fm, h', True) \<and> free_run freeMap n i
     \<and> take (nat n) (dataSectors h') = [i..i + n - 1] \<and> numBytes h' = fileSize
     \<and> bits_of fm = bits_of freeMap \<union> {i..<i + n}
     \<and> FileHeader_Deallocate fm h' s = Inr (s, fm') \<and> bits_of fm' = bits_of freeMap"
proof -
  obtain fm h' i where a: "FileHeader_Allocate stack freeMap fileSize h s = Inr (s, fm, h', True)" "free_run freeMap n i"
      "bitmap_ok fm" "bits_of fm = bits_of freeMap \<union> {i..<i + n}" "numBytes h' = fileSize" "numSectors h' = n"
      "length (dataSectors h') = 26"
      "\<forall>j<26. dataSectors h' ! j = (if int j < n then i + int j else dataSectors h ! j)"
    using Allocate_direct [OF assms(1,5,2,3,4,6)] by blast
  obtain fm' where d: "FileHeader_Deallocate fm h' s = Inr (s, fm')" "bits_of fm' = bits_of fm - {i..<i + n}"
    using Deallocate_direct [OF a(3,6) _ a(7), of i s] assms(4) a(4,8) by auto
  have "take (nat n) (dataSectors h') = [i..i + n - 1]"
    by (rule nth_equalityI) (use a(7,8) assms(3,4) in auto)
  moreover have "bits_of fm' = bits_of freeMap" using d(2) a(2,4) by (auto simp: free_run_def)
  ultimately show ?thesis using a d(1) by blast
qed

theorem Allocate_Deallocate_witness:
  "\<forall>s. \<exists>fm h' i fm'. FileHeader_Allocate [] example_bitmap 300
       \<lparr>createTime = 0, lastVistTime = 0, lastModifyTime = 0, hdrSector = 0, numBytes = 0, numSectors = 0,
        dataSectors = replicate 26 0\<rparr> s = Inr (s, fm, h', True)
     \<and> FileHeader_Deallocate fm h' s = Inr (s, fm') \<and> bits_of fm' = {0, 1, 2, 5}"
proof
  fix s
  have n: "3 = divRoundUp 300 SectorSize" by (simp add: divRoundUp_def)
  have "free_run example_bitmap 3 6"
    by (auto simp: free_run_def example_bitmap_numBits example_bitmap_bits)
  then have "\<exists>i. free_run example_bitmap 3 i" by blast
  then show "\<exists>fm h' i fm'. FileHeader_Allocate [] example_bitmap 300
       \<lparr>createTime = 0, lastVistTime = 0, lastModifyTime = 0, hdrSector = 0, numBytes = 0, numSectors = 0,
        dataSectors = replicate 26 0\<rparr> s = Inr (s, fm, h', True)
     \<and> FileHeader_Deallocate fm h' s = Inr (s, fm') \<and> bits_of fm' = {0, 1, 2, 5}"
    using Allocate_Deallocate [OF example_bitmap_ok n, of "\<lparr>createTime = 0, lastVistTime = 0, lastModifyTime = 0,
        hdrSector = 0, numBytes = 0, numSectors = 0, dataSectors = replicate 26 0\<rparr>" "[]" s]
    unfolding example_bitmap_bits by auto
qed

text \<open>
  (C33) The second-level lookup loses sector numbers: the entries of the index block are read as signed
  characters.  For byte \<open>3200 + 128 j\<close> of a file whose index block holds the sector numbers \<open>idx\<close>,
  \<^verbatim>\<open>ByteToSector\<close> returns the lowest byte of entry \<open>j\<close> with its sign, which is the right sector exactly
  when its number is below 128.
\<close>

theorem ByteToSector_second_level:
  assumes "quiet s" "coherent s" "length (dataSectors h) = 26" "0 \<le> dataSectors h ! 25" "dataSectors h ! 25 < NumSectors"
    "sector s (dataSectors h ! 25) = words_bytes (map word_of_int idx)" "length idx = 32"
    "j < 32" "0 \<le> idx ! j" "idx ! j < NumSectors"
  shows "\<exists>s' n. FileHeader_ByteToSector (3200 + 128 * int j) h s = Inr (s', n)
     \<and> n = sint (word_of_int (idx ! j) :: 8 word) \<and> (n = idx ! j \<longleftrightarrow> idx ! j < 128)"
proof -
  have "view s (dataSectors h ! 25) = words_bytes (map word_of_int idx)" using coherent_view [OF assms(2)] assms(6) by simp
  then obtain s' where "FileHeader_ByteToSector (3200 + 128 * int j) h s =
      Inr (s', sint (words_bytes (map word_of_int idx) ! (4 * j)))"
    using ByteToSector_index [OF assms(1,3-5,8)] assms(7) by auto
  moreover have "words_bytes (map word_of_int idx) ! (4 * j) = (ucast (word_of_int (idx ! j) :: 32 word) :: 8 word)"
    using assms(7,8) by (simp add: nth_words_bytes)
  moreover have "(ucast (word_of_int v :: 32 word) :: 8 word) = word_of_int v" for v
    by (simp add: unsigned_of_int word_of_int_eq_iff take_bit_eq_mod mod_mod_cancel)
  moreover have "sint (word_of_int (idx ! j) :: 8 word) = idx ! j \<longleftrightarrow> idx ! j < 128"
  proof
    assume "sint (word_of_int (idx ! j) :: 8 word) = idx ! j"
    then show "idx ! j < 128" using sint_lt [of "word_of_int (idx ! j) :: 8 word"] by simp
  next
    assume "idx ! j < 128"
    then show "sint (word_of_int (idx ! j) :: 8 word) = idx ! j"
      using assms(9) by (simp add: signed_of_int signed_take_bit_int_eq_self)
  qed
  ultimately show ?thesis by auto
qed

theorem ByteToSector_second_level_witness:
  "\<exists>s0 s1 s2. SynchDisk_SynchDisk no_cache 0 None Interrupt_Interrupt = Inr s0
     \<and> SynchDisk_WriteSector 40 (words_bytes (map word_of_int (replicate 32 200))) s0 = Inr s1
     \<and> FileHeader_ByteToSector (3200 + 128 * int 3)
         \<lparr>createTime = 0, lastVistTime = 0, lastModifyTime = 0, hdrSector = 0, numBytes = 4000, numSectors = 32,
          dataSectors = replicate 26 40\<rparr> s1 = Inr (s2, - 56)"
proof -
  let ?idx = "replicate 32 (200 :: int)" and ?n = "40 :: int"
  let ?h = "\<lparr>createTime = 0, lastVistTime = 0, lastModifyTime = 0, hdrSector = 0, numBytes = 4000, numSectors = 32,
          dataSectors = replicate 26 40\<rparr>"
  obtain s0 where s0: "SynchDisk_SynchDisk no_cache 0 None Interrupt_Interrupt = Inr s0" "quiet s0" "coherent s0"
      "cache s0 = no_cache"
    using new_disk [of 0] by (auto simp: SynchDisk_SynchDisk_def dstate.defs)
  obtain s1 where s1: "SynchDisk_WriteSector ?n (words_bytes (map word_of_int ?idx)) s0 = Inr s1" "quiet s1"
      "sector s1 ?n = words_bytes (map word_of_int ?idx)" "cache s1 = cache s0"
    using WriteSector_ok [OF s0(2), of ?n "words_bytes (map word_of_int ?idx)"] by auto
  have "coherent s1" using s0(4) s1(4) by (simp add: coherent_def)
  then obtain s2 where "FileHeader_ByteToSector (3200 + 128 * int 3) ?h s1 = Inr (s2, sint (word_of_int 200 :: 8 word))"
    using ByteToSector_second_level [OF s1(2) _ _ _ _ _ _ _, of ?h ?idx 3] s1(3) by auto
  moreover have "sint (word_of_int 200 :: 8 word) = - 56" by code_simp
  ultimately show ?thesis using s0(1) s1(1) by auto
qed

end
