(* ===== verification/Nachos_OpenFile.thy ===== *)
theory Nachos_OpenFile
  imports Nachos_Prelude Nachos_Bitmap Nachos_SynchDisk Nachos_FileHdr
begin

text \<open>
  Open files: \<^verbatim>\<open>filesys/openfile.h\<close> and \<^verbatim>\<open>filesys/openfile.cc\<close> (the real file system, without
  \<^verbatim>\<open>FILESYS_STUB\<close>), and \<^verbatim>\<open>FetchFrom\<close> and \<^verbatim>\<open>WriteBack\<close> of \<^verbatim>\<open>userprog/bitmap.cc\<close>, which keep the free map in
  a file.  A buffer the code fills through a pointer is a result; the bytes to be written are a list.
  The lemmas show that \<^verbatim>\<open>ReadAt\<close> and \<^verbatim>\<open>WriteAt\<close> are a slice and an update of the array of bytes that the
  data sectors form.
\<close>

subsection \<open>Data\<close>

record OpenFile =
  fileSector :: int
  hdr :: FileHeader
  seekPosition :: int

definition OpenFile_OpenFile :: "int \<Rightarrow> sdisk \<Rightarrow> (sdisk \<times> OpenFile) result" where
  "OpenFile_OpenFile n s =
     rbind (FileHeader_FetchFrom n s) (\<lambda>(s, h).
       in_sectors n (Inr (s\<lparr>visitorNum := (visitorNum s)(n := visitorNum s n + 1)\<rparr>,
                          \<lparr>fileSector = n, hdr = h, seekPosition = 0\<rparr>)))"

definition OpenFile_Destruct :: "OpenFile \<Rightarrow> sdisk \<Rightarrow> sdisk result" where
  "OpenFile_Destruct f s =
     in_sectors (fileSector f)
       (Inr (s\<lparr>visitorNum := (visitorNum s)(fileSector f := visitorNum s (fileSector f) - 1)\<rparr>))"

definition OpenFile_Seek :: "int \<Rightarrow> OpenFile \<Rightarrow> OpenFile" where
  "OpenFile_Seek position f = f\<lparr>seekPosition := position\<rparr>"

definition OpenFile_Length :: "OpenFile \<Rightarrow> int" where
  "OpenFile_Length f = FileHeader_FileLength (hdr f)"

text \<open>\<^verbatim>\<open>bcopy\<close> out of and into a buffer.\<close>

definition copy_out :: "8 word list \<Rightarrow> int \<Rightarrow> int \<Rightarrow> 8 word list result" where
  "copy_out buf start n =
     (if 0 \<le> start \<and> start + n \<le> int (length buf) then Inr (get_bytes (nat start) (nat n) buf) else Inl OutOfBounds)"

definition copy_in :: "8 word list \<Rightarrow> 8 word list \<Rightarrow> int \<Rightarrow> 8 word list result" where
  "copy_in bs buf start =
     (if 0 \<le> start \<and> start + int (length bs) \<le> int (length buf) then Inr (put_bytes (nat start) bs buf) else Inl OutOfBounds)"

lemma copy_out_ok: "x + n \<le> length buf \<Longrightarrow> copy_out buf (int x) (int n) = Inr (get_bytes x n buf)"
  by (simp add: copy_out_def)

lemma copy_in_ok: "x + length bs \<le> length buf \<Longrightarrow> copy_in bs buf (int x) = Inr (put_bytes x bs buf)"
  by (simp add: copy_in_def)

subsection \<open>Reading\<close>

fun read_loop :: "FileHeader \<Rightarrow> int list \<Rightarrow> sdisk \<Rightarrow> (sdisk \<times> 8 word list) result" where
  "read_loop h [] s = Inr (s, [])"
| "read_loop h (i # is) s =
     rbind (FileHeader_ByteToSector (i * SectorSize) h s) (\<lambda>(s, n).
     rbind (SynchDisk_ReadSector n s) (\<lambda>(s, bs).
     rbind (read_loop h is s) (\<lambda>(s, cs). Inr (s, bs @ cs))))"

definition OpenFile_ReadAt :: "int \<Rightarrow> int \<Rightarrow> OpenFile \<Rightarrow> sdisk \<Rightarrow> (sdisk \<times> OpenFile \<times> 8 word list) result" where
  "OpenFile_ReadAt n position f s =
     (let fileLength = FileHeader_FileLength (hdr f) in
      if n \<le> 0 \<or> position \<ge> fileLength then Inr (s, f, [])
      else
        let n = (if position + n > fileLength then fileLength - position else n);
            firstSector = divRoundDown position SectorSize;
            lastSector = divRoundDown (position + n - 1) SectorSize
        in rbind (read_loop (hdr f) [firstSector..lastSector] s) (\<lambda>(s, buf).
           rbind (copy_out buf (position - firstSector * SectorSize) n) (\<lambda>into.
             Inr (s, f\<lparr>hdr := FileHeader_SetLastVisitTime s (hdr f)\<rparr>, into))))"

subsection \<open>The free map in its file\<close>

text \<open>\<^verbatim>\<open>BitMap::FetchFrom\<close> overwrites as many bytes of the map as the file has.\<close>

definition BitMap_FetchFrom :: "OpenFile \<Rightarrow> bitmap \<Rightarrow> sdisk \<Rightarrow> (sdisk \<times> OpenFile \<times> bitmap) result" where
  "BitMap_FetchFrom f bm s =
     rbind (OpenFile_ReadAt (numWords bm * 4) 0 f s) (\<lambda>(s, f, bs).
     rbind (copy_in bs (words_bytes (bm_map bm)) 0) (\<lambda>bytes.
       Inr (s, f, bm\<lparr>bm_map := bytes_words bytes\<rparr>)))"

type_synonym writer = "8 word list \<Rightarrow> int \<Rightarrow> OpenFile \<Rightarrow> sdisk \<Rightarrow> (sdisk \<times> OpenFile \<times> int) result"

definition BitMap_WriteBack :: "writer \<Rightarrow> OpenFile \<Rightarrow> bitmap \<Rightarrow> sdisk \<Rightarrow> (sdisk \<times> OpenFile) result" where
  "BitMap_WriteBack WriteAt f bm s =
     rbind (WriteAt (words_bytes (bm_map bm)) 0 f s) (\<lambda>(s, f, n). Inr (s, f))"

subsection \<open>Writing\<close>

text \<open>
  A write past the end extends the file: \<open>WriteAt\<close> is the recursive call that writes the free map back.
  The result of \<^verbatim>\<open>ExtendFile\<close> is ignored.  \<^verbatim>\<open>new BitMap\<close> clears all 1024 bits, so the garbage it starts
  from does not matter.
\<close>

definition extend_file :: "writer \<Rightarrow> int \<Rightarrow> OpenFile \<Rightarrow> sdisk \<Rightarrow> (sdisk \<times> OpenFile) result" where
  "extend_file WriteAt bytes f s =
     rbind (BitMap_BitMap (\<lambda>_. 0) NumSectors) (\<lambda>freeMap.
     rbind (OpenFile_OpenFile 0 s) (\<lambda>(s, freeMapFile).
     rbind (BitMap_FetchFrom freeMapFile freeMap s) (\<lambda>(s, freeMapFile, freeMap).
     rbind (FileHeader_ExtendFile freeMap bytes (hdr f)) (\<lambda>(freeMap, h, ok).
     rbind (FileHeader_WriteBack (hdrSector h) h s) (\<lambda>(s, h).
     rbind (BitMap_WriteBack WriteAt freeMapFile freeMap s) (\<lambda>(s, freeMapFile).
     rbind (OpenFile_Destruct freeMapFile s) (\<lambda>s.
       Inr (s, f\<lparr>hdr := h\<rparr>))))))))"

fun write_loop :: "FileHeader \<Rightarrow> 8 word list \<Rightarrow> int \<Rightarrow> int list \<Rightarrow> sdisk \<Rightarrow> sdisk result" where
  "write_loop h buf firstSector [] s = Inr s"
| "write_loop h buf firstSector (i # is) s =
     rbind (FileHeader_ByteToSector (i * SectorSize) h s) (\<lambda>(s, n).
     rbind (copy_out buf ((i - firstSector) * SectorSize) SectorSize) (\<lambda>bs.
     rbind (SynchDisk_WriteSector n bs s) (\<lambda>s.
       write_loop h buf firstSector is s)))"

text \<open>The sectors that are only partly written are read first; \<open>junk\<close> is what the new buffer holds.\<close>

definition read_into :: "8 word list \<Rightarrow> int \<Rightarrow> int \<Rightarrow> OpenFile \<Rightarrow> sdisk \<Rightarrow> (sdisk \<times> OpenFile \<times> 8 word list) result" where
  "read_into buf start position f s =
     rbind (OpenFile_ReadAt SectorSize position f s) (\<lambda>(s, f, bs).
     rbind (copy_in bs buf start) (\<lambda>buf. Inr (s, f, buf)))"

definition read_partial :: "(nat \<Rightarrow> 8 word) \<Rightarrow> int \<Rightarrow> int \<Rightarrow> OpenFile \<Rightarrow> sdisk \<Rightarrow> (sdisk \<times> OpenFile \<times> 8 word list) result" where
  "read_partial junk n position f s =
     (let firstSector = divRoundDown position SectorSize;
          lastSector = divRoundDown (position + n - 1) SectorSize;
          buf = map junk [0..<nat ((1 + lastSector - firstSector) * SectorSize)];
          firstAligned = (position = firstSector * SectorSize);
          lastAligned = (position + n = (lastSector + 1) * SectorSize)
      in rbind (if \<not> firstAligned then read_into buf 0 (firstSector * SectorSize) f s
                else Inr (s, f, buf)) (\<lambda>(s, f, buf).
           if \<not> lastAligned \<and> (firstSector \<noteq> lastSector \<or> firstAligned)
           then read_into buf ((lastSector - firstSector) * SectorSize) (lastSector * SectorSize) f s
           else Inr (s, f, buf)))"

definition write_sectors :: "(nat \<Rightarrow> 8 word) \<Rightarrow> writer" where
  "write_sectors junk from position f s =
     (let n = int (length from);
          firstSector = divRoundDown position SectorSize;
          lastSector = divRoundDown (position + n - 1) SectorSize
      in rbind (read_partial junk n position f s) (\<lambda>(s, f, buf).
         rbind (copy_in from buf (position - firstSector * SectorSize)) (\<lambda>buf.
         rbind (write_loop (hdr f) buf firstSector [firstSector..lastSector] s) (\<lambda>s.
           Inr (s, f\<lparr>hdr := FileHeader_SetLastModifyTime s (hdr f)\<rparr>, n)))))"

definition write_at :: "(nat \<Rightarrow> 8 word) \<Rightarrow> writer \<Rightarrow> writer" where
  "write_at junk WriteAt from position f s =
     (let fileLength = FileHeader_FileLength (hdr f); n = int (length from) in
      if n \<le> 0 then Inr (s, f, 0)
      else rbind (if position + n > fileLength then extend_file WriteAt (position + n - fileLength) f s
                  else Inr (s, f)) (\<lambda>(s, f).
             write_sectors junk from position f s))"

text \<open>\<open>depth\<close> bounds the nesting of the recursive calls that extend files.\<close>

primrec OpenFile_WriteAt :: "(nat \<Rightarrow> 8 word) \<Rightarrow> nat \<Rightarrow> writer" where
  "OpenFile_WriteAt junk 0 = write_at junk (\<lambda>from position f s. Inl StackOverflow)"
| "OpenFile_WriteAt junk (Suc depth) = write_at junk (OpenFile_WriteAt junk depth)"

subsection \<open>Reading and writing at the current position\<close>

definition OpenFile_Read :: "int \<Rightarrow> OpenFile \<Rightarrow> sdisk \<Rightarrow> (sdisk \<times> OpenFile \<times> 8 word list) result" where
  "OpenFile_Read n f s =
     rbind (SynchDisk_SynchReaderStart (fileSector f) s) (\<lambda>s.
     rbind (OpenFile_ReadAt n (seekPosition f) f s) (\<lambda>(s, f, into).
     rbind (SynchDisk_SynchReaderExit (fileSector f) s) (\<lambda>s.
       Inr (s, f\<lparr>seekPosition := seekPosition f + int (length into)\<rparr>, into))))"

definition OpenFile_Write :: "writer \<Rightarrow> 8 word list \<Rightarrow> OpenFile \<Rightarrow> sdisk \<Rightarrow> (sdisk \<times> OpenFile \<times> int) result" where
  "OpenFile_Write WriteAt from f s =
     rbind (SynchDisk_SynchWriterStart (fileSector f) s) (\<lambda>s.
     rbind (WriteAt from (seekPosition f) f s) (\<lambda>(s, f, n).
     rbind (SynchDisk_SynchWriterExit (fileSector f) s) (\<lambda>s.
       Inr (s, f\<lparr>seekPosition := seekPosition f + n\<rparr>, n))))"

subsection \<open>The bytes of a file\<close>

definition file_ok :: "FileHeader \<Rightarrow> bool" where
  "file_ok h \<longleftrightarrow> length (dataSectors h) = 26 \<and> 0 \<le> numBytes h \<and> numBytes h \<le> 128 * numSectors h
     \<and> 0 \<le> numSectors h \<and> numSectors h \<le> 25
     \<and> (\<forall>n\<in>set (take (nat (numSectors h)) (dataSectors h)). 0 \<le> n \<and> n < NumSectors)"

definition file_bytes :: "sdisk \<Rightarrow> FileHeader \<Rightarrow> 8 word list" where
  "file_bytes s h = concat (map (sector s) (take (nat (numSectors h)) (dataSectors h)))"

definition file_contents :: "sdisk \<Rightarrow> FileHeader \<Rightarrow> 8 word list" where
  "file_contents s h = take (nat (numBytes h)) (file_bytes s h)"

definition reads_to :: "sdisk \<Rightarrow> sdisk \<Rightarrow> bool" where
  "reads_to s s' \<longleftrightarrow> quiet s' \<and> coherent s' \<and> fs_frame s s' \<and> (\<forall>k. sector s' k = sector s k)"

lemma reads_to_trans: "reads_to s s' \<Longrightarrow> reads_to s' s'' \<Longrightarrow> reads_to s s''"
  by (auto simp: reads_to_def intro: fs_frame_trans)

lemma reads_to_bytes: "reads_to s s' \<Longrightarrow> file_bytes s' h = file_bytes s h"
  unfolding reads_to_def file_bytes_def by (metis (no_types, lifting) map_eq_conv)

lemma file_bytes_times [simp]: "file_bytes s (h\<lparr>lastVistTime := t\<rparr>) = file_bytes s h" "file_bytes s (h\<lparr>lastModifyTime := t\<rparr>) = file_bytes s h"
  by (simp_all add: file_bytes_def)

lemma file_ok_times [simp]: "file_ok (h\<lparr>lastVistTime := t\<rparr>) = file_ok h" "file_ok (h\<lparr>lastModifyTime := t\<rparr>) = file_ok h"
  by (simp_all add: file_ok_def)

lemma file_lookup:
  "file_ok h \<Longrightarrow> i < nat (numSectors h) \<Longrightarrow> FileHeader_ByteToSector (int i * 128) h s = Inr (s, dataSectors h ! i)"
  by (subst ByteToSector_direct) (auto simp: file_ok_def)

lemma read_loop_seq:
  assumes "file_ok h" "set is \<subseteq> {0..<numSectors h}"
  shows "read_loop h is s = read_seq SynchDisk_ReadSector (map (\<lambda>i. dataSectors h ! nat i) is) s"
  using assms(2)
proof (induction "is" arbitrary: s)
  case (Cons i "is")
  have "FileHeader_ByteToSector (i * 128) h s = Inr (s, dataSectors h ! nat i)"
    using assms(1) Cons.prems by (simp add: ByteToSector_direct file_ok_def)
  then show ?case using Cons by (simp cong: rbind_cong)
qed simp

lemma file_sector_in: "file_ok h \<Longrightarrow> i < nat (numSectors h) \<Longrightarrow> dataSectors h ! i \<in> set (take (nat (numSectors h)) (dataSectors h))"
  by (auto simp: file_ok_def in_set_conv_nth intro!: exI [of _ i])

lemma file_sector:
  assumes "file_ok h" "i < nat (numSectors h)"
  shows "0 \<le> dataSectors h ! i" "dataSectors h ! i < NumSectors"
  using assms(1) file_sector_in [OF assms] unfolding file_ok_def by blast+

lemma length_blocks: "\<forall>x\<in>set xs. length (f x) = k \<Longrightarrow> length (concat (map f xs)) = k * length xs"
  by (induction xs) simp_all

lemma length_file_bytes: "quiet s \<Longrightarrow> file_ok h \<Longrightarrow> length (file_bytes s h) = 128 * nat (numSectors h)"
  unfolding file_bytes_def by (subst length_blocks [of _ _ 128]) (auto simp: quiet_def file_ok_def)

lemma read_loop_ok:
  assumes "quiet s" "coherent s" "file_ok h" "a \<le> b" "b < nat (numSectors h)"
  shows "\<exists>s'. read_loop h [int a..int b] s = Inr (s', get_bytes (128 * a) (128 * (Suc b - a)) (file_bytes s h)) \<and> reads_to s s'"
proof -
  let ?ns = "take (nat (numSectors h)) (dataSectors h)" and ?part = "take (Suc b - a) (drop a (take (nat (numSectors h)) (dataSectors h)))"
  have "set [int a..int b] \<subseteq> {0..<numSectors h}" using assms(5) by auto
  note loop = read_loop_seq [OF assms(3) this]
  have part: "map (\<lambda>i. dataSectors h ! nat i) [int a..int b] = ?part"
    using assms(3-5) by (intro nth_equalityI) (auto simp: upto_int file_ok_def nat_int_add simp del: upt_Suc)
  have ok: "\<forall>n\<in>set ?ns. 0 \<le> n \<and> n < NumSectors" using assms(3) by (simp add: file_ok_def)
  then have "\<forall>n\<in>set ?part. 0 \<le> n \<and> n < NumSectors" by (meson in_set_dropD in_set_takeD)
  then obtain s' where "read_seq SynchDisk_ReadSector ?part s = Inr (s', concat (map (sector s) ?part))"
      "quiet s' \<and> coherent s'" "fs_frame s s'" "\<forall>k. sector s' k = sector s k"
    using sd.read_seq_ok [of s ?part] assms(1,2) by auto
  moreover have "concat (map (sector s) ?part) = get_bytes (128 * a) (128 * (Suc b - a)) (file_bytes s h)"
    unfolding file_bytes_def get_bytes_def
    by (rule concat_slice [symmetric]) (use ok assms(1) in \<open>auto intro: sd.contents_length [of s] assms\<close>)
  ultimately show ?thesis using loop part by (simp add: reads_to_def)
qed

lemma divRoundDown_int: "0 < k \<Longrightarrow> divRoundDown (int p) (int k) = int (p div k)"
  by (simp add: divRoundDown_def cdiv_def sgn_if zdiv_int)

lemma span_bounds:
  assumes "0 < m"
  shows "p div 128 \<le> (p + m - 1) div 128" "128 * (p div 128) \<le> p" "p < 128 * (p div 128) + 128"
    "128 * ((p + m - 1) div 128) < p + m" "p + m \<le> 128 * ((p + m - 1) div 128) + (128 :: nat)"
proof -
  have "128 * ((p + m - 1) div 128) \<le> p + m - 1" "p + m - 1 < 128 * ((p + m - 1) div 128) + 128"
    using mult_div_mod_eq [of 128 "p + m - 1"] mod_less_divisor [of 128 "p + m - 1"] by linarith+
  then show "128 * ((p + m - 1) div 128) < p + m" "p + m \<le> 128 * ((p + m - 1) div 128) + 128" using assms by linarith+
  show "128 * (p div 128) \<le> p" "p < 128 * (p div 128) + 128"
    using mult_div_mod_eq [of 128 p] mod_less_divisor [of 128 p] by linarith+
  show "p div 128 \<le> (p + m - 1) div 128" using assms by (intro div_le_mono) simp
qed

lemma get_bytes_get_bytes: "x + m \<le> k \<Longrightarrow> get_bytes x m (get_bytes y k l) = get_bytes (y + x) m l"
  by (simp add: get_bytes_def drop_take min.absorb1 add.commute)

lemma ReadAt_ok:
  assumes "quiet s" "coherent s" "file_ok (hdr f)" "0 \<le> position"
  shows "\<exists>s' t. OpenFile_ReadAt n position f s =
       Inr (s', f\<lparr>hdr := (hdr f)\<lparr>lastVistTime := t\<rparr>\<rparr>, take (nat n) (drop (nat position) (file_contents s (hdr f))))
     \<and> reads_to s s'"
proof (cases "n \<le> 0 \<or> numBytes (hdr f) \<le> position")
  case True
  have "take (nat n) (drop (nat position) (file_contents s (hdr f))) = []" using True by (auto simp: file_contents_def)
  then show ?thesis
    using True assms
    by (intro exI [of _ s] exI [of _ "lastVistTime (hdr f)"])
      (auto simp: OpenFile_ReadAt_def FileHeader_FileLength_def reads_to_def)
next
  case False
  let ?h = "hdr f" and ?bytes = "file_bytes s (hdr f)"
  define p m where "p = nat position" and "m = min (nat n) (nat (numBytes ?h) - p)"
  define a b where "a = p div 128" and "b = (p + m - 1) div 128"
  have m: "0 < m" "p + m \<le> nat (numBytes ?h)" "(if numBytes ?h < position + n then numBytes ?h - position else n) = int m"
    using False assms(4) by (auto simp: p_def m_def)
  note span = span_bounds [OF m(1), of p, folded a_def b_def]
  have "nat (numBytes ?h) \<le> 128 * nat (numSectors ?h)" using assms(3) by (auto simp: file_ok_def)
  then have b: "b < nat (numSectors ?h)" using span(4) m(2) by linarith
  obtain s' where s': "read_loop ?h [int a..int b] s = Inr (s', get_bytes (128 * a) (128 * (Suc b - a)) ?bytes)" "reads_to s s'"
    using read_loop_ok [OF assms(1-3) span(1) b] by blast
  have pos: "position = int p" "position + int m - 1 = int (p + m - 1)" using assms(4) m(1) by (auto simp: p_def)
  have ends: "divRoundDown position 128 = int a" "divRoundDown (position + int m - 1) 128 = int b"
    unfolding pos(2) unfolding pos(1) a_def b_def by (rule divRoundDown_int [of 128, simplified])+
  have start: "p - 128 * a + m \<le> 128 * (Suc b - a)" "128 * a + (p - 128 * a) = p" "position - int a * 128 = int (p - 128 * a)"
    using span pos(1) by (auto simp: diff_mult_distrib2)
  have "128 * a + 128 * (Suc b - a) \<le> length ?bytes"
    using b span(1) length_file_bytes [OF assms(1,3)] by (simp add: diff_mult_distrib2)
  then have "copy_out (get_bytes (128 * a) (128 * (Suc b - a)) ?bytes) (position - int a * 128) (int m)
      = Inr (get_bytes p m ?bytes)"
    unfolding start(3) using start(1) by (subst copy_out_ok) (simp_all only: length_get_bytes get_bytes_get_bytes start(2))
  moreover have "get_bytes p m ?bytes = take (nat n) (drop p (file_contents s ?h))"
    by (simp add: get_bytes_def file_contents_def drop_take m_def)
  ultimately show ?thesis
    using False m(3) ends s'
    by (auto simp: OpenFile_ReadAt_def FileHeader_FileLength_def FileHeader_SetLastVisitTime_def Let_def p_def)
qed

lemma nth_file_contents: "x < nat (numBytes h) \<Longrightarrow> file_contents s h ! x = file_bytes s h ! x"
  by (simp add: file_contents_def)

lemma length_file_contents:
  "quiet s \<Longrightarrow> file_ok h \<Longrightarrow> length (file_contents s h) = nat (numBytes h)"
  using length_file_bytes [of s h] by (auto simp: file_contents_def file_ok_def)

lemma read_into_ok:
  assumes "quiet s" "coherent s" "file_ok (hdr f)" "128 * c + 128 \<le> length buf"
  shows "\<exists>s' t buf'. read_into buf (int (128 * c)) (int (128 * i)) f s = Inr (s', f\<lparr>hdr := (hdr f)\<lparr>lastVistTime := t\<rparr>\<rparr>, buf')
     \<and> reads_to s s' \<and> length buf' = length buf
     \<and> (\<forall>y<length buf. buf' ! y =
          (if 128 * c \<le> y \<and> y < 128 * c + 128 \<and> 128 * i + (y - 128 * c) < nat (numBytes (hdr f))
           then file_bytes s (hdr f) ! (128 * i + (y - 128 * c)) else buf ! y))"
proof -
  let ?bs = "take 128 (drop (128 * i) (file_contents s (hdr f)))"
  obtain s' t where s': "OpenFile_ReadAt 128 (int (128 * i)) f s = Inr (s', f\<lparr>hdr := (hdr f)\<lparr>lastVistTime := t\<rparr>\<rparr>, ?bs)" "reads_to s s'"
    using ReadAt_ok [OF assms(1-3), of "int (128 * i)" 128] unfolding nat_int by force
  have len: "length ?bs = min 128 (nat (numBytes (hdr f)) - 128 * i)"
    using length_file_contents [OF assms(1,3)] by simp
  then have fit: "128 * c + length ?bs \<le> length buf" using assms(4) by linarith
  note copy = copy_in_ok [OF fit]
  have eq: "read_into buf (int (128 * c)) (int (128 * i)) f s =
      Inr (s', f\<lparr>hdr := (hdr f)\<lparr>lastVistTime := t\<rparr>\<rparr>, put_bytes (128 * c) ?bs buf)"
    unfolding read_into_def s'(1) by (simp only: rbind.simps prod.case copy)
  have "put_bytes (128 * c) ?bs buf ! y =
      (if 128 * c \<le> y \<and> y < 128 * c + 128 \<and> 128 * i + (y - 128 * c) < nat (numBytes (hdr f))
       then file_bytes s (hdr f) ! (128 * i + (y - 128 * c)) else buf ! y)" if "y < length buf" for y
  proof (cases "128 * c \<le> y \<and> y < 128 * c + length ?bs")
    case True
    then have "y - 128 * c < length ?bs" "128 * i + (y - 128 * c) < nat (numBytes (hdr f))" "y < 128 * c + 128" using len by linarith+
    moreover from this have "?bs ! (y - 128 * c) = file_bytes s (hdr f) ! (128 * i + (y - 128 * c))"
      using length_file_contents [OF assms(1,3)] by (simp add: nth_file_contents)
    ultimately show ?thesis using True fit that len by (simp add: nth_put_bytes)
  next
    case False
    then have "\<not> (128 * c \<le> y \<and> y < 128 * c + 128 \<and> 128 * i + (y - 128 * c) < nat (numBytes (hdr f)))" using len by linarith
    then show ?thesis using False nth_put_bytes [OF fit that] by (simp only: if_False)
  qed
  then show ?thesis using eq s'(2) fit length_put_bytes [OF fit] by blast
qed

lemma maybe_read:
  assumes "quiet s" "coherent s" "file_ok (hdr f)" "a \<le> j" "j \<le> b" "length buf = 128 * (Suc b - a)"
    and start: "start = int (128 * (j - a))" "position = int (128 * j)"
    and known: "X \<subseteq> {128 * a..<128 * Suc b}" "\<forall>x\<in>X. x < nat (numBytes (hdr f)) \<longrightarrow> buf ! (x - 128 * a) = file_bytes s (hdr f) ! x"
  shows "\<exists>s' t buf'. (if C then read_into buf start position f s else Inr (s, f, buf)) =
       Inr (s', f\<lparr>hdr := (hdr f)\<lparr>lastVistTime := t\<rparr>\<rparr>, buf')
     \<and> reads_to s s' \<and> length buf' = length buf
     \<and> (\<forall>x\<in>X \<union> (if C then {128 * j..<128 * j + 128} else {}). x < nat (numBytes (hdr f)) \<longrightarrow>
          buf' ! (x - 128 * a) = file_bytes s (hdr f) ! x)"
proof (cases C)
  case False
  then show ?thesis
    using assms(1,2) known by (intro exI [of _ s] exI [of _ "lastVistTime (hdr f)"] exI [of _ buf]) (simp add: reads_to_def)
next
  case True
  have fit: "128 * (j - a) + 128 \<le> length buf" using assms(4-6) by (simp add: diff_mult_distrib2)
  obtain s' t buf' where r: "read_into buf start position f s = Inr (s', f\<lparr>hdr := (hdr f)\<lparr>lastVistTime := t\<rparr>\<rparr>, buf')"
      "reads_to s s'" "length buf' = length buf"
      "\<And>y. y < length buf \<Longrightarrow> buf' ! y =
          (if 128 * (j - a) \<le> y \<and> y < 128 * (j - a) + 128 \<and> 128 * j + (y - 128 * (j - a)) < nat (numBytes (hdr f))
           then file_bytes s (hdr f) ! (128 * j + (y - 128 * (j - a))) else buf ! y)"
    using read_into_ok [OF assms(1-3) fit, of j] unfolding start by blast
  have "buf' ! (x - 128 * a) = file_bytes s (hdr f) ! x"
    if x: "x \<in> X \<union> {128 * j..<128 * j + 128}" "x < nat (numBytes (hdr f))" for x
  proof -
    have bounds: "128 * a \<le> x" "x < 128 * Suc b" using x(1) assms(4,5) by (auto dest: subsetD [OF known(1)])
    then have y: "x - 128 * a < length buf" "128 * a \<le> x" using assms(6) by (simp_all add: diff_mult_distrib2)
    show ?thesis
    proof (cases "128 * j \<le> x \<and> x < 128 * j + 128")
      case True
      then have "128 * (j - a) \<le> x - 128 * a" "x - 128 * a < 128 * (j - a) + 128" "128 * j + (x - 128 * a - 128 * (j - a)) = x"
        using assms(4) y(2) by (auto simp: diff_mult_distrib2)
      then show ?thesis using r(4) [OF y(1)] x(2) by (simp only: if_True simp_thms)
    next
      case False
      then have "\<not> (128 * (j - a) \<le> x - 128 * a \<and> x - 128 * a < 128 * (j - a) + 128)"
        using assms(4) y(2) by (simp add: diff_mult_distrib2) linarith
      moreover have "x \<in> X" using False x(1) by auto
      ultimately show ?thesis using r(4) [OF y(1)] x(2) known(2) by (auto split: if_splits)
    qed
  qed
  then show ?thesis using True r(1-3) by (auto intro!: exI [of _ s'] exI [of _ t] exI [of _ buf'])
qed

lemma read_partial_ok:
  assumes "quiet s" "coherent s" "file_ok (hdr f)" "0 < m"
    and ab: "a = p div 128" "b = (p + m - 1) div 128"
  shows "\<exists>s' t buf. read_partial junk (int m) (int p) f s = Inr (s', f\<lparr>hdr := (hdr f)\<lparr>lastVistTime := t\<rparr>\<rparr>, buf)
     \<and> reads_to s s' \<and> length buf = 128 * (Suc b - a)
     \<and> (\<forall>x\<in>{128 * a..<p} \<union> {p + m..<128 * Suc b}. x < nat (numBytes (hdr f)) \<longrightarrow>
          buf ! (x - 128 * a) = file_bytes s (hdr f) ! x)"
proof -
  note span = span_bounds [OF assms(4), of p, folded ab]
  have ends: "divRoundDown (int p) 128 = int a" "divRoundDown (int p + int m - 1) 128 = int b"
  proof -
    have "int p + int m - 1 = int (p + m - 1)" using assms(4) by simp
    then show "divRoundDown (int p + int m - 1) 128 = int b" unfolding ab by (simp only: divRoundDown_int [of 128, simplified])
    show "divRoundDown (int p) 128 = int a" unfolding ab by (rule divRoundDown_int [of 128, simplified])
  qed
  let ?first = "int p \<noteq> int a * 128"
  let ?last = "int p + int m \<noteq> (int b + 1) * 128 \<and> (int a \<noteq> int b \<or> int p = int a * 128)"
  let ?buf = "map junk [0..<nat ((1 + int b - int a) * 128)]" and ?N = "nat (numBytes (hdr f))"
  let ?X = "if ?first then {128 * a..<128 * a + 128} else {}" and ?Y = "if ?last then {128 * b..<128 * b + 128} else {}"
  have buf: "length ?buf = 128 * (Suc b - a)" using span(1) by (simp add: nat_mult_distrib)
  obtain s1 t1 buf1 where r1: "(if ?first then read_into ?buf 0 (int a * 128) f s else Inr (s, f, ?buf)) =
        Inr (s1, f\<lparr>hdr := (hdr f)\<lparr>lastVistTime := t1\<rparr>\<rparr>, buf1)" "reads_to s s1" "length buf1 = length ?buf"
      "\<forall>x\<in>?X. x < ?N \<longrightarrow> buf1 ! (x - 128 * a) = file_bytes s (hdr f) ! x"
    using maybe_read [OF assms(1-3) order_refl span(1) buf, of 0 "int a * 128" "{}" ?first] by auto
  let ?f1 = "f\<lparr>hdr := (hdr f)\<lparr>lastVistTime := t1\<rparr>\<rparr>"
  have good: "quiet s1" "coherent s1" "file_ok (hdr ?f1)" using r1(2) assms(3) by (auto simp: reads_to_def)
  have known: "?X \<subseteq> {128 * a..<128 * Suc b}" "\<forall>x\<in>?X. x < nat (numBytes (hdr ?f1)) \<longrightarrow> buf1 ! (x - 128 * a) = file_bytes s1 (hdr ?f1) ! x"
    using span(1) r1(4) reads_to_bytes [OF r1(2)] by auto
  have len1: "length buf1 = 128 * (Suc b - a)" using r1(3) buf by (rule trans)
  have st: "(int b - int a) * 128 = int (128 * (b - a))" "int b * 128 = int (128 * b)" using span(1) by (simp_all add: of_nat_diff)
  obtain s2 t2 buf2 where r2: "(if ?last then read_into buf1 ((int b - int a) * 128) (int b * 128) ?f1 s1 else Inr (s1, ?f1, buf1)) =
        Inr (s2, ?f1\<lparr>hdr := (hdr ?f1)\<lparr>lastVistTime := t2\<rparr>\<rparr>, buf2)" "reads_to s1 s2" "length buf2 = length buf1"
      "\<forall>x\<in>?X \<union> ?Y. x < nat (numBytes (hdr ?f1)) \<longrightarrow> buf2 ! (x - 128 * a) = file_bytes s1 (hdr ?f1) ! x"
    using maybe_read [OF good span(1) order_refl len1 st known, of ?last] by blast
  have sub: "{128 * a..<p} \<union> {p + m..<128 * Suc b} \<subseteq> ?X \<union> ?Y" using span by auto
  have "read_partial junk (int m) (int p) f s = Inr (s2, f\<lparr>hdr := (hdr f)\<lparr>lastVistTime := t2\<rparr>\<rparr>, buf2)"
    using r1(1) r2(1) unfolding read_partial_def Let_def ends by simp
  then show ?thesis using r1(2,3) r2(2-4) buf sub reads_to_bytes [OF r1(2)] reads_to_trans [OF r1(2) r2(2)] by auto
qed

subsection \<open>Writing back\<close>

definition distinct_file :: "FileHeader \<Rightarrow> bool" where
  "distinct_file h \<longleftrightarrow> file_ok h \<and> distinct (take (nat (numSectors h)) (dataSectors h))"

lemma file_sector_inj:
  "distinct_file h \<Longrightarrow> i < nat (numSectors h) \<Longrightarrow> j < nat (numSectors h) \<Longrightarrow> dataSectors h ! i = dataSectors h ! j \<Longrightarrow> i = j"
  using nth_eq_iff_index_eq [of "take (nat (numSectors h)) (dataSectors h)" i j] by (auto simp: distinct_file_def file_ok_def)

lemma file_sector_notin:
  assumes "distinct_file h" "i < nat (numSectors h)" "I \<subseteq> {..<nat (numSectors h)}" "i \<notin> I"
  shows "dataSectors h ! i \<notin> (!) (dataSectors h) ` I"
proof
  assume "dataSectors h ! i \<in> (!) (dataSectors h) ` I"
  then obtain k where k: "dataSectors h ! i = dataSectors h ! k" "k \<in> I" by auto
  have "i = k" by (rule file_sector_inj [OF assms(1,2) _ k(1)]) (use k(2) assms(3) in auto)
  then show False using assms(4) k(2) by blast
qed

lemma write_loop_ok:
  assumes "quiet s" "distinct_file h" "distinct is" "set is \<subseteq> {a..<nat (numSectors h)}" "\<forall>i\<in>set is. 128 * (i - a) + 128 \<le> length buf"
  shows "\<exists>s'. write_loop h buf (int a) (map int is) s = Inr s' \<and> quiet s' \<and> fs_frame s s' \<and> cache s' = cache s
     \<and> (\<forall>i\<in>set is. sector s' (dataSectors h ! i) = get_bytes (128 * (i - a)) 128 buf)
     \<and> (\<forall>k. 0 \<le> k \<and> k < NumSectors \<and> k \<notin> (!) (dataSectors h) ` set is \<longrightarrow> sector s' k = sector s k)"
  using assms(1,3-)
proof (induction "is" arbitrary: s)
  case (Cons i "is")
  let ?n = "dataSectors h ! i" and ?bs = "get_bytes (128 * (i - a)) 128 buf"
  have i: "a \<le> i" "i < nat (numSectors h)" "128 * (i - a) + 128 \<le> length buf" using Cons.prems by auto
  have n: "0 \<le> ?n" "?n < NumSectors" using assms(2) i(2) by (auto intro: file_sector simp: distinct_file_def)
  have "FileHeader_ByteToSector (int i * 128) h s = Inr (s, ?n)"
    using assms(2) i(2) by (simp add: file_lookup distinct_file_def)
  moreover have "copy_out buf ((int i - int a) * 128) 128 = Inr ?bs"
    using copy_out_ok [OF i(3)] i(1) by (simp add: of_nat_diff mult.commute)
  moreover obtain s1 where s1: "SynchDisk_WriteSector ?n ?bs s = Inr s1" "quiet s1" "fs_frame s s1" "cache s1 = cache s"
      "\<And>k. 0 \<le> k \<Longrightarrow> k < NumSectors \<Longrightarrow> sector s1 k = (if k = ?n then ?bs else sector s k)"
    using WriteSector_ok [OF Cons.prems(1) n, of ?bs] i(3) by auto
  moreover obtain s2 where s2: "write_loop h buf (int a) (map int is) s1 = Inr s2" "quiet s2" "fs_frame s1 s2" "cache s2 = cache s1"
      "\<And>j. j \<in> set is \<Longrightarrow> sector s2 (dataSectors h ! j) = get_bytes (128 * (j - a)) 128 buf"
      "\<And>k. 0 \<le> k \<Longrightarrow> k < NumSectors \<Longrightarrow> k \<notin> (!) (dataSectors h) ` set is \<Longrightarrow> sector s2 k = sector s1 k"
    using Cons.IH [OF s1(2)] Cons.prems by auto
  moreover have "?n \<notin> (!) (dataSectors h) ` set is"
    by (rule file_sector_notin [OF assms(2) i(2)]) (use Cons.prems(2,3) in auto)
  ultimately show ?case using n fs_frame_trans [OF s1(3) s2(3)] by auto
qed simp

lemma nth_file_bytes:
  assumes "quiet s" "file_ok h" "i < nat (numSectors h)" "j < 128"
  shows "file_bytes s h ! (128 * i + j) = sector s (dataSectors h ! i) ! j"
proof -
  let ?ns = "take (nat (numSectors h)) (dataSectors h)"
  have len: "\<forall>x\<in>set ?ns. length (sector s x) = 128" using assms(1,2) by (auto simp: file_ok_def quiet_def)
  have i: "i < length ?ns" using assms(2,3) by (auto simp: file_ok_def)
  have "drop (128 * i) (file_bytes s h) = concat (map (sector s) (drop i ?ns))"
    unfolding file_bytes_def by (rule drop_concat [OF len])
  also have "\<dots> = sector s (?ns ! i) @ concat (map (sector s) (drop (Suc i) ?ns))"
    using i by (simp add: Cons_nth_drop_Suc [symmetric])
  finally have drop: "drop (128 * i) (file_bytes s h) = \<dots>" .
  have "length (sector s (?ns ! i)) = 128" using len i nth_mem by blast
  moreover have "128 * i \<le> length (file_bytes s h)" using drop calculation by (cases "128 * i \<le> length (file_bytes s h)") auto
  ultimately show ?thesis
    using arg_cong [OF drop, of "\<lambda>l. l ! j"] assms(3,4) by (simp add: nth_append)
qed

lemma file_update:
  assumes "quiet s" "quiet s'" "distinct_file h" "b < nat (numSectors h)" "length buf = 128 * (Suc b - a)"
    and new: "\<And>i. a \<le> i \<Longrightarrow> i \<le> b \<Longrightarrow> sector s' (dataSectors h ! i) = get_bytes (128 * (i - a)) 128 buf"
    and rest: "\<And>k. 0 \<le> k \<Longrightarrow> k < NumSectors \<Longrightarrow> k \<notin> (!) (dataSectors h) ` {a..b} \<Longrightarrow> sector s' k = sector s k"
    and x: "x < 128 * nat (numSectors h)"
  shows "file_bytes s' h ! x = (if 128 * a \<le> x \<and> x < 128 * Suc b then buf ! (x - 128 * a) else file_bytes s h ! x)"
proof -
  have ok: "file_ok h" using assms(3) by (simp add: distinct_file_def)
  obtain i j where ij: "x = 128 * i + j" "j < 128" "i < nat (numSectors h)"
  proof
    show "x = 128 * (x div 128) + x mod 128" "x mod 128 < 128" by simp_all
    show "x div 128 < nat (numSectors h)" using x by (intro less_mult_imp_div_less) linarith
  qed
  show ?thesis
  proof (cases "a \<le> i \<and> i \<le> b")
    case True
    then have ai: "a \<le> i" "i \<le> b" by simp_all
    have fit: "128 * (i - a) + 128 \<le> length buf" "128 * (i - a) + j = x - 128 * a"
      unfolding assms(5) ij(1) using ai by (simp_all add: diff_mult_distrib2)
    have inside: "128 * a \<le> x" "x < 128 * Suc b" unfolding ij(1) mult_Suc_right using ai ij(2) by linarith+
    have "file_bytes s' h ! x = get_bytes (128 * (i - a)) 128 buf ! j"
      using nth_file_bytes [OF assms(2) ok ij(3,2)] new True ij(1) by simp
    also have "\<dots> = buf ! (x - 128 * a)"
      using nth_get_bytes [OF fit(1) ij(2)] by (simp only: fit(2))
    finally show ?thesis using inside by (simp only: if_True simp_thms)
  next
    case False
    have "dataSectors h ! i \<notin> (!) (dataSectors h) ` {a..b}"
      by (rule file_sector_notin [OF assms(3) ij(3)]) (use False assms(4) in auto)
    then have "sector s' (dataSectors h ! i) = sector s (dataSectors h ! i)" using rest file_sector [OF ok ij(3)] by blast
    then have "file_bytes s' h ! x = file_bytes s h ! x"
      using nth_file_bytes [OF assms(2) ok ij(3,2)] nth_file_bytes [OF assms(1) ok ij(3,2)] ij(1) by simp
    moreover have "i < a \<or> b < i" using False by linarith
    then have "\<not> (128 * a \<le> x \<and> x < 128 * Suc b)" unfolding ij(1) mult_Suc_right using ij(2) by (elim disjE) linarith+
    ultimately show ?thesis by (simp only: if_False)
  qed
qed

text \<open>The buffer after the new bytes have been copied into it.\<close>

lemma span_buffer:
  assumes "0 < length from" "a = p div 128" "b = (p + length from - 1) div 128" "length buf = 128 * (Suc b - a)"
    and old: "\<And>x. x \<in> {128 * a..<p} \<union> {p + length from..<128 * Suc b} \<Longrightarrow> x < N \<Longrightarrow> buf ! (x - 128 * a) = old ! x"
    and x: "128 * a \<le> x" "x < 128 * Suc b" "x < N"
  shows "put_bytes (p - 128 * a) from buf ! (x - 128 * a) = (if p \<le> x \<and> x < p + length from then from ! (x - p) else old ! x)"
    and "p - 128 * a + length from \<le> length buf"
proof -
  note span = span_bounds [OF assms(1), of p, folded assms(2,3)]
  have len: "length buf = 128 * b + 128 - 128 * a" using assms(4) by (simp add: diff_mult_distrib2)
  show fit: "p - 128 * a + length from \<le> length buf" unfolding len using span by linarith
  have y: "x - 128 * a < length buf" unfolding len using x(1,2) unfolding mult_Suc_right by linarith
  show "put_bytes (p - 128 * a) from buf ! (x - 128 * a) = (if p \<le> x \<and> x < p + length from then from ! (x - p) else old ! x)"
  proof (cases "p \<le> x \<and> x < p + length from")
    case True
    then have "p - 128 * a \<le> x - 128 * a" "x - 128 * a < p - 128 * a + length from" "x - 128 * a - (p - 128 * a) = x - p"
      using span(2) x(1) by auto
    then show ?thesis using nth_put_bytes [OF fit y] True by (simp only: if_True simp_thms)
  next
    case False
    then have "\<not> (p - 128 * a \<le> x - 128 * a \<and> x - 128 * a < p - 128 * a + length from)" using span(2) x(1) by linarith
    moreover have "x \<in> {128 * a..<p} \<union> {p + length from..<128 * Suc b}" using False x(1,2) by auto
    ultimately show ?thesis using nth_put_bytes [OF fit y] old [OF _ x(3)] False by (simp only: if_False)
  qed
qed

lemma span_ends:
  assumes "0 < m"
  shows "divRoundDown (int p) 128 = int (p div 128)" "divRoundDown (int p + int m - 1) 128 = int ((p + m - 1) div 128)"
proof -
  have "int p + int m - 1 = int (p + m - 1)" using assms by simp
  then show "divRoundDown (int p + int m - 1) 128 = int ((p + m - 1) div 128)" by (simp only: divRoundDown_int [of 128, simplified])
qed (rule divRoundDown_int [of 128, simplified])

lemma file_span_update:
  assumes "quiet s" "coherent s" "quiet s'" "distinct_file h" "0 < length from" "p + length from \<le> nat (numBytes h)"
    and ab: "a = p div 128" "b = (p + length from - 1) div 128" and buf: "length buf = 128 * (Suc b - a)"
    and old: "\<And>x. x \<in> {128 * a..<p} \<union> {p + length from..<128 * Suc b} \<Longrightarrow> x < nat (numBytes h) \<Longrightarrow>
      buf ! (x - 128 * a) = file_bytes s h ! x"
    and new: "\<And>i. a \<le> i \<Longrightarrow> i \<le> b \<Longrightarrow>
      sector s' (dataSectors h ! i) = get_bytes (128 * (i - a)) 128 (put_bytes (p - 128 * a) from buf)"
    and rest: "\<And>k. 0 \<le> k \<Longrightarrow> k < NumSectors \<Longrightarrow> k \<notin> (!) (dataSectors h) ` {a..b} \<Longrightarrow> sector s' k = sector s k"
  shows "file_contents s' h = put_bytes p from (file_contents s h)"
proof (rule nth_equalityI)
  let ?N = "nat (numBytes h)" and ?S = "nat (numSectors h)" and ?buf = "put_bytes (p - 128 * a) from buf"
  have ok: "file_ok h" using assms(4) by (simp add: distinct_file_def)
  note span = span_bounds [OF assms(5), of p, folded ab]
  have NS: "?N \<le> 128 * ?S" using ok by (auto simp: file_ok_def)
  then have b: "b < ?S" using span(4) assms(6) by linarith
  have len: "length (file_contents s h) = ?N" by (rule length_file_contents [OF assms(1) ok])
  have len': "length (file_contents s' h) = ?N" by (rule length_file_contents [OF assms(3) ok])
  then show "length (file_contents s' h) = length (put_bytes p from (file_contents s h))" using len assms(6) by simp
  have fit: "p - 128 * a + length from \<le> length buf" using span buf by (simp add: diff_mult_distrib2)
  fix x
  assume "x < length (file_contents s' h)"
  then have x: "x < ?N" using len' by simp
  have upd: "file_bytes s' h ! x = (if 128 * a \<le> x \<and> x < 128 * Suc b then ?buf ! (x - 128 * a) else file_bytes s h ! x)"
    by (rule file_update [OF assms(1,3,4) b _ new rest]) (use fit buf x NS in auto)
  have inside: "?buf ! (x - 128 * a) = (if p \<le> x \<and> x < p + length from then from ! (x - p) else file_bytes s h ! x)"
    if "128 * a \<le> x" "x < 128 * Suc b"
    by (rule span_buffer(1) [OF assms(5) ab buf old that x])
  have "128 * a \<le> x" "x < 128 * Suc b" if "p \<le> x" "x < p + length from" using that span by auto
  then have "file_bytes s' h ! x = (if p \<le> x \<and> x < p + length from then from ! (x - p) else file_bytes s h ! x)"
    using upd inside by presburger
  then show "file_contents s' h ! x = put_bytes p from (file_contents s h) ! x"
    using nth_put_bytes [of p "from" "file_contents s h" x] assms(6) len x by (simp add: nth_file_contents)
qed

lemma write_sectors_ok:
  assumes "quiet s" "coherent s" "distinct_file (hdr f)" "0 < length from" "p + length from \<le> nat (numBytes (hdr f))"
  shows "\<exists>s' t u. write_sectors junk from (int p) f s =
       Inr (s', f\<lparr>hdr := (hdr f)\<lparr>lastVistTime := t, lastModifyTime := u\<rparr>\<rparr>, int (length from))
     \<and> quiet s' \<and> fs_frame s s' \<and> file_contents s' (hdr f) = put_bytes p from (file_contents s (hdr f))
     \<and> (\<forall>k. 0 \<le> k \<and> k < NumSectors \<and> k \<notin> set (take (nat (numSectors (hdr f))) (dataSectors (hdr f))) \<longrightarrow> sector s' k = sector s k)"
proof -
  let ?h = "hdr f" and ?N = "nat (numBytes (hdr f))" and ?S = "nat (numSectors (hdr f))"
  define a b where ab: "a = p div 128" "b = (p + length from - 1) div 128"
  have ok: "file_ok ?h" using assms(3) by (simp add: distinct_file_def)
  note span = span_bounds [OF assms(4), of p, folded ab] and ends = span_ends [OF assms(4), of p, folded ab]
  have NS: "?N \<le> 128 * ?S" using ok by (auto simp: file_ok_def)
  then have b: "b < ?S" using span(4) assms(5) by linarith
  obtain s1 t buf where r: "read_partial junk (int (length from)) (int p) f s = Inr (s1, f\<lparr>hdr := ?h\<lparr>lastVistTime := t\<rparr>\<rparr>, buf)"
      "reads_to s s1" "length buf = 128 * (Suc b - a)"
      "\<And>x. x \<in> {128 * a..<p} \<union> {p + length from..<128 * Suc b} \<Longrightarrow> x < ?N \<Longrightarrow> buf ! (x - 128 * a) = file_bytes s ?h ! x"
    using read_partial_ok [OF assms(1,2) ok assms(4) ab, of junk] by blast
  let ?h' = "?h\<lparr>lastVistTime := t\<rparr>" and ?buf = "put_bytes (p - 128 * a) from buf"
  have fit: "p - 128 * a + length from \<le> length buf" using span r(3) by (simp add: diff_mult_distrib2)
  have copy: "copy_in from buf (int p - int a * 128) = Inr ?buf"
    using copy_in_ok [OF fit] span(2) by (simp add: of_nat_diff mult.commute)
  have each: "\<forall>i\<in>set [a..<Suc b]. 128 * (i - a) + 128 \<le> length ?buf"
    using fit r(3) by (auto simp: diff_mult_distrib2)
  have q1: "quiet s1" using r(2) by (simp add: reads_to_def)
  have sub: "set [a..<Suc b] \<subseteq> {a..<nat (numSectors ?h')}" using b by auto
  have "distinct_file ?h'" using assms(3) by (simp add: distinct_file_def)
  then obtain s' where w: "write_loop ?h' ?buf (int a) [int a..int b] s1 = Inr s'" "quiet s'" "fs_frame s1 s'"
      "\<And>i. a \<le> i \<Longrightarrow> i \<le> b \<Longrightarrow> sector s' (dataSectors ?h ! i) = get_bytes (128 * (i - a)) 128 ?buf"
      "\<And>k. 0 \<le> k \<Longrightarrow> k < NumSectors \<Longrightarrow> k \<notin> (!) (dataSectors ?h) ` {a..b} \<Longrightarrow> sector s' k = sector s1 k"
    using write_loop_ok [OF q1 _ distinct_upt sub each] unfolding upto_int
    by (auto simp: atLeastLessThanSuc_atLeastAtMost simp del: upt_Suc)
  have s1: "sector s1 k = sector s k" for k using r(2) by (simp add: reads_to_def)
  have bytes: "file_contents s' ?h = put_bytes p from (file_contents s ?h)"
    by (rule file_span_update [OF assms(1,2) w(2) assms(3-5) ab r(3,4) w(4)]) (use w(5) s1 in auto)
  have notin: "(!) (dataSectors ?h) ` {a..b} \<subseteq> set (take ?S (dataSectors ?h))"
    using b by (auto intro: file_sector_in [OF ok])
  have "write_sectors junk from (int p) f s =
      Inr (s', f\<lparr>hdr := ?h\<lparr>lastVistTime := t, lastModifyTime := host_time s'\<rparr>\<rparr>, int (length from))"
    using r(1) copy w(1) unfolding write_sectors_def Let_def ends by (simp add: FileHeader_SetLastModifyTime_def)
  moreover have "fs_frame s s'" using r(2) w(3) by (auto simp: reads_to_def intro: fs_frame_trans)
  moreover have "sector s' k = sector s k" if "0 \<le> k" "k < NumSectors" "k \<notin> set (take ?S (dataSectors ?h))" for k
    using w(5) [OF that(1,2) contra_subsetD [OF notin that(3)]] by (rule trans) (rule s1)
  ultimately show ?thesis using w(2) bytes by blast
qed

subsection \<open>Properties\<close>

lemma Read_ok:
  assumes "quiet s" "coherent s" "file_ok (hdr f)" "0 \<le> seekPosition f" "0 \<le> fileSector f" "fileSector f < NumSectors"
    "readerNum s (fileSector f) = 0" "0 < rwSem s (fileSector f)"
  shows "\<exists>s' t. OpenFile_Read n f s =
       Inr (s', f\<lparr>hdr := (hdr f)\<lparr>lastVistTime := t\<rparr>,
                  seekPosition := seekPosition f + int (length (take (nat n) (drop (nat (seekPosition f)) (file_contents s (hdr f)))))\<rparr>,
            take (nat n) (drop (nat (seekPosition f)) (file_contents s (hdr f))))
     \<and> reads_to s s'"
proof -
  let ?n = "fileSector f"
  let ?s1 = "s\<lparr>readerNum := (readerNum s)(?n := 1), rwSem := (rwSem s)(?n := rwSem s ?n - 1)\<rparr>"
  have start: "SynchDisk_SynchReaderStart ?n s = Inr ?s1"
    using assms(5-) by (simp add: SynchDisk_SynchReaderStart_def in_sectors_def rw_P_def)
  have same: "quiet ?s1" "coherent ?s1" "\<And>k. sector ?s1 k = sector s k"
    using assms(1,2) by (simp_all add: quiet_def disk_ok_def coherent_def sector_def)
  then have bytes: "file_contents ?s1 (hdr f) = file_contents s (hdr f)"
    unfolding file_contents_def file_bytes_def by (metis (no_types, lifting) map_eq_conv)
  obtain s2 t where r: "OpenFile_ReadAt n (seekPosition f) f ?s1 =
       Inr (s2, f\<lparr>hdr := (hdr f)\<lparr>lastVistTime := t\<rparr>\<rparr>, take (nat n) (drop (nat (seekPosition f)) (file_contents s (hdr f))))"
      "reads_to ?s1 s2"
    using ReadAt_ok [OF same(1,2) assms(3,4), of n] bytes by auto
  let ?s3 = "s2\<lparr>readerNum := readerNum s, rwSem := rwSem s\<rparr>"
  have "readerNum s2 = (readerNum s)(?n := 1)" "rwSem s2 = (rwSem s)(?n := rwSem s ?n - 1)"
    using r(2) by (simp_all add: reads_to_def fs_frame_def)
  then have exit: "SynchDisk_SynchReaderExit ?n s2 = Inr ?s3"
    using assms(5-) fun_upd_idem [of "readerNum s" ?n 0] by (simp add: SynchDisk_SynchReaderExit_def in_sectors_def rw_V_def)
  have "reads_to s ?s3"
    using r(2) same(3) by (simp add: reads_to_def fs_frame_def quiet_def disk_ok_def coherent_def sector_def)
  then show ?thesis using start r(1) exit by (auto simp: OpenFile_Read_def)
qed

lemma drop_length_take: "drop (length (take n l)) l = drop n l"
  by (cases "n \<le> length l") simp_all

text \<open>
  Sequential reads: when no writer holds the file, two successive \<^verbatim>\<open>Read\<close>s return consecutive
  parts of the file's contents, starting at the seek position and cut off at the end of the file; the
  position ends behind the last byte returned, and neither read changes a sector.
\<close>

theorem Read_sequence:
  assumes "quiet s" "coherent s" "file_ok (hdr f)" "0 \<le> seekPosition f" "0 \<le> fileSector f" "fileSector f < NumSectors"
    "readerNum s (fileSector f) = 0" "0 < rwSem s (fileSector f)" "0 \<le> n" "0 \<le> m"
  shows "\<exists>s1 f1 xs s2 f2 ys. OpenFile_Read n f s = Inr (s1, f1, xs) \<and> OpenFile_Read m f1 s1 = Inr (s2, f2, ys)
     \<and> xs @ ys = take (nat (n + m)) (drop (nat (seekPosition f)) (file_contents s (hdr f)))
     \<and> seekPosition f2 = seekPosition f + int (length (xs @ ys)) \<and> (\<forall>k. sector s2 k = sector s k)"
proof -
  define rest xs ys where "rest = drop (nat (seekPosition f)) (file_contents s (hdr f))" and "xs = take (nat n) rest"
    and "ys = take (nat m) (drop (nat n) rest)"
  obtain s1 t where r1: "OpenFile_Read n f s =
       Inr (s1, f\<lparr>hdr := (hdr f)\<lparr>lastVistTime := t\<rparr>, seekPosition := seekPosition f + int (length xs)\<rparr>, xs)" "reads_to s s1"
    using Read_ok [OF assms(1-8), of n, folded rest_def xs_def] by blast
  define f1 where "f1 = f\<lparr>hdr := (hdr f)\<lparr>lastVistTime := t\<rparr>, seekPosition := seekPosition f + int (length xs)\<rparr>"
  have f1: "file_contents s1 (hdr f1) = file_contents s (hdr f)" "seekPosition f1 = seekPosition f + int (length xs)"
    using reads_to_bytes [OF r1(2)] by (simp_all add: f1_def file_contents_def)
  have "nat (seekPosition f1) = length xs + nat (seekPosition f)" using assms(4) by (simp add: f1(2) nat_add_distrib)
  then have pos: "drop (nat (seekPosition f1)) (file_contents s (hdr f)) = drop (nat n) rest"
    by (simp only: drop_drop [symmetric] rest_def [symmetric] xs_def drop_length_take)
  have ok1: "quiet s1" "coherent s1" "file_ok (hdr f1)" "0 \<le> seekPosition f1" "0 \<le> fileSector f1" "fileSector f1 < NumSectors"
      "readerNum s1 (fileSector f1) = 0" "0 < rwSem s1 (fileSector f1)"
    using r1(2) assms(3-8) by (simp_all add: f1_def reads_to_def fs_frame_def)
  obtain s2 t' where r2: "OpenFile_Read m f1 s1 =
       Inr (s2, f1\<lparr>hdr := (hdr f1)\<lparr>lastVistTime := t'\<rparr>, seekPosition := seekPosition f1 + int (length ys)\<rparr>, ys)" "reads_to s1 s2"
    using Read_ok [OF ok1, of m, unfolded f1(1) pos, folded ys_def] by blast
  have "xs @ ys = take (nat (n + m)) rest" using assms(9,10) by (simp add: xs_def ys_def take_add nat_add_distrib)
  moreover have "\<forall>k. sector s2 k = sector s k" using r1(2) r2(2) by (simp add: reads_to_def)
  moreover have "seekPosition (f1\<lparr>hdr := (hdr f1)\<lparr>lastVistTime := t'\<rparr>, seekPosition := seekPosition f1 + int (length ys)\<rparr>)
      = seekPosition f + int (length (xs @ ys))"
    by (simp add: f1(2))
  ultimately show ?thesis unfolding rest_def using r1(1) [folded f1_def] r2(1) by (intro exI conjI)
qed

definition example_file :: OpenFile where
  "example_file = \<lparr>fileSector = 5,
     hdr = \<lparr>createTime = 0, lastVistTime = 0, lastModifyTime = 0, hdrSector = 5, numBytes = 200, numSectors = 2,
            dataSectors = 40 # 41 # replicate 24 0\<rparr>,
     seekPosition = 100\<rparr>"

lemma example_file:
  "distinct_file (hdr example_file)" "file_ok (hdr example_file)" "numBytes (hdr example_file) = 200"
  "seekPosition example_file = 100" "fileSector example_file = 5"
  by (auto simp: example_file_def distinct_file_def file_ok_def)

lemma example_file_contents:
  assumes "\<forall>k. 0 \<le> k \<and> k < NumSectors \<longrightarrow> sector s k = replicate 128 0"
  shows "file_contents s (hdr example_file) = replicate 200 0"
proof -
  have "file_bytes s (hdr example_file) = sector s 40 @ sector s 41" by (simp add: file_bytes_def example_file_def)
  moreover have "sector s 40 = replicate 128 0" "sector s 41 = replicate 128 0" using assms by simp_all
  ultimately have "file_bytes s (hdr example_file) = replicate (128 + 128) 0" by (simp only: replicate_add)
  then show ?thesis by (simp add: file_contents_def example_file_def)
qed

theorem Read_sequence_witness:
  "\<exists>s s1 f1 xs s2 f2 ys. SynchDisk_SynchDisk no_cache 0 None Interrupt_Interrupt = Inr s
     \<and> OpenFile_Read 60 example_file s = Inr (s1, f1, xs) \<and> OpenFile_Read 60 f1 s1 = Inr (s2, f2, ys)
     \<and> xs @ ys = replicate 100 0 \<and> seekPosition f2 = 200"
proof -
  obtain s where s: "SynchDisk_SynchDisk no_cache 0 None Interrupt_Interrupt = Inr s" "quiet s" "coherent s"
      "\<forall>k. 0 \<le> k \<and> k < NumSectors \<longrightarrow> sector s k = replicate 128 0" "rwSem s = (\<lambda>_. 1)" "readerNum s = (\<lambda>_. 0)"
    using new_disk [of 0] by auto
  obtain s1 f1 xs s2 f2 ys where r: "OpenFile_Read 60 example_file s = Inr (s1, f1, xs)" "OpenFile_Read 60 f1 s1 = Inr (s2, f2, ys)"
      "xs @ ys = take 120 (drop 100 (file_contents s (hdr example_file)))" "seekPosition f2 = 100 + (int (length xs) + int (length ys))"
    using Read_sequence [OF s(2,3) example_file(2), of 60 60] s(5,6) by (auto simp: example_file(4,5))
  have xy: "xs @ ys = replicate 100 0" unfolding r(3) example_file_contents [OF s(4)] by simp
  have "length xs + length ys = 100" using arg_cong [OF xy, of length] unfolding length_append length_replicate .
  then have "seekPosition f2 = 200" using r(4) by simp
  then show ?thesis using s(1) r(1,2) xy by blast
qed



end
