(* ===== verification/Nachos_Directory.thy ===== *)
theory Nachos_Directory
  imports Nachos_Prelude Nachos_SynchDisk Nachos_FileHdr Nachos_OpenFile
begin

text \<open>
  The directory of files: \<^verbatim>\<open>filesys/directory.h\<close> and \<^verbatim>\<open>filesys/directory.cc\<close>.  A C string is the list of the
  bytes before its terminator; \<^verbatim>\<open>strncmp\<close> and \<^verbatim>\<open>strncpy\<close> are written out.  The lemmas show that a table
  of entries refines a bounded map from names, cut to nine characters, to sector numbers.
\<close>

subsection \<open>Strings\<close>

type_synonym cstring = "8 word list"

definition first_char :: "8 word list \<Rightarrow> 8 word" where
  "first_char a = (case a of [] \<Rightarrow> 0 | c # _ \<Rightarrow> c)"

text \<open>\<^verbatim>\<open>!strncmp(a, b, n)\<close> and \<^verbatim>\<open>strncpy(dest, src, n)\<close>\<close>

fun strncmp_eq :: "nat \<Rightarrow> 8 word list \<Rightarrow> 8 word list \<Rightarrow> bool" where
  "strncmp_eq 0 a b = True"
| "strncmp_eq (Suc n) a b =
     (first_char a = first_char b \<and> (first_char a = 0 \<or> strncmp_eq n (tl a) (tl b)))"

definition strncpy :: "8 word list \<Rightarrow> cstring \<Rightarrow> nat \<Rightarrow> 8 word list" where
  "strncpy dest src n = take n (src @ replicate n 0) @ drop n dest"

lemma strncmp_eq_iff: "0 \<notin> set b \<Longrightarrow> strncmp_eq n a b \<longleftrightarrow> takeWhile (\<lambda>c. c \<noteq> 0) (take n a) = take n b"
proof (induction n arbitrary: a b)
  case (Suc n)
  then show ?case by (cases a; cases b) (auto simp: first_char_def)
qed simp

lemma length_strncpy [simp]: "n \<le> length dest \<Longrightarrow> length (strncpy dest src n) = length dest"
  by (simp add: strncpy_def)

lemma strncpy_name:
  assumes "0 \<notin> set src"
  shows "takeWhile (\<lambda>c. c \<noteq> 0) (take n (strncpy dest src n)) = take n src"
proof -
  have "take n (strncpy dest src n) = take n src @ replicate (n - length src) 0"
    by (simp add: strncpy_def)
  moreover have "takeWhile (\<lambda>c. c \<noteq> 0) (take n src @ replicate k 0) = take n src" for k
    using assms by (subst takeWhile_append2) (auto dest: in_set_takeD simp: takeWhile_eq_Nil_iff)
  ultimately show ?thesis by simp
qed

subsection \<open>Entries and tables\<close>

record DirectoryEntry =
  inUse :: bool
  entrySector :: int
  name :: "8 word list"
  entryType :: bool

record Directory =
  tableSize :: int
  table :: "DirectoryEntry list"

abbreviation (input) FileNameMaxLen :: nat where "FileNameMaxLen \<equiv> 9"

definition Directory_Directory :: "(nat \<Rightarrow> DirectoryEntry) \<Rightarrow> int \<Rightarrow> Directory" where
  "Directory_Directory garbage n =
     \<lparr>tableSize = n, table = map (\<lambda>i. (garbage i)\<lparr>inUse := False\<rparr>) [0..<nat n]\<rparr>"

fun find_index :: "cstring \<Rightarrow> DirectoryEntry list \<Rightarrow> nat \<Rightarrow> int" where
  "find_index nm [] i = - 1"
| "find_index nm (e # es) i =
     (if inUse e \<and> strncmp_eq FileNameMaxLen (name e) nm then int i else find_index nm es (i + 1))"

definition Directory_FindIndex :: "cstring \<Rightarrow> Directory \<Rightarrow> int" where
  "Directory_FindIndex nm d = find_index nm (table d) 0"

definition Directory_Find :: "cstring \<Rightarrow> Directory \<Rightarrow> int" where
  "Directory_Find nm d =
     (let i = Directory_FindIndex nm d in if i \<noteq> - 1 then entrySector (table d ! nat i) else - 1)"

fun add_entry :: "cstring \<Rightarrow> int \<Rightarrow> DirectoryEntry list \<Rightarrow> DirectoryEntry list \<times> bool" where
  "add_entry nm newSector [] = ([], False)"
| "add_entry nm newSector (e # es) =
     (if \<not> inUse e
      then (e\<lparr>inUse := True, name := strncpy (name e) nm FileNameMaxLen, entryType := False, entrySector := newSector\<rparr> # es, True)
      else let (es, ok) = add_entry nm newSector es in (e # es, ok))"

definition Directory_Add :: "cstring \<Rightarrow> int \<Rightarrow> Directory \<Rightarrow> Directory \<times> bool" where
  "Directory_Add nm newSector d =
     (if Directory_FindIndex nm d \<noteq> - 1 then (d, False)
      else let (es, ok) = add_entry nm newSector (table d) in (d\<lparr>table := es\<rparr>, ok))"

definition Directory_Remove :: "cstring \<Rightarrow> Directory \<Rightarrow> Directory \<times> bool" where
  "Directory_Remove nm d =
     (let i = Directory_FindIndex nm d in
      if i = - 1 then (d, False)
      else (d\<lparr>table := (table d)[nat i := (table d ! nat i)\<lparr>inUse := False\<rparr>]\<rparr>, True))"

text \<open>\<^verbatim>\<open>printf\<close> of a name prints up to the first terminator.\<close>

definition Directory_List :: "Directory \<Rightarrow> cstring list" where
  "Directory_List d = map (\<lambda>e. takeWhile (\<lambda>c. c \<noteq> 0) (name e)) (filter inUse (table d))"

text \<open>\<^verbatim>\<open>Print\<close>: name, sector and type of every entry, then the file; one header object is reused.\<close>

fun print_entries_of :: "DirectoryEntry list \<Rightarrow> sdisk \<Rightarrow> (sdisk \<times> (cstring \<times> int \<times> bool \<times> print_item list) list) result" where
  "print_entries_of [] s = Inr (s, [])"
| "print_entries_of (e # es) s =
     (if inUse e
      then rbind (FileHeader_FetchFrom (entrySector e) s) (\<lambda>(s, h).
           rbind (FileHeader_Print h s) (\<lambda>(s, out).
           rbind (print_entries_of es s) (\<lambda>(s, outs).
             Inr (s, (takeWhile (\<lambda>c. c \<noteq> 0) (name e), entrySector e, entryType e, out) # outs))))
      else print_entries_of es s)"

definition Directory_Print :: "Directory \<Rightarrow> sdisk \<Rightarrow> (sdisk \<times> (cstring \<times> int \<times> bool \<times> print_item list) list) result" where
  "Directory_Print d s = print_entries_of (table d) s"

subsection \<open>The directory in its file\<close>

text \<open>
  The memory image of an entry: \<^verbatim>\<open>inUse\<close> at 0, \<^verbatim>\<open>sector\<close> at 4, \<^verbatim>\<open>name\<close> at 8, \<^verbatim>\<open>type\<close> at 18, twenty bytes with the
  padding, which is written as zeros.
\<close>

definition entry_bytes :: "DirectoryEntry \<Rightarrow> 8 word list" where
  "entry_bytes e = (if inUse e then 1 else 0) # [0, 0, 0] @ bytes4 (word_of_int (entrySector e)) @ name e
     @ [if entryType e then 1 else 0, 0]"

definition bytes_entry :: "8 word list \<Rightarrow> DirectoryEntry" where
  "bytes_entry bs = \<lparr>inUse = (bs ! 0 \<noteq> 0), entrySector = sint (word4 (bs ! 4) (bs ! 5) (bs ! 6) (bs ! 7)), name = get_bytes 8 10 bs,
     entryType = (bs ! 18 \<noteq> 0)\<rparr>"

definition table_bytes :: "DirectoryEntry list \<Rightarrow> 8 word list" where
  "table_bytes es = concat (map entry_bytes es)"

definition bytes_table :: "nat \<Rightarrow> 8 word list \<Rightarrow> DirectoryEntry list" where
  "bytes_table n bs = map (\<lambda>i. bytes_entry (get_bytes (20 * i) 20 bs)) [0..<n]"

definition Directory_FetchFrom :: "OpenFile \<Rightarrow> Directory \<Rightarrow> sdisk \<Rightarrow> (sdisk \<times> OpenFile \<times> Directory) result" where
  "Directory_FetchFrom f d s =
     rbind (OpenFile_ReadAt (tableSize d * 20) 0 f s) (\<lambda>(s, f, bs).
     rbind (copy_in bs (table_bytes (table d)) 0) (\<lambda>bytes.
       Inr (s, f, d\<lparr>table := bytes_table (length (table d)) bytes\<rparr>)))"

definition Directory_WriteBack :: "writer \<Rightarrow> OpenFile \<Rightarrow> Directory \<Rightarrow> sdisk \<Rightarrow> (sdisk \<times> OpenFile) result" where
  "Directory_WriteBack WriteAt f d s =
     rbind (WriteAt (table_bytes (table d)) 0 f s) (\<lambda>(s, f, n). Inr (s, f))"

subsection \<open>The directory as a map\<close>

definition entry_name :: "DirectoryEntry \<Rightarrow> cstring" where
  "entry_name e = takeWhile (\<lambda>c. c \<noteq> 0) (take FileNameMaxLen (name e))"

definition dir_map :: "Directory \<Rightarrow> cstring \<rightharpoonup> int" where
  "dir_map d = map_of (map (\<lambda>e. (entry_name e, entrySector e)) (filter inUse (table d)))"

definition dir_ok :: "Directory \<Rightarrow> bool" where
  "dir_ok d \<longleftrightarrow> length (table d) = nat (tableSize d) \<and> (\<forall>e\<in>set (table d). length (name e) = 10)
     \<and> distinct (map entry_name (filter inUse (table d)))"

abbreviation (input) used :: "DirectoryEntry list \<Rightarrow> (cstring \<times> int) list" where
  "used es \<equiv> map (\<lambda>e. (entry_name e, entrySector e)) (filter inUse es)"

lemma find_index_None:
  "0 \<notin> set nm \<Longrightarrow> find_index nm es i = - 1 \<longleftrightarrow> take 9 nm \<notin> entry_name ` set (filter inUse es)"
  by (induction es arbitrary: i) (auto simp: strncmp_eq_iff entry_name_def)

lemma find_index_Some:
  "0 \<notin> set nm \<Longrightarrow> find_index nm es i \<noteq> - 1 \<Longrightarrow>
   \<exists>k<length es. find_index nm es i = int (i + k) \<and> inUse (es ! k) \<and> entry_name (es ! k) = take 9 nm
     \<and> (\<forall>j<k. inUse (es ! j) \<longrightarrow> entry_name (es ! j) \<noteq> take 9 nm)"
proof (induction es arbitrary: i)
  case (Cons e es)
  show ?case
  proof (cases "inUse e \<and> strncmp_eq 9 (name e) nm")
    case True
    then show ?thesis using Cons.prems by (intro exI [of _ 0]) (simp add: strncmp_eq_iff entry_name_def)
  next
    case False
    then obtain k where "k < length es" "find_index nm es (i + 1) = int (i + 1 + k)" "inUse (es ! k)" "entry_name (es ! k) = take 9 nm"
        "\<forall>j<k. inUse (es ! j) \<longrightarrow> entry_name (es ! j) \<noteq> take 9 nm"
      using Cons.IH [of "i + 1"] Cons.prems by auto
    then show ?thesis
      using False Cons.prems by (intro exI [of _ "Suc k"]) (auto simp: strncmp_eq_iff entry_name_def less_Suc_eq_0_disj)
  qed
qed simp

lemma used_Some:
  assumes "k < length es" "inUse (es ! k)" "distinct (map entry_name (filter inUse es))"
  shows "map_of (used es) (entry_name (es ! k)) = Some (entrySector (es ! k))"
proof (rule map_of_is_SomeI)
  show "distinct (map fst (used es))" using assms(3) by (simp add: comp_def)
  show "(entry_name (es ! k), entrySector (es ! k)) \<in> set (used es)" using assms(1,2) by auto
qed

lemma used_dom: "dom (map_of (used es)) = entry_name ` set (filter inUse es)"
  by (simp add: dom_map_of_conv_image_fst image_image)

lemma Find_map:
  assumes "dir_ok d" "0 \<notin> set nm"
  shows "Directory_Find nm d = (case dir_map d (take 9 nm) of None \<Rightarrow> - 1 | Some n \<Rightarrow> n)"
    and "Directory_FindIndex nm d = - 1 \<longleftrightarrow> dir_map d (take 9 nm) = None"
proof -
  show none: "Directory_FindIndex nm d = - 1 \<longleftrightarrow> dir_map d (take 9 nm) = None"
    using find_index_None [OF assms(2), of "table d" 0] domIff [of "take 9 nm" "dir_map d"]
    unfolding Directory_FindIndex_def dir_map_def used_dom by argo
  show "Directory_Find nm d = (case dir_map d (take 9 nm) of None \<Rightarrow> - 1 | Some n \<Rightarrow> n)"
  proof (cases "Directory_FindIndex nm d = - 1")
    case True
    then show ?thesis using none by (simp add: Directory_Find_def)
  next
    case False
    then obtain k where k: "k < length (table d)" "Directory_FindIndex nm d = int k" "inUse (table d ! k)" "entry_name (table d ! k) = take 9 nm"
      using find_index_Some [OF assms(2), of "table d" 0] by (auto simp: Directory_FindIndex_def)
    then have "dir_map d (take 9 nm) = Some (entrySector (table d ! k))"
      using used_Some [OF k(1,3)] assms(1) by (simp add: dir_map_def dir_ok_def)
    then show ?thesis using k(2) by (simp add: Directory_Find_def)
  qed
qed

lemma map_of_insert: "k \<notin> fst ` set xs \<Longrightarrow> map_of (xs @ (k, v) # ys) = (map_of (xs @ ys))(k \<mapsto> v)"
  by (induction xs) (auto simp: fun_upd_twist)

lemma map_of_delete: "k \<notin> fst ` set (xs @ ys) \<Longrightarrow> map_of (xs @ ys) = (map_of (xs @ (k, v) # ys))(k := None)"
  using map_of_insert [of k xs v ys] fun_upd_idem [of "map_of (xs @ ys)" k None]
  by (simp add: image_Un map_of_eq_None_iff)

definition fill_entry :: "cstring \<Rightarrow> int \<Rightarrow> DirectoryEntry \<Rightarrow> DirectoryEntry" where
  "fill_entry nm n e = e\<lparr>inUse := True, name := strncpy (name e) nm 9, entryType := False, entrySector := n\<rparr>"

lemma fill_entry:
  "inUse (fill_entry nm n e)" "entrySector (fill_entry nm n e) = n"
  "length (name e) = 10 \<Longrightarrow> length (name (fill_entry nm n e)) = 10"
  "0 \<notin> set nm \<Longrightarrow> entry_name (fill_entry nm n e) = take 9 nm"
  by (simp_all add: fill_entry_def entry_name_def strncpy_name)

lemma add_entry_full: "\<forall>e\<in>set es. inUse e \<Longrightarrow> add_entry nm n es = (es, False)"
  by (induction es) auto

lemma add_entry_free:
  "\<exists>e\<in>set es. \<not> inUse e \<Longrightarrow>
   \<exists>ps e qs. es = ps @ e # qs \<and> \<not> inUse e \<and> add_entry nm n es = (ps @ fill_entry nm n e # qs, True)"
proof (induction es)
  case (Cons e es)
  show ?case
  proof (cases "inUse e")
    case False
    then show ?thesis by (intro exI [of _ "[]"]) (simp add: fill_entry_def)
  next
    case True
    then obtain ps e' qs where es: "es = ps @ e' # qs" "\<not> inUse e'" "add_entry nm n es = (ps @ fill_entry nm n e' # qs, True)"
      using Cons by auto
    then show ?thesis using True by (intro exI [of _ "e # ps"] exI [of _ e'] exI [of _ qs]) simp
  qed
qed simp

lemma used_card:
  assumes "dir_ok d"
  shows "(\<exists>e\<in>set (table d). \<not> inUse e) \<longleftrightarrow> card (dom (dir_map d)) < nat (tableSize d)"
proof -
  have "card (dom (dir_map d)) = length (filter inUse (table d))"
    using assms unfolding dir_map_def used_dom dir_ok_def by (metis distinct_card length_map list.set_map)
  moreover have "(\<exists>e\<in>set (table d). \<not> inUse e) \<longleftrightarrow> length (filter inUse (table d)) < length (table d)"
    using length_filter_less [of _ "table d" inUse] filter_id_conv [of inUse "table d"] by fastforce
  ultimately show ?thesis using assms by (simp add: dir_ok_def)
qed

lemma Add_map:
  assumes "dir_ok d" "0 \<notin> set nm" "Directory_Add nm n d = (d', ok)"
  shows "dir_ok d' \<and> tableSize d' = tableSize d
     \<and> (ok \<longleftrightarrow> dir_map d (take 9 nm) = None \<and> card (dom (dir_map d)) < nat (tableSize d))
     \<and> dir_map d' = (if ok then (dir_map d)(take 9 nm \<mapsto> n) else dir_map d)"
proof (cases "dir_map d (take 9 nm) = None \<and> (\<exists>e\<in>set (table d). \<not> inUse e)")
  case False
  then have "d' = d" "\<not> ok"
    using assms(3) Find_map(2) [OF assms(1,2)] by (auto simp: Directory_Add_def add_entry_full split: if_splits)
  then show ?thesis using assms(1) False used_card [OF assms(1)] by simp
next
  case True
  then obtain ps e qs where es: "table d = ps @ e # qs" "\<not> inUse e" "add_entry nm n (table d) = (ps @ fill_entry nm n e # qs, True)"
    using add_entry_free by blast
  have d': "d' = d\<lparr>table := ps @ fill_entry nm n e # qs\<rparr>" "ok"
    using assms(3) True es(3) Find_map(2) [OF assms(1,2)] by (auto simp: Directory_Add_def)
  have new: "take 9 nm \<notin> entry_name ` set (filter inUse (ps @ qs))"
    using True es(1,2) by (auto simp: dir_map_def map_of_eq_None_iff image_image)
  then have "dir_map d' = (dir_map d)(take 9 nm \<mapsto> n)"
    using es(1,2) map_of_insert [of "take 9 nm" "used ps" n "used qs"]
    by (simp add: d' dir_map_def fill_entry assms(2) image_image image_Un)
  moreover have "dir_ok d'" using assms(1,2) es(1,2) new by (auto simp: dir_ok_def d' fill_entry)
  ultimately show ?thesis using d' True used_card [OF assms(1)] by simp
qed

lemma Remove_map:
  assumes "dir_ok d" "0 \<notin> set nm" "Directory_Remove nm d = (d', ok)"
  shows "dir_ok d' \<and> tableSize d' = tableSize d \<and> (ok \<longleftrightarrow> dir_map d (take 9 nm) \<noteq> None)
     \<and> dir_map d' = (dir_map d)(take 9 nm := None)"
proof (cases "Directory_FindIndex nm d = - 1")
  case True
  then show ?thesis
    using assms Find_map(2) [OF assms(1,2)] by (auto simp: Directory_Remove_def)
next
  case False
  then obtain k where k: "k < length (table d)" "Directory_FindIndex nm d = int k" "inUse (table d ! k)" "entry_name (table d ! k) = take 9 nm"
    using find_index_Some [OF assms(2), of "table d" 0] by (auto simp: Directory_FindIndex_def)
  define ps e qs where "ps = take k (table d)" and "e = table d ! k" and "qs = drop (Suc k) (table d)"
  have e: "inUse e" "entry_name e = take 9 nm" using k(3,4) by (simp_all add: e_def)
  have es: "table d = ps @ e # qs" using id_take_nth_drop [OF k(1)] by (simp add: ps_def e_def qs_def)
  have d': "d' = d\<lparr>table := ps @ e\<lparr>inUse := False\<rparr> # qs\<rparr>" "ok"
    using assms(3) k(1,2) upd_conv_take_nth_drop [OF k(1)] by (auto simp: Directory_Remove_def ps_def e_def qs_def)
  have old: "take 9 nm \<notin> entry_name ` set (filter inUse (ps @ qs))" "distinct (map entry_name (filter inUse (ps @ qs)))"
    using assms(1) e unfolding dir_ok_def es by auto
  then have "dir_map d' = (dir_map d)(take 9 nm := None)"
    using map_of_delete [of "take 9 nm" "used ps" "used qs" "entrySector e"] e
    by (simp add: d' dir_map_def es image_image image_Un)
  moreover have "dir_ok d'" using assms(1) old(2) unfolding dir_ok_def d' es by simp
  ultimately show ?thesis using False d' Find_map(2) [OF assms(1,2)] by simp
qed

subsection \<open>The interface of a table of names\<close>

datatype dir_op = FindOp cstring | AddOp cstring int | RemoveOp cstring

datatype dir_out = Sector int | Done bool

primrec op_name :: "dir_op \<Rightarrow> cstring" where
  "op_name (FindOp nm) = nm"
| "op_name (AddOp nm n) = nm"
| "op_name (RemoveOp nm) = nm"

fun table_run :: "(cstring \<Rightarrow> 'd \<Rightarrow> int) \<Rightarrow> (cstring \<Rightarrow> int \<Rightarrow> 'd \<Rightarrow> 'd \<times> bool) \<Rightarrow> (cstring \<Rightarrow> 'd \<Rightarrow> 'd \<times> bool) \<Rightarrow>
    dir_op list \<Rightarrow> 'd \<Rightarrow> dir_out list" where
  "table_run look add remove [] d = []"
| "table_run look add remove (FindOp nm # ops) d = Sector (look nm d) # table_run look add remove ops d"
| "table_run look add remove (AddOp nm n # ops) d =
     (let (d, ok) = add nm n d in Done ok # table_run look add remove ops d)"
| "table_run look add remove (RemoveOp nm # ops) d =
     (let (d, ok) = remove nm d in Done ok # table_run look add remove ops d)"

text \<open>What is specified: a map of at most \<open>cap\<close> names, of which only the first nine characters count.\<close>

fun spec_run :: "nat \<Rightarrow> dir_op list \<Rightarrow> (cstring \<rightharpoonup> int) \<Rightarrow> dir_out list" where
  "spec_run cap [] m = []"
| "spec_run cap (FindOp nm # ops) m =
     Sector (case m (take 9 nm) of None \<Rightarrow> - 1 | Some n \<Rightarrow> n) # spec_run cap ops m"
| "spec_run cap (AddOp nm n # ops) m =
     (if m (take 9 nm) = None \<and> card (dom m) < cap
      then Done True # spec_run cap ops (m(take 9 nm \<mapsto> n)) else Done False # spec_run cap ops m)"
| "spec_run cap (RemoveOp nm # ops) m =
     Done (m (take 9 nm) \<noteq> None) # spec_run cap ops (m(take 9 nm := None))"

locale name_table =
  fixes look :: "cstring \<Rightarrow> 'd \<Rightarrow> int"
    and add :: "cstring \<Rightarrow> int \<Rightarrow> 'd \<Rightarrow> 'd \<times> bool"
    and remove :: "cstring \<Rightarrow> 'd \<Rightarrow> 'd \<times> bool"
    and ok :: "'d \<Rightarrow> bool"
    and cap :: "'d \<Rightarrow> nat"
    and abs :: "'d \<Rightarrow> cstring \<rightharpoonup> int"
  assumes find_abs: "ok d \<Longrightarrow> 0 \<notin> set nm \<Longrightarrow> look nm d = (case abs d (take 9 nm) of None \<Rightarrow> - 1 | Some n \<Rightarrow> n)"
    and add_abs: "ok d \<Longrightarrow> 0 \<notin> set nm \<Longrightarrow> add nm n d = (d', b) \<Longrightarrow> ok d' \<and> cap d' = cap d
      \<and> b = (abs d (take 9 nm) = None \<and> card (dom (abs d)) < cap d)
      \<and> abs d' = (if b then (abs d)(take 9 nm \<mapsto> n) else abs d)"
    and remove_abs: "ok d \<Longrightarrow> 0 \<notin> set nm \<Longrightarrow> remove nm d = (d', b) \<Longrightarrow> ok d' \<and> cap d' = cap d
      \<and> b = (abs d (take 9 nm) \<noteq> None) \<and> abs d' = (abs d)(take 9 nm := None)"
begin

lemma run_refines:
  "ok d \<Longrightarrow> \<forall>x\<in>set ops. 0 \<notin> set (op_name x) \<Longrightarrow> table_run look add remove ops d = spec_run (cap d) ops (abs d)"
proof (induction ops arbitrary: d)
  case (Cons x ops)
  show ?case
  proof (cases x)
    case (FindOp nm)
    then show ?thesis using Cons find_abs by simp
  next
    case (AddOp nm n)
    obtain d' b where a: "add nm n d = (d', b)" by fastforce
    then show ?thesis using AddOp Cons add_abs [OF _ _ a] by auto
  next
    case (RemoveOp nm)
    obtain d' b where a: "remove nm d = (d', b)" by fastforce
    then show ?thesis using RemoveOp Cons remove_abs [OF _ _ a] by auto
  qed
qed simp

end

interpretation dir: name_table Directory_Find Directory_Add Directory_Remove dir_ok "\<lambda>d. nat (tableSize d)" dir_map
proof unfold_locales
  fix d and nm :: cstring
  assume "dir_ok d" "0 \<notin> set nm"
  then show "Directory_Find nm d = (case dir_map d (take 9 nm) of None \<Rightarrow> - 1 | Some n \<Rightarrow> n)" by (rule Find_map(1))
next
  fix d d' b n and nm :: cstring
  assume "dir_ok d" "0 \<notin> set nm" "Directory_Add nm n d = (d', b)"
  from Add_map [OF this] show "dir_ok d' \<and> nat (tableSize d') = nat (tableSize d)
      \<and> b = (dir_map d (take 9 nm) = None \<and> card (dom (dir_map d)) < nat (tableSize d))
      \<and> dir_map d' = (if b then (dir_map d)(take 9 nm \<mapsto> n) else dir_map d)" by simp
next
  fix d d' b and nm :: cstring
  assume "dir_ok d" "0 \<notin> set nm" "Directory_Remove nm d = (d', b)"
  from Remove_map [OF this] show "dir_ok d' \<and> nat (tableSize d') = nat (tableSize d)
      \<and> b = (dir_map d (take 9 nm) \<noteq> None) \<and> dir_map d' = (dir_map d)(take 9 nm := None)" by simp
qed

subsection \<open>The image of a table\<close>

lemma length_entry_bytes: "length (name e) = 10 \<Longrightarrow> length (entry_bytes e) = 20"
  by (simp add: entry_bytes_def)

lemma bytes_entry_bytes:
  assumes "length (name e) = 10" "fits32 (entrySector e)"
  shows "bytes_entry (entry_bytes e) = e"
  using assms by (cases e) (simp add: bytes_entry_def entry_bytes_def bytes4_def get_bytes_def sint_of_int nth_append)

lemma bytes_table_bytes:
  assumes "\<forall>e\<in>set es. length (name e) = 10 \<and> fits32 (entrySector e)"
  shows "bytes_table (length es) (table_bytes es) = es"
proof (rule nth_equalityI)
  show "length (bytes_table (length es) (table_bytes es)) = length es" by (simp add: bytes_table_def)
  fix i
  assume "i < length (bytes_table (length es) (table_bytes es))"
  then have i: "i < length es" by (simp add: bytes_table_def)
  have "get_bytes (20 * i) 20 (table_bytes es) = entry_bytes (es ! i)"
    using concat_slice [of es entry_bytes 20 1 i] assms i
    by (simp add: get_bytes_def table_bytes_def length_entry_bytes Cons_nth_drop_Suc [symmetric])
  then show "bytes_table (length es) (table_bytes es) ! i = es ! i"
    using assms i by (simp add: bytes_table_def bytes_entry_bytes)
qed

subsection \<open>Properties\<close>

text \<open>
  (C5) The directory refines a bounded map: starting from a new directory, any sequence of \<^verbatim>\<open>Find\<close>,
  \<^verbatim>\<open>Add\<close> and \<^verbatim>\<open>Remove\<close> calls returns what a map from names to sectors returns in which only the first nine
  characters of a name count, adding fails exactly when the name is present or \<^verbatim>\<open>size\<close> names are, and
  removing fails exactly when the name is absent.  What the memory of the table held does not matter.
\<close>

theorem Directory_refines_map:
  assumes "\<forall>x\<in>set ops. 0 \<notin> set (op_name x)" "\<forall>i. length (name (garbage i)) = 10"
  shows "table_run Directory_Find Directory_Add Directory_Remove ops (Directory_Directory garbage n) = spec_run (nat n) ops Map.empty"
proof -
  let ?d = "Directory_Directory garbage n"
  have "filter inUse (table ?d) = []" by (simp add: Directory_Directory_def filter_empty_conv)
  then have "dir_ok ?d" "dir_map ?d = Map.empty" "nat (tableSize ?d) = nat n"
    using assms(2) by (auto simp: dir_ok_def dir_map_def Directory_Directory_def)
  then show ?thesis using dir.run_refines [of ?d ops] assms(1) by simp
qed

theorem Directory_refines_map_witness:
  "table_run Directory_Find Directory_Add Directory_Remove
     [AddOp [97] 7, AddOp [98, 97] 9, AddOp [99] 8, FindOp [98, 97], RemoveOp [97], AddOp [99] 8, FindOp [97], FindOp [99]]
     (Directory_Directory (\<lambda>i. \<lparr>inUse = True, entrySector = 3, name = replicate 10 97, entryType = True\<rparr>) 2)
   = [Done True, Done True, Done False, Sector 9, Done True, Done True, Sector (- 1), Sector 8]"
  by (subst Directory_refines_map) simp_all

end
