(* ===== verification/Nachos_FileSys.thy ===== *)
theory Nachos_FileSys
  imports Nachos_Prelude Nachos_Bitmap Nachos_SynchDisk Nachos_FileHdr Nachos_OpenFile Nachos_Directory
begin

text \<open>
  The file system: \<^verbatim>\<open>filesys/filesys.h\<close>, \<^verbatim>\<open>filesys/filesys.cc\<close> and the test routines of \<^verbatim>\<open>filesys/fstest.cc\<close>.
  Every operation of the class goes through the open free-map and directory files to the sectors of the disk.
  The record \<open>junk\<close> is what newly allocated memory and uninitialised locals hold, \<open>depth\<close> the bound on nested
  calls of \<^verbatim>\<open>WriteAt\<close>.
\<close>

subsection \<open>The class\<close>

record filesys =
  freeMapFile :: OpenFile
  directoryFile :: OpenFile
  OpenFileTable :: "int list"

record junk =
  jbuf :: "nat \<Rightarrow> 8 word"
  jdir :: "nat \<Rightarrow> DirectoryEntry"
  jhdr :: FileHeader
  jstack :: "int list"

abbreviation (input) FreeMapSector :: int where "FreeMapSector \<equiv> 0"

abbreviation (input) DirectorySector :: int where "DirectorySector \<equiv> 1"

abbreviation (input) FreeMapFileSize :: int where "FreeMapFileSize \<equiv> 128"

abbreviation (input) NumDirEntries :: int where "NumDirEntries \<equiv> 10"

abbreviation (input) DirectoryFileSize :: int where "DirectoryFileSize \<equiv> 200"

definition FileSystem_FileSystem :: "junk \<Rightarrow> nat \<Rightarrow> bool \<Rightarrow> sdisk \<Rightarrow> (sdisk \<times> filesys) result" where
  "FileSystem_FileSystem junk depth format s =
     (let WriteAt = OpenFile_WriteAt (jbuf junk) depth; files = replicate 128 (- 1) in
      if format then
        rbind (BitMap_BitMap (\<lambda>_. 0) NumSectors) (\<lambda>freeMap.
        let directory = Directory_Directory (jdir junk) NumDirEntries in
        rbind (BitMap_Mark freeMap FreeMapSector) (\<lambda>freeMap.
        rbind (BitMap_Mark freeMap DirectorySector) (\<lambda>freeMap.
        rbind (FileHeader_Allocate (jstack junk) freeMap FreeMapFileSize (jhdr junk) s) (\<lambda>(s, freeMap, mapHdr, ok).
        ASSERT ok (
        rbind (FileHeader_Allocate (jstack junk) freeMap DirectoryFileSize (jhdr junk) s) (\<lambda>(s, freeMap, dirHdr, ok).
        ASSERT ok (
        rbind (FileHeader_WriteBack FreeMapSector mapHdr s) (\<lambda>(s, mapHdr).
        rbind (FileHeader_WriteBack DirectorySector dirHdr s) (\<lambda>(s, dirHdr).
        rbind (OpenFile_OpenFile FreeMapSector s) (\<lambda>(s, mapFile).
        rbind (OpenFile_OpenFile DirectorySector s) (\<lambda>(s, dirFile).
        rbind (BitMap_WriteBack WriteAt mapFile freeMap s) (\<lambda>(s, mapFile).
        rbind (Directory_WriteBack WriteAt dirFile directory s) (\<lambda>(s, dirFile).
          Inr (s, \<lparr>freeMapFile = mapFile, directoryFile = dirFile, OpenFileTable = files\<rparr>))))))))))))))
      else
        rbind (OpenFile_OpenFile FreeMapSector s) (\<lambda>(s, mapFile).
        rbind (OpenFile_OpenFile DirectorySector s) (\<lambda>(s, dirFile).
          Inr (s, \<lparr>freeMapFile = mapFile, directoryFile = dirFile, OpenFileTable = files\<rparr>))))"

definition FileSystem_Create :: "junk \<Rightarrow> nat \<Rightarrow> cstring \<Rightarrow> int \<Rightarrow> filesys \<Rightarrow> sdisk \<Rightarrow> (sdisk \<times> filesys \<times> bool) result" where
  "FileSystem_Create junk depth nm initialSize fs s =
     (let WriteAt = OpenFile_WriteAt (jbuf junk) depth in
      rbind (Directory_FetchFrom (directoryFile fs) (Directory_Directory (jdir junk) NumDirEntries) s) (\<lambda>(s, f, directory).
      let fs = fs\<lparr>directoryFile := f\<rparr> in
      if Directory_Find nm directory \<noteq> - 1 then Inr (s, fs, False)
      else
        rbind (BitMap_BitMap (\<lambda>_. 0) NumSectors) (\<lambda>freeMap.
        rbind (BitMap_FetchFrom (freeMapFile fs) freeMap s) (\<lambda>(s, f, freeMap).
        let fs = fs\<lparr>freeMapFile := f\<rparr> in
        rbind (BitMap_Find freeMap) (\<lambda>(freeMap, n).
        if n = - 1 then Inr (s, fs, False)
        else let (directory, ok) = Directory_Add nm n directory in
          if \<not> ok then Inr (s, fs, False)
          else
            rbind (FileHeader_Allocate (jstack junk) freeMap initialSize (jhdr junk) s) (\<lambda>(s, freeMap, h, ok).
            if \<not> ok then Inr (s, fs, False)
            else
              rbind (FileHeader_WriteBack n h s) (\<lambda>(s, h).
              rbind (Directory_WriteBack WriteAt (directoryFile fs) directory s) (\<lambda>(s, f).
              let fs = fs\<lparr>directoryFile := f\<rparr> in
              rbind (BitMap_WriteBack WriteAt (freeMapFile fs) freeMap s) (\<lambda>(s, f).
                Inr (s, fs\<lparr>freeMapFile := f\<rparr>, True))))))))))"

text \<open>The second \<^verbatim>\<open>Create\<close>, with a type, has the same body: the type is not used.\<close>

definition FileSystem_Create_type ::
  "junk \<Rightarrow> nat \<Rightarrow> cstring \<Rightarrow> int \<Rightarrow> bool \<Rightarrow> filesys \<Rightarrow> sdisk \<Rightarrow> (sdisk \<times> filesys \<times> bool) result" where
  "FileSystem_Create_type junk depth nm initialSize ty fs s = FileSystem_Create junk depth nm initialSize fs s"

definition FileSystem_Open :: "junk \<Rightarrow> cstring \<Rightarrow> filesys \<Rightarrow> sdisk \<Rightarrow> (sdisk \<times> filesys \<times> OpenFile option) result" where
  "FileSystem_Open junk nm fs s =
     rbind (Directory_FetchFrom (directoryFile fs) (Directory_Directory (jdir junk) NumDirEntries) s) (\<lambda>(s, f, directory).
     let fs = fs\<lparr>directoryFile := f\<rparr>; n = Directory_Find nm directory in
     if n \<ge> 0 then rbind (OpenFile_OpenFile n s) (\<lambda>(s, openFile). Inr (s, fs, Some openFile))
     else Inr (s, fs, None))"

definition FileSystem_Remove :: "junk \<Rightarrow> nat \<Rightarrow> cstring \<Rightarrow> filesys \<Rightarrow> sdisk \<Rightarrow> (sdisk \<times> filesys \<times> bool) result" where
  "FileSystem_Remove junk depth nm fs s =
     (let WriteAt = OpenFile_WriteAt (jbuf junk) depth in
      rbind (Directory_FetchFrom (directoryFile fs) (Directory_Directory (jdir junk) NumDirEntries) s) (\<lambda>(s, f, directory).
      let fs = fs\<lparr>directoryFile := f\<rparr>; n = Directory_Find nm directory in
      if n = - 1 then Inr (s, fs, False)
      else
        rbind (FileHeader_FetchFrom n s) (\<lambda>(s, fileHdr).
        rbind (BitMap_BitMap (\<lambda>_. 0) NumSectors) (\<lambda>freeMap.
        rbind (BitMap_FetchFrom (freeMapFile fs) freeMap s) (\<lambda>(s, f, freeMap).
        let fs = fs\<lparr>freeMapFile := f\<rparr> in
        rbind (FileHeader_Deallocate freeMap fileHdr s) (\<lambda>(s, freeMap).
        rbind (BitMap_Clear freeMap n) (\<lambda>freeMap.
        let (directory, ok) = Directory_Remove nm directory in
        rbind (BitMap_WriteBack WriteAt (freeMapFile fs) freeMap s) (\<lambda>(s, f).
        let fs = fs\<lparr>freeMapFile := f\<rparr> in
        rbind (Directory_WriteBack WriteAt (directoryFile fs) directory s) (\<lambda>(s, f).
          Inr (s, fs\<lparr>directoryFile := f\<rparr>, True))))))))))"

definition FileSystem_List :: "junk \<Rightarrow> filesys \<Rightarrow> sdisk \<Rightarrow> (sdisk \<times> filesys \<times> cstring list) result" where
  "FileSystem_List junk fs s =
     rbind (Directory_FetchFrom (directoryFile fs) (Directory_Directory (jdir junk) NumDirEntries) s) (\<lambda>(s, f, directory).
       Inr (s, fs\<lparr>directoryFile := f\<rparr>, Directory_List directory))"

text \<open>\<^verbatim>\<open>Print\<close>: the two headers with their files, the marked bits, and every file.\<close>

definition FileSystem_Print ::
  "junk \<Rightarrow> filesys \<Rightarrow> sdisk \<Rightarrow>
   (sdisk \<times> filesys \<times> print_item list \<times> print_item list \<times> int list \<times> (cstring \<times> int \<times> bool \<times> print_item list) list) result" where
  "FileSystem_Print junk fs s =
     rbind (BitMap_BitMap (\<lambda>_. 0) NumSectors) (\<lambda>freeMap.
     rbind (FileHeader_FetchFrom FreeMapSector s) (\<lambda>(s, bitHdr).
     rbind (FileHeader_Print bitHdr s) (\<lambda>(s, bitOut).
     rbind (FileHeader_FetchFrom DirectorySector s) (\<lambda>(s, dirHdr).
     rbind (FileHeader_Print dirHdr s) (\<lambda>(s, dirOut).
     rbind (BitMap_FetchFrom (freeMapFile fs) freeMap s) (\<lambda>(s, f, freeMap).
     rbind (BitMap_Print freeMap) (\<lambda>bits.
     rbind (Directory_FetchFrom (directoryFile fs) (Directory_Directory (jdir junk) NumDirEntries) s) (\<lambda>(s, g, directory).
     rbind (Directory_Print directory s) (\<lambda>(s, files).
       Inr (s, fs\<lparr>freeMapFile := f, directoryFile := g\<rparr>, bitOut, dirOut, bits, files))))))))))"

subsection \<open>The test routines\<close>

abbreviation (input) TransferSize :: nat where "TransferSize \<equiv> 10"

text \<open>\<open>bytes\<close> is what \<^verbatim>\<open>fread\<close> has not returned yet.\<close>

function copy_loop :: "writer \<Rightarrow> 8 word list \<Rightarrow> OpenFile \<Rightarrow> sdisk \<Rightarrow> (sdisk \<times> OpenFile) result" where
  "copy_loop WriteAt bytes f s =
     (let buffer = take TransferSize bytes in
      if buffer = [] then Inr (s, f)
      else rbind (OpenFile_Write WriteAt buffer f s) (\<lambda>(s, f, n).
             copy_loop WriteAt (drop TransferSize bytes) f s))"
  by auto
termination
  by (relation "measure (\<lambda>(w, bytes, f, s). length bytes)") auto

text \<open>\<open>host\<close> gives the contents of the UNIX files.\<close>

definition Copy :: "(cstring \<rightharpoonup> 8 word list) \<Rightarrow> junk \<Rightarrow> nat \<Rightarrow> cstring \<Rightarrow> cstring \<Rightarrow> filesys \<Rightarrow> sdisk \<Rightarrow> (sdisk \<times> filesys) result" where
  "Copy host junk depth from to fs s =
     (case host from of
        None \<Rightarrow> Inr (s, fs)
      | Some bytes \<Rightarrow>
          rbind (FileSystem_Create junk depth to (int (length bytes)) fs s) (\<lambda>(s, fs, ok).
          if \<not> ok then Inr (s, fs)
          else rbind (FileSystem_Open junk to fs s) (\<lambda>(s, fs, openFile).
               ASSERT (openFile \<noteq> None) (
               rbind (copy_loop (OpenFile_WriteAt (jbuf junk) depth) bytes (the openFile) s) (\<lambda>(s, f).
               rbind (OpenFile_Destruct f s) (\<lambda>s. Inr (s, fs)))))))"

text \<open>The loop of \<^verbatim>\<open>Print\<close> ends when nothing more is read; the result has what it printed.\<close>

partial_function (option) print_file :: "OpenFile \<Rightarrow> sdisk \<Rightarrow> (sdisk \<times> OpenFile \<times> 8 word list) result option" where
  "print_file f s =
     (case OpenFile_Read (int TransferSize) f s of
        Inl e \<Rightarrow> Some (Inl e)
      | Inr (s, f, buffer) \<Rightarrow>
          if buffer = [] then Some (Inr (s, f, []))
          else Option.bind (print_file f s) (\<lambda>r. Some (rbind r (\<lambda>(s, f, out). Inr (s, f, buffer @ out)))))"

definition Print :: "junk \<Rightarrow> cstring \<Rightarrow> filesys \<Rightarrow> sdisk \<Rightarrow> (sdisk \<times> filesys \<times> 8 word list) result option" where
  "Print junk nm fs s =
     (case FileSystem_Open junk nm fs s of
        Inl e \<Rightarrow> Some (Inl e)
      | Inr (s, fs, None) \<Rightarrow> Some (Inr (s, fs, []))
      | Inr (s, fs, Some f) \<Rightarrow>
          Option.bind (print_file f s) (\<lambda>r. Some (rbind r (\<lambda>(s, f, out).
            rbind (OpenFile_Destruct f s) (\<lambda>s. Inr (s, fs, out))))))"

abbreviation (input) FileName :: cstring where
  "FileName \<equiv> [84, 101, 115, 116, 70, 105, 108, 101]"

abbreviation (input) Contents :: cstring where
  "Contents \<equiv> [49, 50, 51, 52, 53, 54, 55, 56, 57, 48]"

primrec write_file :: "writer \<Rightarrow> nat \<Rightarrow> OpenFile \<Rightarrow> sdisk \<Rightarrow> (sdisk \<times> OpenFile) result" where
  "write_file WriteAt 0 f s = Inr (s, f)"
| "write_file WriteAt (Suc k) f s =
     rbind (OpenFile_Write WriteAt Contents f s) (\<lambda>(s, f, n).
     if n < 10 then Inr (s, f) else write_file WriteAt k f s)"

definition FileWrite :: "junk \<Rightarrow> nat \<Rightarrow> filesys \<Rightarrow> sdisk \<Rightarrow> (sdisk \<times> filesys) result" where
  "FileWrite junk depth fs s =
     rbind (FileSystem_Create junk depth FileName 600 fs s) (\<lambda>(s, fs, ok).
     if \<not> ok then Inr (s, fs)
     else rbind (FileSystem_Open junk FileName fs s) (\<lambda>(s, fs, openFile).
       case openFile of
         None \<Rightarrow> Inr (s, fs)
       | Some f \<Rightarrow>
           rbind (write_file (OpenFile_WriteAt (jbuf junk) depth) 60 f s) (\<lambda>(s, f).
           rbind (OpenFile_Destruct f s) (\<lambda>s. Inr (s, fs)))))"

text \<open>\<^verbatim>\<open>currentThread->Yield()\<close> returns at once when no other thread is ready.\<close>

primrec read_file :: "nat \<Rightarrow> OpenFile \<Rightarrow> sdisk \<Rightarrow> (sdisk \<times> OpenFile) result" where
  "read_file 0 f s = Inr (s, f)"
| "read_file (Suc k) f s =
     rbind (OpenFile_Read 10 f s) (\<lambda>(s, f, buffer).
     if length buffer < 10 \<or> \<not> strncmp_eq 10 buffer Contents then Inr (s, f) else read_file k f s)"

definition FileRead :: "junk \<Rightarrow> filesys \<Rightarrow> sdisk \<Rightarrow> (sdisk \<times> filesys) result" where
  "FileRead junk fs s =
     rbind (FileSystem_Open junk FileName fs s) (\<lambda>(s, fs, openFile).
       case openFile of
         None \<Rightarrow> Inr (s, fs)
       | Some f \<Rightarrow>
           rbind (read_file 60 f s) (\<lambda>(s, f).
           rbind (OpenFile_Destruct f s) (\<lambda>s. Inr (s, fs))))"

text \<open>\<^verbatim>\<open>PerformanceTest\<close> also prints the file system; the result says whether the file could be removed.\<close>

definition PerformanceTest :: "junk \<Rightarrow> nat \<Rightarrow> filesys \<Rightarrow> sdisk \<Rightarrow> (sdisk \<times> filesys \<times> bool) result" where
  "PerformanceTest junk depth fs s =
     rbind (FileWrite junk depth fs s) (\<lambda>(s, fs).
     rbind (FileSystem_Print junk fs s) (\<lambda>(s, fs, out).
       FileSystem_Remove junk depth FileName fs s))"

subsection \<open>Printing ends\<close>

lemma print_file_ok:
  assumes "quiet s" "coherent s" "file_ok (hdr f)" "0 \<le> seekPosition f" "0 \<le> fileSector f" "fileSector f < NumSectors"
    "readerNum s (fileSector f) = 0" "0 < rwSem s (fileSector f)"
  shows "\<exists>s' f'. print_file f s = Some (Inr (s', f', drop (nat (seekPosition f)) (file_contents s (hdr f)))) \<and> reads_to s s'
     \<and> fileSector f' = fileSector f"
  using assms
proof (induction "length (file_contents s (hdr f)) - nat (seekPosition f)" arbitrary: f s rule: less_induct)
  case less
  define rest where "rest = drop (nat (seekPosition f)) (file_contents s (hdr f))"
  obtain s1 t where r: "OpenFile_Read 10 f s =
       Inr (s1, f\<lparr>hdr := (hdr f)\<lparr>lastVistTime := t\<rparr>, seekPosition := seekPosition f + int (length (take 10 rest))\<rparr>, take 10 rest)"
      "reads_to s s1"
    using Read_ok [OF less.prems, of 10, folded rest_def] by auto
  define f1 where "f1 = f\<lparr>hdr := (hdr f)\<lparr>lastVistTime := t\<rparr>, seekPosition := seekPosition f + int (length (take 10 rest))\<rparr>"
  show ?case
  proof (cases "rest = []")
    case True
    have "print_file f s = Some (Inr (s1, f1, rest))"
      using r(1) [folded f1_def] True by (subst print_file.simps) simp
    then show ?thesis using r(2) unfolding rest_def f1_def by fastforce
  next
    case False
    have f1: "file_contents s1 (hdr f1) = file_contents s (hdr f)" "nat (seekPosition f1) = length (take 10 rest) + nat (seekPosition f)"
      using reads_to_bytes [OF r(2)] less.prems(4) by (simp_all add: f1_def file_contents_def nat_add_distrib)
    have "length (file_contents s1 (hdr f1)) - nat (seekPosition f1) < length (file_contents s (hdr f)) - nat (seekPosition f)"
      using False unfolding f1 rest_def by auto
    moreover have "quiet s1" "coherent s1" "file_ok (hdr f1)" "0 \<le> seekPosition f1" "0 \<le> fileSector f1" "fileSector f1 < NumSectors"
        "readerNum s1 (fileSector f1) = 0" "0 < rwSem s1 (fileSector f1)"
      using r(2) less.prems(3-) by (simp_all add: f1_def reads_to_def fs_frame_def)
    ultimately obtain s2 f2 where r2: "print_file f1 s1 = Some (Inr (s2, f2, drop (nat (seekPosition f1)) (file_contents s1 (hdr f1))))"
        "reads_to s1 s2" "fileSector f2 = fileSector f1"
      using less.hyps by blast
    have "drop (nat (seekPosition f1)) (file_contents s1 (hdr f1)) = drop 10 rest"
      unfolding f1 drop_drop [symmetric] rest_def [symmetric] by (rule drop_length_take)
    then have "print_file f s = Some (Inr (s2, f2, rest))"
      using r(1) [folded f1_def] r2(1) False by (subst print_file.simps) simp
    then show ?thesis using reads_to_trans [OF r(2) r2(2)] r2(3) unfolding rest_def by (auto simp: f1_def)
  qed
qed

subsection \<open>Operations that only read\<close>

definition only_read :: "sdisk \<Rightarrow> sdisk \<Rightarrow> bool" where
  "only_read s s' \<longleftrightarrow> quiet s' \<and> fs_frame s s' \<and> (\<forall>k. sector s' k = sector s k)"

lemma only_read_refl: "quiet s \<Longrightarrow> only_read s s"
  and only_read_trans: "only_read s s' \<Longrightarrow> only_read s' s'' \<Longrightarrow> only_read s s''"
  and only_read_quiet: "only_read s s' \<Longrightarrow> quiet s'"
  by (auto simp: only_read_def intro: fs_frame_trans)

lemma ReadSector_only: "quiet s \<Longrightarrow> SynchDisk_ReadSector n s = Inr (s', bs) \<Longrightarrow> only_read s s'"
  using ReadSector_inv by (auto simp: only_read_def)

lemma ByteToSector_only: "quiet s \<Longrightarrow> FileHeader_ByteToSector p h s = Inr (s', n) \<Longrightarrow> only_read s s'"
  by (auto simp: FileHeader_ByteToSector_def Let_def intro: only_read_refl ReadSector_only split: if_splits)

lemma read_loop_only: "quiet s \<Longrightarrow> read_loop h is s = Inr (s', bs) \<Longrightarrow> only_read s s'"
proof (induction "is" arbitrary: s s' bs)
  case (Cons i "is")
  from Cons.prems(2) obtain s1 n s2 xs ys where r: "FileHeader_ByteToSector (i * SectorSize) h s = Inr (s1, n)"
      "SynchDisk_ReadSector n s1 = Inr (s2, xs)" "read_loop h is s2 = Inr (s', ys)"
    by auto
  have 1: "only_read s s1" using ByteToSector_only Cons.prems(1) r(1) by blast
  have 2: "only_read s1 s2" using ReadSector_only only_read_quiet [OF 1] r(2) by blast
  have "only_read s2 s'" using Cons.IH only_read_quiet [OF 2] r(3) by blast
  then show ?case using 1 2 by (blast intro: only_read_trans)
qed (simp add: only_read_refl)

lemma ReadAt_only: "quiet s \<Longrightarrow> OpenFile_ReadAt n p f s = Inr (s', f', bs) \<Longrightarrow> only_read s s'"
  by (auto simp: OpenFile_ReadAt_def Let_def intro: only_read_refl read_loop_only split: if_splits)

lemma FetchFrom_only:
  "quiet s \<Longrightarrow> Directory_FetchFrom f d s = Inr (s', f', d') \<Longrightarrow> only_read s s'"
  "quiet s \<Longrightarrow> BitMap_FetchFrom f bm s = Inr (s', f', bm') \<Longrightarrow> only_read s s'"
  by (auto simp: Directory_FetchFrom_def BitMap_FetchFrom_def intro: ReadAt_only)

lemma Allocate_fails: "FileHeader_Allocate st bm n h s = Inr (s', bm', h', False) \<Longrightarrow> s' = s"
  by (auto simp: FileHeader_Allocate_def Let_def split: if_splits)

subsection \<open>Files whose sectors are cached\<close>

definition all_cached :: "sdisk \<Rightarrow> FileHeader \<Rightarrow> bool" where
  "all_cached s h \<longleftrightarrow>
     (\<forall>n\<in>set (take (nat (numSectors h)) (dataSectors h)). cached s n \<and> length (view s n) = 128)"

lemma read_seq_cached:
  "quiet s \<Longrightarrow> \<forall>n\<in>set ns. cached s n \<Longrightarrow> read_seq SynchDisk_ReadSector ns s = Inr (s, concat (map (view s) ns))"
  by (induction ns) (auto simp: ReadSector_hit)

lemma span_in_file:
  assumes "file_ok h" "0 < m" "p + m \<le> nat (numBytes h)"
  shows "(p + m - 1) div 128 < nat (numSectors h)"
proof -
  have "nat (numBytes h) \<le> 128 * nat (numSectors h)" using assms(1) by (auto simp: file_ok_def)
  then show ?thesis using span_bounds(4) [OF assms(2), of p] assms(3) by linarith
qed

lemma read_loop_cached:
  assumes "quiet s" "file_ok h" "all_cached s h" "a \<le> b" "b < nat (numSectors h)"
  shows "\<exists>bs. read_loop h [int a..int b] s = Inr (s, bs) \<and> length bs = 128 * (Suc b - a)"
proof -
  let ?ns = "map (\<lambda>i. dataSectors h ! nat i) [int a..int b]"
  have "set [int a..int b] \<subseteq> {0..<numSectors h}" using assms(5) by auto
  note loop = read_loop_seq [OF assms(2) this]
  have ns: "\<forall>n\<in>set ?ns. cached s n \<and> length (view s n) = 128"
  proof -
    have "dataSectors h ! nat i \<in> set (take (nat (numSectors h)) (dataSectors h))" if "i \<in> set [int a..int b]" for i
      by (rule file_sector_in [OF assms(2)]) (use that assms(5) in auto)
    then show ?thesis using assms(3) by (auto simp: all_cached_def)
  qed
  then have "read_loop h [int a..int b] s = Inr (s, concat (map (view s) ?ns))"
    unfolding loop by (intro read_seq_cached [OF assms(1)]) blast
  moreover have "length (concat (map (view s) ?ns)) = 128 * (Suc b - a)"
    using length_blocks [of ?ns "view s" 128] ns assms(4) by (simp add: upto_int del: upt_Suc)
  ultimately show ?thesis by blast
qed

lemma ReadAt_cached:
  assumes "quiet s" "file_ok (hdr f)" "all_cached s (hdr f)" "0 < n" "p < nat (numBytes (hdr f))"
  shows "\<exists>bs t. OpenFile_ReadAt (int n) (int p) f s = Inr (s, f\<lparr>hdr := (hdr f)\<lparr>lastVistTime := t\<rparr>\<rparr>, bs)
     \<and> length bs = min n (nat (numBytes (hdr f)) - p)"
proof -
  define m where "m = min n (nat (numBytes (hdr f)) - p)"
  define a b where ab: "a = p div 128" "b = (p + m - 1) div 128"
  have m: "0 < m" "p + m \<le> nat (numBytes (hdr f))" using assms(4,5) by (auto simp: m_def)
  note span = span_bounds [OF m(1), of p, folded ab] and ends = span_ends [OF m(1), of p, folded ab]
  obtain buf where buf: "read_loop (hdr f) [int a..int b] s = Inr (s, buf)" "length buf = 128 * (Suc b - a)"
    using read_loop_cached [OF assms(1-3) span(1)] span_in_file [OF assms(2) m] unfolding ab by blast
  have fit: "p - 128 * a + m \<le> length buf" unfolding buf(2) using span by (simp add: diff_mult_distrib2)
  have start: "int p - int a * 128 = int (p - 128 * a)" using span(2) by (simp add: of_nat_diff mult.commute)
  have len: "(if numBytes (hdr f) < int p + int n then numBytes (hdr f) - int p else int n) = int m"
    using assms(4,5) by (auto simp: m_def)
  have inside: "\<not> numBytes (hdr f) \<le> int p" using assms(5) by auto
  have "OpenFile_ReadAt (int n) (int p) f s =
      Inr (s, f\<lparr>hdr := (hdr f)\<lparr>lastVistTime := host_time s\<rparr>\<rparr>, get_bytes (p - 128 * a) m buf)"
    using assms(4) inside buf(1) copy_out_ok [OF fit]
    by (simp add: OpenFile_ReadAt_def FileHeader_FileLength_def FileHeader_SetLastVisitTime_def Let_def len ends start)
  then show ?thesis using fit unfolding m_def [symmetric] by auto
qed

lemma write_loop_cached:
  assumes "quiet s" "file_ok h" "set is \<subseteq> {a..<nat (numSectors h)}" "\<forall>i\<in>set is. 128 * (i - a) + 128 \<le> length buf"
  shows "\<exists>s'. write_loop h buf (int a) (map int is) s = Inr s' \<and> quiet s' \<and> cache s' = cache s \<and> FiFoPointer s' = FiFoPointer s"
  using assms(1,3-)
proof (induction "is" arbitrary: s)
  case (Cons i "is")
  have i: "a \<le> i" "i < nat (numSectors h)" "128 * (i - a) + 128 \<le> length buf" using Cons.prems by auto
  have "copy_out buf ((int i - int a) * 128) 128 = Inr (get_bytes (128 * (i - a)) 128 buf)"
    using copy_out_ok [OF i(3)] i(1) by (simp add: of_nat_diff mult.commute)
  moreover obtain s1 where s1: "SynchDisk_WriteSector (dataSectors h ! i) (get_bytes (128 * (i - a)) 128 buf) s = Inr s1"
      "quiet s1" "cache s1 = cache s" "FiFoPointer s1 = FiFoPointer s"
    using WriteSector_ok [OF Cons.prems(1) file_sector [OF assms(2) i(2)], of "get_bytes (128 * (i - a)) 128 buf"] i(3) by auto
  moreover obtain s2 where "write_loop h buf (int a) (map int is) s1 = Inr s2" "quiet s2" "cache s2 = cache s1" "FiFoPointer s2 = FiFoPointer s1"
    using Cons.IH [OF s1(2)] Cons.prems by auto
  ultimately show ?case using file_lookup [OF assms(2) i(2), of s] by auto
qed simp

lemma read_into_cached:
  assumes "quiet s" "file_ok (hdr f)" "all_cached s (hdr f)" "128 * c + 128 \<le> length buf" "128 * i < nat (numBytes (hdr f))"
  shows "\<exists>buf' t. read_into buf (int (128 * c)) (int (128 * i)) f s = Inr (s, f\<lparr>hdr := (hdr f)\<lparr>lastVistTime := t\<rparr>\<rparr>, buf')
     \<and> length buf' = length buf"
proof -
  obtain bs t where r: "OpenFile_ReadAt (int 128) (int (128 * i)) f s = Inr (s, f\<lparr>hdr := (hdr f)\<lparr>lastVistTime := t\<rparr>\<rparr>, bs)" "length bs \<le> 128"
    using ReadAt_cached [OF assms(1-3) _ assms(5), of 128] by auto
  have fit: "128 * c + length bs \<le> length buf" using r(2) assms(4) by linarith
  show ?thesis
    using r(1) copy_in_ok [OF fit] fit unfolding read_into_def by auto
qed

lemma maybe_read_cached:
  assumes "quiet s" "file_ok (hdr f)" "all_cached s (hdr f)" "128 * c + 128 \<le> length buf" "128 * i < nat (numBytes (hdr f))"
    "start = int (128 * c)" "position = int (128 * i)"
  shows "\<exists>buf' t. (if C then read_into buf start position f s else Inr (s, f, buf)) = Inr (s, f\<lparr>hdr := (hdr f)\<lparr>lastVistTime := t\<rparr>\<rparr>, buf')
     \<and> length buf' = length buf"
proof (cases C)
  case True
  then show ?thesis using read_into_cached [OF assms(1-5)] unfolding assms(6,7) by auto
next
  case False
  then show ?thesis by (intro exI [of _ buf] exI [of _ "lastVistTime (hdr f)"]) simp
qed

lemma all_cached_time [simp]: "all_cached s (h\<lparr>lastVistTime := t\<rparr>) = all_cached s h"
  by (simp add: all_cached_def)

lemma read_partial_cached:
  assumes "quiet s" "file_ok (hdr f)" "all_cached s (hdr f)" "0 < m" "p + m \<le> nat (numBytes (hdr f))"
    and ab: "a = p div 128" "b = (p + m - 1) div 128"
  shows "\<exists>buf t. read_partial junk (int m) (int p) f s = Inr (s, f\<lparr>hdr := (hdr f)\<lparr>lastVistTime := t\<rparr>\<rparr>, buf)
     \<and> length buf = 128 * (Suc b - a)"
proof -
  note span = span_bounds [OF assms(4), of p, folded ab] and ends = span_ends [OF assms(4), of p, folded ab]
  let ?first = "int p \<noteq> int a * 128"
  let ?last = "int p + int m \<noteq> (int b + 1) * 128 \<and> (int a \<noteq> int b \<or> int p = int a * 128)"
  let ?buf = "map junk [0..<nat ((1 + int b - int a) * 128)]"
  have buf: "length ?buf = 128 * (Suc b - a)" using span(1) by (simp add: nat_mult_distrib)
  have fits: "128 * 0 + 128 \<le> length ?buf" "128 * (b - a) + 128 \<le> length ?buf"
    unfolding buf using span(1) by (simp_all add: diff_mult_distrib2)
  have inside: "128 * a < nat (numBytes (hdr f))" "128 * b < nat (numBytes (hdr f))" using span assms(5) by linarith+
  obtain buf1 t1 where r1: "(if ?first then read_into ?buf 0 (int a * 128) f s else Inr (s, f, ?buf)) =
      Inr (s, f\<lparr>hdr := (hdr f)\<lparr>lastVistTime := t1\<rparr>\<rparr>, buf1)" "length buf1 = length ?buf"
    using maybe_read_cached [OF assms(1-3) fits(1) inside(1), of 0 "int a * 128" ?first] by auto
  let ?f1 = "f\<lparr>hdr := (hdr f)\<lparr>lastVistTime := t1\<rparr>\<rparr>"
  have st: "(int b - int a) * 128 = int (128 * (b - a))" "int b * 128 = int (128 * b)" using span(1) by (simp_all add: of_nat_diff)
  have f1: "file_ok (hdr ?f1)" "all_cached s (hdr ?f1)" "128 * b < nat (numBytes (hdr ?f1))" "128 * (b - a) + 128 \<le> length buf1"
    using assms(2,3) inside(2) fits(2) unfolding r1(2) by simp_all
  obtain buf2 t2 where r2: "(if ?last then read_into buf1 ((int b - int a) * 128) (int b * 128) ?f1 s else Inr (s, ?f1, buf1)) =
      Inr (s, ?f1\<lparr>hdr := (hdr ?f1)\<lparr>lastVistTime := t2\<rparr>\<rparr>, buf2)" "length buf2 = length buf1"
    using maybe_read_cached [OF assms(1) f1(1,2,4,3) st, of ?last] by blast
  have "read_partial junk (int m) (int p) f s = Inr (s, f\<lparr>hdr := (hdr f)\<lparr>lastVistTime := t2\<rparr>\<rparr>, buf2)"
    using r1(1) r2(1) unfolding read_partial_def Let_def ends by simp
  then show ?thesis using r1(2) r2(2) buf by auto
qed

lemma WriteAt_cached:
  assumes "quiet s" "file_ok (hdr f)" "all_cached s (hdr f)" "0 < length from" "int (length from) \<le> numBytes (hdr f)"
  shows "\<exists>s' t u. OpenFile_WriteAt junk depth from 0 f s =
       Inr (s', f\<lparr>hdr := (hdr f)\<lparr>lastVistTime := t, lastModifyTime := u\<rparr>\<rparr>, int (length from))
     \<and> quiet s' \<and> cache s' = cache s \<and> FiFoPointer s' = FiFoPointer s"
proof -
  define a b where ab: "a = 0 div (128 :: nat)" "b = (0 + length from - 1) div 128"
  note span = span_bounds [OF assms(4), of 0, folded ab] and ends = span_ends [OF assms(4), of 0, folded ab]
  have inside: "0 + length from \<le> nat (numBytes (hdr f))" using assms(5) by auto
  have b: "b < nat (numSectors (hdr f))" unfolding ab by (rule span_in_file [OF assms(2,4) inside])
  obtain buf t where r: "read_partial junk (int (length from)) (int 0) f s = Inr (s, f\<lparr>hdr := (hdr f)\<lparr>lastVistTime := t\<rparr>\<rparr>, buf)"
      "length buf = 128 * (Suc b - a)"
    using read_partial_cached [OF assms(1-4) inside ab] by blast
  have fit: "0 + length from \<le> length buf" unfolding r(2) using span by (simp add: diff_mult_distrib2)
  have a: "a = 0" by (simp add: ab)
  let ?h = "(hdr f)\<lparr>lastVistTime := t\<rparr>" and ?buf = "put_bytes 0 from buf"
  have "set [a..<Suc b] \<subseteq> {a..<nat (numSectors ?h)}" "\<forall>i\<in>set [a..<Suc b]. 128 * (i - a) + 128 \<le> length ?buf" "file_ok ?h"
    using b fit assms(2) unfolding length_put_bytes [OF fit] r(2) by (auto simp: a)
  then obtain s' where w: "write_loop ?h ?buf (int a) [int a..int b] s = Inr s'" "quiet s'" "cache s' = cache s" "FiFoPointer s' = FiFoPointer s"
    using write_loop_cached [OF assms(1), of ?h "[a..<Suc b]" a ?buf] unfolding upto_int by blast
  have "write_sectors junk from (int 0) f s =
      Inr (s', f\<lparr>hdr := (hdr f)\<lparr>lastVistTime := t, lastModifyTime := host_time s'\<rparr>\<rparr>, int (length from))"
    using r(1) copy_in_ok [OF fit] w(1) unfolding write_sectors_def Let_def ends
    by (simp add: FileHeader_SetLastModifyTime_def a)
  moreover have "OpenFile_WriteAt junk depth from 0 f s = write_sectors junk from (int 0) f s"
    using assms(4,5) by (cases depth) (simp_all add: write_at_def FileHeader_FileLength_def)
  ultimately show ?thesis using w by auto
qed

text \<open>The slots of the cache: a sector keeps its slot until the FIFO pointer comes round.\<close>

lemma cache_find_new:
  "cache_find es n k = None \<Longrightarrow> j < length es \<Longrightarrow> ce_valid e = 1 \<Longrightarrow> ce_sector e = n \<Longrightarrow> cache_find (es[j := e]) n k = Some (k + j)"
  by (induction es arbitrary: j k) (auto split: nat.splits if_splits)

lemma cache_find_later: "cache_find es n (Suc k) \<noteq> Some k"
  using cache_find_Some [of es n "Suc k" k] by auto

lemma cache_find_other:
  "cache_find es n k = Some (k + i) \<Longrightarrow> j \<noteq> i \<Longrightarrow> ce_sector e \<noteq> n \<Longrightarrow> cache_find (es[j := e]) n k = Some (k + i)"
proof (induction es arbitrary: i j k)
  case (Cons c es)
  show ?case
  proof (cases i)
    case 0
    then have "ce_valid c = 1 \<and> ce_sector c = n" using Cons.prems(1) cache_find_later [of es n k] by (simp split: if_splits)
    then show ?thesis using 0 Cons.prems(2) by (cases j) simp_all
  next
    case (Suc i')
    then have "\<not> (ce_valid c = 1 \<and> ce_sector c = n)" "cache_find es n (Suc k) = Some (Suc k + i')"
      using Cons.prems(1) by (auto split: if_splits)
    then show ?thesis using Suc Cons.prems(2,3) Cons.IH [of "Suc k" i'] by (cases j) auto
  qed
qed simp

definition slot :: "sdisk \<Rightarrow> nat \<Rightarrow> int \<Rightarrow> 8 word list \<Rightarrow> bool" where
  "slot s i n bs \<longleftrightarrow> cache_find (cache s) n 0 = Some i \<and> ce_data (cache s ! i) = bs"

lemma slot_cached: "slot s i n bs \<Longrightarrow> cached s n \<and> view s n = bs"
  by (simp add: slot_def cached_def view_def)

lemma slot_new:
  assumes "quiet s" "\<not> cached s n" "SynchDisk_ReadSector n s = Inr (s', bs)"
  shows "slot s' (FiFoPointer s) n bs \<and> FiFoPointer s' = (FiFoPointer s + 1) mod 4 \<and> bs = sector s n"
  using ReadSector_inv [OF assms(1,3)] assms(1,2) cache_find_new [of "cache s" n 0 "FiFoPointer s"]
  by (auto simp: slot_def uncached_view cached_def quiet_def)

lemma slot_keep:
  assumes "quiet s" "slot s i n bs" "SynchDisk_ReadSector m s = Inr (s', ds)" "i \<noteq> FiFoPointer s"
  shows "slot s' i n bs"
proof (cases "cached s m")
  case True
  then show ?thesis using ReadSector_hit [OF assms(1) True] assms(2,3) by simp
next
  case False
  then have "m \<noteq> n" using slot_cached [OF assms(2)] by auto
  moreover have "cache s' = (cache s)[FiFoPointer s := \<lparr>ce_valid = 1, ce_sector = m, ce_data = sector s m\<rparr>]"
    using ReadSector_inv [OF assms(1,3)] False by simp
  ultimately show ?thesis
    using assms(2,4) cache_find_other [of "cache s" n 0 i "FiFoPointer s"] by (auto simp: slot_def)
qed

lemma not_cached_read:
  assumes "quiet s" "\<not> cached s b" "a \<noteq> b" "SynchDisk_ReadSector a s = Inr (s', x)"
  shows "\<not> cached s' b"
proof
  assume "cached s' b"
  then obtain e where e: "e \<in> set (cache s')" "ce_valid e = 1" "ce_sector e = b"
    using cache_find_None [of "cache s'" b 0] by (auto simp: cached_def)
  have "e \<in> insert \<lparr>ce_valid = 1, ce_sector = a, ce_data = sector s a\<rparr> (set (cache s))"
    using ReadSector_inv [OF assms(1,4)] e(1) set_update_subset_insert [of "cache s"] by (auto split: if_splits)
  then show False using e assms(2,3) cache_find_None [of "cache s" b 0] by (auto simp: cached_def)
qed

lemma fifo_keeps:
  assumes "quiet s" "\<not> cached s a" "\<not> cached s b" "a \<noteq> b"
    and r: "SynchDisk_ReadSector a s = Inr (s1, x)" "SynchDisk_ReadSector b s1 = Inr (s2, y)" "SynchDisk_ReadSector c s2 = Inr (s3, z)"
  shows "cached s3 a \<and> view s3 a = x \<and> cached s3 b \<and> view s3 b = y"
proof -
  let ?p = "FiFoPointer s"
  have q: "quiet s1" "quiet s2" using ReadSector_inv [OF assms(1) r(1)] ReadSector_inv [OF _ r(2)] by auto
  have p: "?p < 4" using assms(1) by (simp add: quiet_def)
  have 1: "slot s1 ?p a x" "FiFoPointer s1 = (?p + 1) mod 4" using slot_new [OF assms(1,2) r(1)] by auto
  have 2: "slot s2 (FiFoPointer s1) b y" "FiFoPointer s2 = (FiFoPointer s1 + 1) mod 4"
    using slot_new [OF q(1) not_cached_read [OF assms(1,3,4) r(1)] r(2)] by auto
  have ne: "?p \<noteq> (?p + 1) mod 4" "?p \<noteq> ((?p + 1) mod 4 + 1) mod 4" "(?p + 1) mod 4 \<noteq> ((?p + 1) mod 4 + 1) mod 4"
  proof -
    have "?p = 0 \<or> ?p = 1 \<or> ?p = 2 \<or> ?p = 3" using p by linarith
    then show "?p \<noteq> (?p + 1) mod 4" "?p \<noteq> ((?p + 1) mod 4 + 1) mod 4" "(?p + 1) mod 4 \<noteq> ((?p + 1) mod 4 + 1) mod 4" by auto
  qed
  have "slot s2 ?p a x" using slot_keep [OF q(1) 1(1) r(2)] 1(2) ne(1) by simp
  then have "slot s3 ?p a x" using slot_keep [OF q(2) _ r(3)] 1(2) 2(2) ne(2) by simp
  moreover have "slot s3 (FiFoPointer s1) b y" using slot_keep [OF q(2) 2(1) r(3)] 1(2) 2(2) ne(3) by simp
  ultimately show ?thesis using slot_cached by blast
qed

subsection \<open>The directory and free-map files\<close>

definition dir_file :: "int \<Rightarrow> int \<Rightarrow> OpenFile \<Rightarrow> bool" where
  "dir_file a b f \<longleftrightarrow> file_ok (hdr f) \<and> numBytes (hdr f) = 200 \<and> numSectors (hdr f) = 2 \<and> take 2 (dataSectors (hdr f)) = [a, b]"

definition map_file :: "int \<Rightarrow> OpenFile \<Rightarrow> bool" where
  "map_file c f \<longleftrightarrow> file_ok (hdr f) \<and> numBytes (hdr f) = 128 \<and> numSectors (hdr f) = 1 \<and> take 1 (dataSectors (hdr f)) = [c]"

lemma file_times [simp]:
  "dir_file a b (f\<lparr>hdr := (hdr f)\<lparr>lastVistTime := t\<rparr>\<rparr>) = dir_file a b f"
  "dir_file a b (f\<lparr>hdr := (hdr f)\<lparr>lastVistTime := t, lastModifyTime := u\<rparr>\<rparr>) = dir_file a b f"
  "map_file c (f\<lparr>hdr := (hdr f)\<lparr>lastVistTime := t\<rparr>\<rparr>) = map_file c f"
  "map_file c (f\<lparr>hdr := (hdr f)\<lparr>lastVistTime := t, lastModifyTime := u\<rparr>\<rparr>) = map_file c f"
  by (simp_all add: dir_file_def map_file_def file_ok_def)

lemma dir_read:
  assumes "dir_file a b f" "SynchDisk_ReadSector a s = Inr (s1, x)" "SynchDisk_ReadSector b s1 = Inr (s2, y)"
    "length x = 128" "length y = 128"
  shows "OpenFile_ReadAt 200 0 f s = Inr (s2, f\<lparr>hdr := (hdr f)\<lparr>lastVistTime := host_time s2\<rparr>\<rparr>, take 200 (x @ y))"
proof -
  have ok: "file_ok (hdr f)" "numBytes (hdr f) = 200" "numSectors (hdr f) = 2" using assms(1) by (auto simp: dir_file_def)
  have ds: "dataSectors (hdr f) ! 0 = a" "dataSectors (hdr f) ! 1 = b"
    using assms(1) nth_take [of 0 2 "dataSectors (hdr f)"] nth_take [of 1 2 "dataSectors (hdr f)"] by (auto simp: dir_file_def)
  have "[0..1] = [0, 1 :: int]" by (simp add: upto.simps)
  moreover have "FileHeader_ByteToSector 0 (hdr f) s = Inr (s, a)" "FileHeader_ByteToSector 128 (hdr f) s1 = Inr (s1, b)"
    using file_lookup [OF ok(1), of 0] file_lookup [OF ok(1), of 1] ok(3) ds by simp_all
  ultimately have "read_loop (hdr f) [0..1] s = Inr (s2, x @ y)" using assms(2,3) by simp
  moreover have "divRoundDown 0 128 = 0" "divRoundDown 199 128 = 1" by (simp_all add: divRoundDown_def cdiv_def)
  ultimately show ?thesis
    using ok assms(4,5)
    by (simp add: OpenFile_ReadAt_def FileHeader_FileLength_def Let_def copy_out_def get_bytes_def FileHeader_SetLastVisitTime_def)
qed

lemma map_read:
  assumes "map_file c f" "SynchDisk_ReadSector c s = Inr (s1, z)" "length z = 128"
  shows "OpenFile_ReadAt 128 0 f s = Inr (s1, f\<lparr>hdr := (hdr f)\<lparr>lastVistTime := host_time s1\<rparr>\<rparr>, z)"
proof -
  have ok: "file_ok (hdr f)" "numBytes (hdr f) = 128" "numSectors (hdr f) = 1" using assms(1) by (auto simp: map_file_def)
  have "dataSectors (hdr f) ! 0 = c"
    using assms(1) nth_take [of 0 1 "dataSectors (hdr f)"] by (auto simp: map_file_def)
  then have loop: "read_loop (hdr f) [0] s = Inr (s1, z)" using file_lookup [OF ok(1), of 0] ok(3) assms(2) by simp
  have "divRoundDown 0 128 = 0" "divRoundDown 127 128 = 0" by (simp_all add: divRoundDown_def cdiv_def)
  then show ?thesis
    using ok assms(3)
    by (simp add: OpenFile_ReadAt_def FileHeader_FileLength_def Let_def copy_out_def get_bytes_def FileHeader_SetLastVisitTime_def
      loop del: read_loop.simps)
qed

abbreviation (input) dir_of :: "8 word list \<Rightarrow> Directory" where
  "dir_of bs \<equiv> \<lparr>tableSize = 10, table = bytes_table 10 bs\<rparr>"

lemma put_all: "length bs = length mem \<Longrightarrow> put_bytes 0 bs mem = bs"
  by (simp add: put_bytes_def)

lemma dir_fetch:
  assumes "dir_file a b f" "SynchDisk_ReadSector a s = Inr (s1, x)" "SynchDisk_ReadSector b s1 = Inr (s2, y)"
    "length x = 128" "length y = 128" "\<forall>i. length (name (garbage i)) = 10"
  shows "Directory_FetchFrom f (Directory_Directory garbage 10) s =
     Inr (s2, f\<lparr>hdr := (hdr f)\<lparr>lastVistTime := host_time s2\<rparr>\<rparr>, dir_of (take 200 (x @ y)))"
proof -
  let ?es = "table (Directory_Directory garbage 10)"
  have "length (table_bytes ?es) = 200"
    using length_blocks [of ?es entry_bytes 20] assms(6)
    by (simp add: table_bytes_def Directory_Directory_def length_entry_bytes)
  then have "copy_in (take 200 (x @ y)) (table_bytes ?es) 0 = Inr (take 200 (x @ y))"
    using copy_in_ok [of 0 "take 200 (x @ y)" "table_bytes ?es"] assms(4,5) by (simp add: put_all)
  then show ?thesis
    using dir_read [OF assms(1-5)] by (simp add: Directory_FetchFrom_def Directory_Directory_def)
qed

lemma length_bytes_words: "length (bytes_words bs) = length bs div 4"
  by (induction bs rule: bytes_words.induct) simp_all

lemma map_fetch:
  assumes "map_file c f" "SynchDisk_ReadSector c s = Inr (s1, z)" "length z = 128" "numWords bm = 32" "length (bm_map bm) = 32"
  shows "BitMap_FetchFrom f bm s = Inr (s1, f\<lparr>hdr := (hdr f)\<lparr>lastVistTime := host_time s1\<rparr>\<rparr>, bm\<lparr>bm_map := bytes_words z\<rparr>)"
proof -
  have "copy_in z (words_bytes (bm_map bm)) 0 = Inr z"
    using copy_in_ok [of 0 z "words_bytes (bm_map bm)"] assms(3,5) by (simp add: put_all)
  then show ?thesis using map_read [OF assms(1-3)] assms(4) by (simp add: BitMap_FetchFrom_def)
qed

text \<open>No operation changes the size of a bitmap or of a header.\<close>

definition same_shape :: "bitmap \<Rightarrow> bitmap \<Rightarrow> bool" where
  "same_shape bm bm' \<longleftrightarrow> numBits bm' = numBits bm \<and> numWords bm' = numWords bm \<and> length (bm_map bm') = length (bm_map bm)"

lemma same_shape_refl: "same_shape bm bm"
  and same_shape_trans: "same_shape bm bm' \<Longrightarrow> same_shape bm' bm'' \<Longrightarrow> same_shape bm bm''"
  by (auto simp: same_shape_def)

lemma Mark_shape: "BitMap_Mark bm i = Inr bm' \<Longrightarrow> same_shape bm bm'"
  by (auto simp: BitMap_Mark_def map_put_def same_shape_def)

lemma find_loop_shape: "find_loop bm is = Inr (bm', v) \<Longrightarrow> same_shape bm bm'"
  by (induction "is") (auto intro: same_shape_refl Mark_shape split: if_splits)

lemma mark_run_shape: "mark_run bm i js = Inr bm' \<Longrightarrow> same_shape bm bm'"
  by (induction js arbitrary: bm) (auto intro: same_shape_refl same_shape_trans Mark_shape)

lemma first_find_shape: "first_find_loop bm sz is = Inr (bm', v) \<Longrightarrow> same_shape bm bm'"
  by (induction "is") (auto intro: same_shape_refl mark_run_shape split: if_splits)

lemma array_put_length: "array_put arr i v = Inr arr' \<Longrightarrow> length arr' = length arr"
  by (auto simp: array_put_def split: if_splits)

lemma run_fill_length: "run_fill arr n is = Inr arr' \<Longrightarrow> length arr' = length arr"
  by (induction "is" arbitrary: arr) (auto dest: array_put_length)

lemma find_fill_shape: "find_fill bm arr is = Inr (bm', arr') \<Longrightarrow> same_shape bm bm' \<and> length arr' = length arr"
proof (induction "is" arbitrary: bm arr)
  case (Cons i "is")
  then obtain bm1 v arr1 where "BitMap_Find bm = Inr (bm1, v)" "array_put arr i v = Inr arr1" "find_fill bm1 arr1 is = Inr (bm', arr')"
    by auto
  then show ?case
    using Cons.IH find_loop_shape array_put_length same_shape_trans unfolding BitMap_Find_def by metis
qed (simp add: same_shape_refl)

lemma Allocate_shape:
  assumes "FileHeader_Allocate st bm n h s = Inr (s', bm', h', True)" "divRoundUp n SectorSize \<le> 26"
  shows "s' = s \<and> same_shape bm bm' \<and> length (dataSectors h') = length (dataSectors h)"
  using assms
  by (auto simp: FileHeader_Allocate_def FileHeader_SetLastModifyTime_def FileHeader_SetLastVisitTime_def
      FileHeader_SetCreatTime_def Let_def BitMap_FirstFind_def split: if_splits
      dest: run_fill_length find_fill_shape first_find_shape intro: same_shape_trans)

lemma add_entry_shape:
  "add_entry nm n es = (es', ok) \<Longrightarrow> \<forall>e\<in>set es. length (name e) = 10 \<Longrightarrow>
   length es' = length es \<and> (\<forall>e\<in>set es'. length (name e) = 10)"
  by (induction es arbitrary: es' ok) (auto split: if_splits prod.splits)

lemma bytes_table_names:
  assumes "20 * n \<le> length bs"
  shows "length (bytes_table n bs) = n \<and> (\<forall>e\<in>set (bytes_table n bs). length (name e) = 10)"
proof -
  have "length (get_bytes (20 * i) 20 bs) = 20" if "i < n" for i
    using assms that by (intro length_get_bytes) linarith
  then show ?thesis by (simp add: bytes_table_def bytes_entry_def)
qed

lemma Add_bytes:
  assumes "Directory_Add nm n (dir_of bs) = (d, ok)" "length bs = 200"
  shows "length (table_bytes (table d)) = 200"
proof -
  have "length (table d) = 10 \<and> (\<forall>e\<in>set (table d). length (name e) = 10)"
    using assms add_entry_shape [of nm n "bytes_table 10 bs"] bytes_table_names [of 10 bs]
    by (auto simp: Directory_Add_def split: if_splits prod.splits)
  then show ?thesis
    using length_blocks [of "table d" entry_bytes 20] by (simp add: table_bytes_def length_entry_bytes)
qed

text \<open>A state in which the two files are open and intact and the directory has not been read yet.\<close>

definition mounted :: "junk \<Rightarrow> int \<Rightarrow> int \<Rightarrow> int \<Rightarrow> filesys \<Rightarrow> sdisk \<Rightarrow> bool" where
  "mounted junk a b c fs s \<longleftrightarrow> quiet s \<and> coherent s \<and> dir_file a b (directoryFile fs) \<and> map_file c (freeMapFile fs)
     \<and> a \<noteq> b \<and> \<not> cached s a \<and> \<not> cached s b
     \<and> (\<forall>i. length (name (jdir junk i)) = 10) \<and> length (dataSectors (jhdr junk)) = 26"

lemma mounted_reads:
  assumes "mounted junk a b c fs s"
  shows "\<exists>s1 s2 s3. SynchDisk_ReadSector a s = Inr (s1, sector s a) \<and> SynchDisk_ReadSector b s1 = Inr (s2, sector s b)
     \<and> SynchDisk_ReadSector c s2 = Inr (s3, sector s c) \<and> quiet s3 \<and> coherent s3 \<and> (\<forall>k. sector s3 k = sector s k)
     \<and> length (sector s a) = 128 \<and> length (sector s b) = 128 \<and> length (sector s c) = 128
     \<and> all_cached s3 (hdr (directoryFile fs)) \<and> all_cached s3 (hdr (freeMapFile fs))
     \<and> view s3 a = sector s a \<and> view s3 b = sector s b"
proof -
  have q: "quiet s" "coherent s" and d: "dir_file a b (directoryFile fs)" and m: "map_file c (freeMapFile fs)"
    and n: "a \<noteq> b" "\<not> cached s a" "\<not> cached s b" using assms by (auto simp: mounted_def)
  have r: "0 \<le> a" "a < NumSectors" "0 \<le> b" "b < NumSectors" "0 \<le> c" "c < NumSectors"
    using d m by (auto simp: dir_file_def map_file_def file_ok_def)
  then have len: "length (sector s a) = 128" "length (sector s b) = 128" "length (sector s c) = 128"
    using q by (simp_all add: sd.contents_length)
  obtain s1 where s1: "SynchDisk_ReadSector a s = Inr (s1, sector s a)" "quiet s1" "coherent s1" "\<forall>k. sector s1 k = sector s k"
    using ReadSector_coherent_ok [OF q r(1,2)] by blast
  obtain s2 where s2: "SynchDisk_ReadSector b s1 = Inr (s2, sector s b)" "quiet s2" "coherent s2" "\<forall>k. sector s2 k = sector s k"
    using ReadSector_coherent_ok [OF s1(2,3) r(3,4)] s1(4) by auto
  obtain s3 where s3: "SynchDisk_ReadSector c s2 = Inr (s3, sector s c)" "quiet s3" "coherent s3" "\<forall>k. sector s3 k = sector s k" "cached s3 c"
    using ReadSector_coherent_ok [OF s2(2,3) r(5,6)] s2(4) by auto
  have keep: "cached s3 a" "view s3 a = sector s a" "cached s3 b" "view s3 b = sector s b"
    using fifo_keeps [OF q(1) n(2,3,1) s1(1) s2(1) s3(1)] by auto
  have "view s3 c = sector s c" using coherent_view [OF s3(3)] s3(4) by simp
  then have "all_cached s3 (hdr (directoryFile fs))" "all_cached s3 (hdr (freeMapFile fs))"
    using d m keep s3(5) len by (auto simp: all_cached_def dir_file_def map_file_def)
  then show ?thesis using s1 s2 s3 len keep by blast
qed

lemma all_cached_eq:
  assumes "all_cached s h" "cache s' = cache s" "dataSectors h' = dataSectors h" "numSectors h' = numSectors h"
    "\<forall>k. cached s k \<longrightarrow> view s' k = view s k"
  shows "all_cached s' h'"
  using assms by (auto simp: all_cached_def cached_def)

lemma view_cache: "cache s' = cache s \<Longrightarrow> cached s k \<Longrightarrow> view s' k = view s k"
  by (auto simp: view_def cached_def split: option.splits)

lemma WriteBack_inv:
  assumes "FileHeader_WriteBack n h s = Inr (s', h')" "quiet s" "length (dataSectors h) = 26"
  shows "quiet s' \<and> cache s' = cache s"
  using assms WriteSector_inv [OF assms(2), of n _ s']
  by (auto simp: FileHeader_WriteBack_def FileHeader_SetLastModifyTime_def Let_def)

text \<open>Writing the two files back touches no cache entry.\<close>

lemma write_both:
  assumes "quiet s" "dir_file a b f" "map_file c g" "all_cached s (hdr f)" "all_cached s (hdr g)"
    "length (table_bytes (table d)) = 200" "length (bm_map bm) = 32"
  shows "\<exists>s1 f' s2 g'. Directory_WriteBack (OpenFile_WriteAt junk depth) f d s = Inr (s1, f')
     \<and> BitMap_WriteBack (OpenFile_WriteAt junk depth) g bm s1 = Inr (s2, g')
     \<and> quiet s2 \<and> cache s2 = cache s \<and> dir_file a b f' \<and> map_file c g'"
proof -
  have f: "file_ok (hdr f)" "0 < length (table_bytes (table d))" "int (length (table_bytes (table d))) \<le> numBytes (hdr f)"
    using assms(2,6) by (auto simp: dir_file_def)
  have g: "file_ok (hdr g)" "0 < length (words_bytes (bm_map bm))" "int (length (words_bytes (bm_map bm))) \<le> numBytes (hdr g)"
    using assms(3,7) by (auto simp: map_file_def)
  obtain s1 t u where w1: "OpenFile_WriteAt junk depth (table_bytes (table d)) 0 f s =
      Inr (s1, f\<lparr>hdr := (hdr f)\<lparr>lastVistTime := t, lastModifyTime := u\<rparr>\<rparr>, int (length (table_bytes (table d))))"
      "quiet s1" "cache s1 = cache s"
    using WriteAt_cached [OF assms(1) f(1) assms(4) f(2,3)] by blast
  have "all_cached s1 (hdr g)" using all_cached_eq [OF assms(5) w1(3) refl refl] view_cache [OF w1(3)] by blast
  then obtain s2 t' u' where w2: "OpenFile_WriteAt junk depth (words_bytes (bm_map bm)) 0 g s1 =
      Inr (s2, g\<lparr>hdr := (hdr g)\<lparr>lastVistTime := t', lastModifyTime := u'\<rparr>\<rparr>, int (length (words_bytes (bm_map bm))))"
      "quiet s2" "cache s2 = cache s1"
    using WriteAt_cached [OF w1(2) g(1) _ g(2,3)] by blast
  show ?thesis
    using w1 w2 assms(2,3) by (simp add: Directory_WriteBack_def BitMap_WriteBack_def)
qed

lemma create_flush:
  assumes q: "quiet s" and files: "dir_file a b f" "map_file c g" "all_cached s (hdr f)" "all_cached s (hdr g)"
    and bm: "length (bm_map bm) = 32" "BitMap_Find bm = Inr (bm2, n)" and d2: "length (table_bytes (table d2)) = 200"
    and al: "FileHeader_Allocate st bm2 initialSize h0 s = Inr (s4, bm3, h, True)" "length (dataSectors h0) = 26"
      "divRoundUp initialSize SectorSize \<le> 26"
    and r: "rbind (FileHeader_WriteBack n h s4) (\<lambda>(s, h).
         rbind (Directory_WriteBack (OpenFile_WriteAt junk depth) f d2 s) (\<lambda>(s, f).
         rbind (BitMap_WriteBack (OpenFile_WriteAt junk depth) g bm3 s) (\<lambda>(s, g).
           Inr (s, fs\<lparr>directoryFile := f, freeMapFile := g\<rparr>, True)))) = Inr (s', fs', True)"
  shows "quiet s' \<and> cache s' = cache s \<and> dir_file a b (directoryFile fs')"
proof -
  have a4: "s4 = s" "same_shape bm2 bm3" "length (dataSectors h) = 26" using Allocate_shape [OF al(1,3)] al(2) by auto
  have "same_shape bm bm3"
    using find_loop_shape bm(2) a4(2) same_shape_trans unfolding BitMap_Find_def by blast
  then have b3: "length (bm_map bm3) = 32" using bm(1) by (simp add: same_shape_def)
  obtain s5 h5 where s5: "FileHeader_WriteBack n h s = Inr (s5, h5)" using r a4(1) by auto
  then have q5: "quiet s5" "cache s5 = cache s" using WriteBack_inv q a4(3) by blast+
  have ac: "all_cached s5 (hdr f)" "all_cached s5 (hdr g)"
    using all_cached_eq [OF files(3) q5(2)] all_cached_eq [OF files(4) q5(2)] view_cache [OF q5(2)] by auto
  obtain s6 f6 s7 g7 where
    "Directory_WriteBack (OpenFile_WriteAt junk depth) f d2 s5 = Inr (s6, f6)"
    "BitMap_WriteBack (OpenFile_WriteAt junk depth) g bm3 s6 = Inr (s7, g7)"
    "quiet s7" "cache s7 = cache s5" "dir_file a b f6"
    using write_both [OF q5(1) files(1,2) ac d2 b3, of junk depth] by blast
  then show ?thesis using r s5 a4(1) q5(2) by auto
qed

lemma Create_keeps_view:
  assumes m: "mounted junk a b c fs s" and n: "divRoundUp initialSize SectorSize \<le> 26"
    and r: "FileSystem_Create junk depth nm initialSize fs s = Inr (s', fs', True)"
  shows "quiet s' \<and> cached s' a \<and> view s' a = sector s a \<and> cached s' b \<and> view s' b = sector s b
     \<and> dir_file a b (directoryFile fs') \<and> Directory_Find nm (dir_of (take 200 (sector s a @ sector s b))) = - 1"
proof -
  obtain s1 s2 s3 where reads: "SynchDisk_ReadSector a s = Inr (s1, sector s a)" "SynchDisk_ReadSector b s1 = Inr (s2, sector s b)"
      "SynchDisk_ReadSector c s2 = Inr (s3, sector s c)" and q3: "quiet s3"
    and len: "length (sector s a) = 128" "length (sector s b) = 128" "length (sector s c) = 128"
    and ac: "all_cached s3 (hdr (directoryFile fs))" "all_cached s3 (hdr (freeMapFile fs))"
    and v: "view s3 a = sector s a" "view s3 b = sector s b"
    using mounted_reads [OF m] by blast
  have d: "dir_file a b (directoryFile fs)" and mf: "map_file c (freeMapFile fs)"
    and j: "\<forall>i. length (name (jdir junk i)) = 10" "length (dataSectors (jhdr junk)) = 26"
    using m by (auto simp: mounted_def)
  let ?bs = "take 200 (sector s a @ sector s b)"
  let ?f = "(directoryFile fs)\<lparr>hdr := (hdr (directoryFile fs))\<lparr>lastVistTime := host_time s2\<rparr>\<rparr>"
  let ?g = "(freeMapFile fs)\<lparr>hdr := (hdr (freeMapFile fs))\<lparr>lastVistTime := host_time s3\<rparr>\<rparr>"
  note fetch = dir_fetch [OF d reads(1,2) len(1,2) j(1)]
  obtain bm where bm: "BitMap_BitMap (\<lambda>_. 0) NumSectors = Inr bm" "numWords bm = 32" "length (bm_map bm) = 32"
    using BitMap_BitMap_ok [of NumSectors "\<lambda>_. 0"] by (auto simp: bitmap_ok_def divRoundUp_def)
  note mfetch = map_fetch [OF mf reads(3) len(3) bm(2,3)]
  let ?bm = "bm\<lparr>bm_map := bytes_words (sector s c)\<rparr>"
  have none: "Directory_Find nm (dir_of ?bs) = - 1"
    using r fetch by (auto simp: FileSystem_Create_def Let_def split: if_splits)
  obtain bm2 n d2 s4 bm3 h where st: "BitMap_Find ?bm = Inr (bm2, n)" "Directory_Add nm n (dir_of ?bs) = (d2, True)"
      "FileHeader_Allocate (jstack junk) bm2 initialSize (jhdr junk) s3 = Inr (s4, bm3, h, True)"
      and rest: "rbind (FileHeader_WriteBack n h s4) (\<lambda>(s, h).
         rbind (Directory_WriteBack (OpenFile_WriteAt (jbuf junk) depth) ?f d2 s) (\<lambda>(s, f).
         rbind (BitMap_WriteBack (OpenFile_WriteAt (jbuf junk) depth) ?g bm3 s) (\<lambda>(s, g).
           Inr (s, fs\<lparr>directoryFile := f, freeMapFile := g\<rparr>, True)))) = Inr (s', fs', True)"
    using r none by (auto simp: FileSystem_Create_def Let_def fetch mfetch bm(1) split: if_splits prod.splits)
  have "length (bm_map ?bm) = 32" "length ?bs = 200" using len by (simp_all add: length_bytes_words)
  then have e: "quiet s'" "cache s' = cache s3" "dir_file a b (directoryFile fs')"
    using create_flush [OF q3 _ _ _ _ _ st(1) Add_bytes [OF st(2)] st(3) j(2) n rest] d mf ac by simp_all
  moreover have "cached s3 a" "cached s3 b" using ac(1) d by (auto simp: all_cached_def dir_file_def)
  ultimately show ?thesis using v none view_cache [OF e(2)] by (simp add: cached_def)
qed

subsection \<open>Properties\<close>

definition example_fs :: filesys where
  "example_fs =
     \<lparr>freeMapFile = \<lparr>fileSector = 0,
        hdr = \<lparr>createTime = 0, lastVistTime = 0, lastModifyTime = 0, hdrSector = 0, numBytes = 128, numSectors = 1,
               dataSectors = 42 # replicate 25 0\<rparr>, seekPosition = 0\<rparr>,
      directoryFile = \<lparr>fileSector = 1,
        hdr = \<lparr>createTime = 0, lastVistTime = 0, lastModifyTime = 0, hdrSector = 1, numBytes = 200, numSectors = 2,
               dataSectors = 40 # 41 # replicate 24 0\<rparr>, seekPosition = 0\<rparr>,
      OpenFileTable = replicate 128 (- 1)\<rparr>"

definition example_junk :: junk where
  "example_junk =
     \<lparr>jbuf = (\<lambda>_. 9), jdir = (\<lambda>_. \<lparr>inUse = True, entrySector = 3, name = replicate 10 97, entryType = True\<rparr>),
      jhdr = \<lparr>createTime = 1, lastVistTime = 2, lastModifyTime = 3, hdrSector = 4, numBytes = 5, numSectors = 6,
              dataSectors = replicate 26 7\<rparr>,
      jstack = replicate 32 8\<rparr>"

text \<open>A new disk: the directory is empty and no sector is marked as used.\<close>

lemma example_mounted:
  "\<exists>s. SynchDisk_SynchDisk no_cache 0 None Interrupt_Interrupt = Inr s \<and> mounted example_junk 40 41 42 example_fs s
     \<and> quiet s \<and> sector s 40 = replicate 128 0 \<and> sector s 41 = replicate 128 0 \<and> sector s 42 = replicate 128 0"
proof -
  obtain s where s: "SynchDisk_SynchDisk no_cache 0 None Interrupt_Interrupt = Inr s" "quiet s" "coherent s" "cache s = no_cache"
      "sector s 40 = replicate 128 0" "sector s 41 = replicate 128 0" "sector s 42 = replicate 128 0"
    using new_disk [of 0] by auto
  have "dir_file 40 41 (directoryFile example_fs)" "map_file 42 (freeMapFile example_fs)"
    by (auto simp: example_fs_def dir_file_def map_file_def file_ok_def)
  then have "mounted example_junk 40 41 42 example_fs s"
    using s(2-4) by (simp add: mounted_def example_junk_def cached_def numeral_eq_Suc)
  then show ?thesis using s by blast
qed

lemma example_dir: "bytes_table 10 (replicate 200 0) = replicate 10 \<lparr>inUse = False, entrySector = 0, name = replicate 10 0, entryType = False\<rparr>"
proof -
  have "bytes_entry (replicate 20 0) = \<lparr>inUse = False, entrySector = 0, name = replicate 10 0, entryType = False\<rparr>"
    by (simp add: bytes_entry_def get_bytes_def word4_def)
  moreover have "get_bytes (20 * i) 20 (replicate 200 0) = replicate 20 (0 :: 8 word)" if "i < 10" for i
    using that by (simp add: get_bytes_def)
  ultimately show ?thesis by (intro nth_equalityI) (simp_all add: bytes_table_def)
qed

lemma example_map:
  assumes "BitMap_BitMap (\<lambda>_. 0) NumSectors = Inr bm" "numBits bm = NumSectors" "numWords bm = 32"
  shows "bitmap_ok (bm\<lparr>bm_map := bytes_words (replicate 128 0)\<rparr>)" "bits_of (bm\<lparr>bm_map := bytes_words (replicate 128 0)\<rparr>) = {}"
proof -
  have "bytes_words (replicate 128 0) = bytes_words (words_bytes (replicate 32 0))"
    by (simp add: words_bytes_def bytes4_def numeral_eq_Suc)
  then have b: "bytes_words (replicate 128 0) = replicate 32 0" by simp
  show "bitmap_ok (bm\<lparr>bm_map := bytes_words (replicate 128 0)\<rparr>)"
    unfolding b using assms(2,3) by (simp add: bitmap_ok_def divRoundUp_def)
  show "bits_of (bm\<lparr>bm_map := bytes_words (replicate 128 0)\<rparr>) = {}"
    unfolding b using assms(2) by (auto simp: bits_of_def bm_bit_def)
qed

lemma example_create:
  assumes m: "mounted example_junk 40 41 42 example_fs s"
    and z: "sector s 40 = replicate 128 0" "sector s 41 = replicate 128 0" "sector s 42 = replicate 128 0"
  shows "\<exists>s3 f g bm d fs. quiet s3 \<and> dir_file 40 41 f \<and> map_file 42 g \<and> all_cached s3 (hdr f) \<and> all_cached s3 (hdr g)
     \<and> bitmap_ok bm \<and> numBits bm = NumSectors \<and> bits_of bm = {0} \<and> length (bm_map bm) = 32 \<and> length (table_bytes (table d)) = 200
     \<and> (\<forall>n s4 bm4 h. FileHeader_Allocate (jstack example_junk) bm n (jhdr example_junk) s3 = Inr (s4, bm4, h, False) \<longrightarrow>
          FileSystem_Create example_junk 0 [97] n example_fs s = Inr (s4, fs, False))
     \<and> (\<forall>n s4 bm4 h s5 h5 s6 f6 s7 g7. FileHeader_Allocate (jstack example_junk) bm n (jhdr example_junk) s3 = Inr (s4, bm4, h, True)
          \<and> FileHeader_WriteBack 0 h s4 = Inr (s5, h5) \<and> Directory_WriteBack (OpenFile_WriteAt (jbuf example_junk) 0) f d s5 = Inr (s6, f6)
          \<and> BitMap_WriteBack (OpenFile_WriteAt (jbuf example_junk) 0) g bm4 s6 = Inr (s7, g7) \<longrightarrow>
          (\<exists>fs'. FileSystem_Create example_junk 0 [97] n example_fs s = Inr (s7, fs', True)))"
proof -
  let ?f = "directoryFile example_fs" and ?g = "freeMapFile example_fs"
  obtain s1 s2 s3 where reads: "SynchDisk_ReadSector 40 s = Inr (s1, sector s 40)" "SynchDisk_ReadSector 41 s1 = Inr (s2, sector s 41)"
      "SynchDisk_ReadSector 42 s2 = Inr (s3, sector s 42)" and q3: "quiet s3"
    and len: "length (sector s 40) = 128" "length (sector s 41) = 128" "length (sector s 42) = 128"
    and ac: "all_cached s3 (hdr ?f)" "all_cached s3 (hdr ?g)"
    using mounted_reads [OF m] by blast
  have d: "dir_file 40 41 ?f" and mf: "map_file 42 ?g" and j: "\<forall>i. length (name (jdir example_junk i)) = 10"
    using m by (auto simp: mounted_def)
  have bytes: "take 200 (replicate 128 0 @ replicate 128 (0 :: 8 word)) = replicate 200 0"
    by (simp only: replicate_add [symmetric] take_replicate) simp
  note fetch = dir_fetch [OF d reads(1,2) len(1,2) j, unfolded z bytes example_dir]
  obtain bm where bm: "BitMap_BitMap (\<lambda>_. 0) NumSectors = Inr bm" "numBits bm = NumSectors" "numWords bm = 32" "length (bm_map bm) = 32"
    using BitMap_BitMap_ok [of NumSectors "\<lambda>_. 0"] by (auto simp: bitmap_ok_def divRoundUp_def)
  note mfetch = map_fetch [OF mf reads(3) len(3) bm(3,4), unfolded z]
  let ?bm = "bm\<lparr>bm_map := bytes_words (replicate 128 0)\<rparr>"
  note em = example_map [OF bm(1-3)]
  have nb: "numBits ?bm = NumSectors" using bm(2) by simp
  have "Min ({0..<numBits ?bm} - bits_of ?bm) = 0" unfolding em(2) nb by (rule Min_eqI) auto
  then have find: "BitMap_Find ?bm = Inr (bm_update ?bm 0 True, 0)"
    using BitMap_Find_free [OF em(1)] unfolding em(2) nb by fastforce
  have bits: "bits_of (bm_update ?bm 0 True) = {0}" using bits_of_bm_update [OF em(1), of 0 True] nb unfolding em(2) by simp
  have blen: "length (bm_map (bm_update ?bm 0 True)) = 32" by (simp add: bm_update_def map_put_def length_bytes_words)
  let ?d = "\<lparr>tableSize = 10, table = replicate 10 \<lparr>inUse = False, entrySector = 0, name = replicate 10 0, entryType = False\<rparr>\<rparr>"
  have none: "Directory_Find [97] ?d = - 1" by (simp add: Directory_Find_def Directory_FindIndex_def numeral_eq_Suc)
  obtain d2 where add: "Directory_Add [97] 0 ?d = (d2, True)"
    by (auto simp: Directory_Add_def Directory_FindIndex_def numeral_eq_Suc)
  have d2: "length (table_bytes (table d2)) = 200"
    using Add_bytes [of "[97]" 0 "replicate 200 0" d2 True] add by (simp add: example_dir)
  let ?f2 = "?f\<lparr>hdr := (hdr ?f)\<lparr>lastVistTime := host_time s2\<rparr>\<rparr>" and ?g2 = "?g\<lparr>hdr := (hdr ?g)\<lparr>lastVistTime := host_time s3\<rparr>\<rparr>"
  have fails: "\<forall>n s4 bm4 h. FileHeader_Allocate (jstack example_junk) (bm_update ?bm 0 True) n (jhdr example_junk) s3 = Inr (s4, bm4, h, False) \<longrightarrow>
      FileSystem_Create example_junk 0 [97] n example_fs s = Inr (s4, example_fs\<lparr>directoryFile := ?f2, freeMapFile := ?g2\<rparr>, False)"
    using none find add by (simp add: FileSystem_Create_def Let_def fetch mfetch bm(1) del: OpenFile_WriteAt.simps)
  moreover have "\<forall>n s4 bm4 h s5 h5 s6 f6 s7 g7.
      FileHeader_Allocate (jstack example_junk) (bm_update ?bm 0 True) n (jhdr example_junk) s3 = Inr (s4, bm4, h, True)
      \<and> FileHeader_WriteBack 0 h s4 = Inr (s5, h5) \<and> Directory_WriteBack (OpenFile_WriteAt (jbuf example_junk) 0) ?f2 d2 s5 = Inr (s6, f6)
      \<and> BitMap_WriteBack (OpenFile_WriteAt (jbuf example_junk) 0) ?g2 bm4 s6 = Inr (s7, g7) \<longrightarrow>
      (\<exists>fs'. FileSystem_Create example_junk 0 [97] n example_fs s = Inr (s7, fs', True))"
    using none find add by (simp add: FileSystem_Create_def Let_def fetch mfetch bm(1) del: OpenFile_WriteAt.simps)
  moreover have "bitmap_ok (bm_update ?bm 0 True)" "numBits (bm_update ?bm 0 True) = NumSectors" using em(1) nb by simp_all
  moreover have "dir_file 40 41 ?f2" "map_file 42 ?g2" "all_cached s3 (hdr ?f2)" "all_cached s3 (hdr ?g2)" using d mf ac by simp_all
  ultimately show ?thesis using q3 bits blen d2 by (intro exI conjI)
qed

text \<open>
  (C32) A \<^verbatim>\<open>Create\<close> that returns \<^verbatim>\<open>FALSE\<close>, because the name exists, the disk or the directory is full or the data
  do not fit, has changed no sector of the disk, whatever the header, bitmap and directory held, and no
  file's reader, writer or visitor count.
\<close>

theorem Create_fails_writes_nothing:
  assumes "quiet s" "FileSystem_Create junk depth nm initialSize fs s = Inr (s', fs', False)"
  shows "(\<forall>k. sector s' k = sector s k) \<and> fs_frame s s' \<and> quiet s'"
proof -
  from assms(2) obtain s1 f1 d where d: "Directory_FetchFrom (directoryFile fs) (Directory_Directory (jdir junk) 10) s = Inr (s1, f1, d)"
    by (auto simp: FileSystem_Create_def Let_def)
  have 1: "only_read s s1" using FetchFrom_only(1) [OF assms(1) d] .
  have "only_read s s'"
  proof (cases "Directory_Find nm d = - 1")
    case False
    then show ?thesis using assms(2) d 1 by (auto simp: FileSystem_Create_def Let_def)
  next
    case True
    from assms(2) d True obtain bm s2 f2 bm2 where bm: "BitMap_FetchFrom (freeMapFile fs) bm s1 = Inr (s2, f2, bm2)"
        "s' = s2"
      by (auto simp: FileSystem_Create_def Let_def split: if_splits prod.splits; blast dest: Allocate_fails)
    have "only_read s1 s2" using FetchFrom_only(2) [OF only_read_quiet [OF 1] bm(1)] .
    then show ?thesis using 1 bm(2) by (blast intro: only_read_trans)
  qed
  then show ?thesis by (simp add: only_read_def)
qed

theorem Create_fails_writes_nothing_witness:
  "\<exists>s s' fs'. SynchDisk_SynchDisk no_cache 0 None Interrupt_Interrupt = Inr s
     \<and> FileSystem_Create example_junk 0 [97] 200000 example_fs s = Inr (s', fs', False)
     \<and> sector s' 40 = replicate 128 0 \<and> sector s' 41 = replicate 128 0 \<and> sector s' 42 = replicate 128 0"
proof -
  obtain s where s: "SynchDisk_SynchDisk no_cache 0 None Interrupt_Interrupt = Inr s" "mounted example_junk 40 41 42 example_fs s" "quiet s"
      "sector s 40 = replicate 128 0" "sector s 41 = replicate 128 0" "sector s 42 = replicate 128 0"
    using example_mounted by blast
  obtain s3 bm fs' where c: "bitmap_ok bm" "numBits bm = NumSectors" "bits_of bm = {0}"
      "\<forall>n s4 bm4 h. FileHeader_Allocate (jstack example_junk) bm n (jhdr example_junk) s3 = Inr (s4, bm4, h, False) \<longrightarrow>
         FileSystem_Create example_junk 0 [97] n example_fs s = Inr (s4, fs', False)"
    using example_create [OF s(2,4-6)] by blast
  have "card ({0..<NumSectors} - {0}) \<le> card {0..<NumSectors}" by (rule card_mono) auto
  then have "BitMap_NumClear bm = Inr (int (card ({0..<NumSectors} - {0 :: int})))" "int (card ({0..<NumSectors} - {0 :: int})) < 1563"
    using BitMap_NumClear_ok [OF c(1)] c(2,3) by auto
  then have "\<exists>h4. FileHeader_Allocate (jstack example_junk) bm 200000 (jhdr example_junk) s3 = Inr (s3, bm, h4, False)"
    by (simp add: FileHeader_Allocate_def Let_def divRoundUp_def cdiv_def FileHeader_SetLastModifyTime_def
        FileHeader_SetLastVisitTime_def FileHeader_SetCreatTime_def)
  then have r: "FileSystem_Create example_junk 0 [97] 200000 example_fs s = Inr (s3, fs', False)" using c(4) by blast
  show ?thesis using Create_fails_writes_nothing [OF s(3) r] s(1,4-6) r by auto
qed

text \<open>
  (C16) A file that has just been created cannot be opened: on a mounted file system whose directory sectors
  are not in the cache yet, after a \<^verbatim>\<open>Create\<close> that returned \<^verbatim>\<open>TRUE\<close> the cache still holds the directory as it was
  before, so \<^verbatim>\<open>Open\<close> of the same name returns \<^verbatim>\<open>NULL\<close> and \<^verbatim>\<open>Copy\<close> fails its assertion that the file is there.
\<close>

theorem Create_then_Open_fails:
  assumes "mounted junk a b c fs s" "divRoundUp initialSize SectorSize \<le> 26"
    and "FileSystem_Create junk depth nm initialSize fs s = Inr (s', fs', True)"
  shows "\<exists>s'' fs''. FileSystem_Open junk nm fs' s' = Inr (s'', fs'', None)
     \<and> (\<forall>host from bytes. host from = Some bytes \<and> int (length bytes) = initialSize \<longrightarrow>
          Copy host junk depth from nm fs s = Inl AssertFail)"
proof -
  have c: "quiet s'" "cached s' a" "view s' a = sector s a" "cached s' b" "view s' b = sector s b"
      "dir_file a b (directoryFile fs')" "Directory_Find nm (dir_of (take 200 (sector s a @ sector s b))) = - 1"
    using Create_keeps_view [OF assms] by auto
  have len: "length (sector s a) = 128" "length (sector s b) = 128" using mounted_reads [OF assms(1)] by blast+
  have j: "\<forall>i. length (name (jdir junk i)) = 10" using assms(1) by (simp add: mounted_def)
  have rd: "SynchDisk_ReadSector a s' = Inr (s', sector s a)" "SynchDisk_ReadSector b s' = Inr (s', sector s b)"
    using ReadSector_hit [OF c(1,2)] ReadSector_hit [OF c(1,4)] c(3,5) by simp_all
  obtain fs'' where o: "FileSystem_Open junk nm fs' s' = Inr (s', fs'', None)"
    using dir_fetch [OF c(6) rd len j] c(7) by (auto simp: FileSystem_Open_def Let_def)
  moreover have "Copy host junk depth from nm fs s = Inl AssertFail"
    if "host from = Some bytes \<and> int (length bytes) = initialSize" for host "from" bytes
    using that assms(3) o by (simp add: Copy_def)
  ultimately show ?thesis by blast
qed

theorem Create_then_Open_fails_witness:
  "\<exists>s s' fs' s'' fs''. SynchDisk_SynchDisk no_cache 0 None Interrupt_Interrupt = Inr s
     \<and> FileSystem_Create example_junk 0 [97] 100 example_fs s = Inr (s', fs', True)
     \<and> FileSystem_Open example_junk [97] fs' s' = Inr (s'', fs'', None)
     \<and> Copy (\<lambda>_. Some (replicate 100 1)) example_junk 0 [98] [97] example_fs s = Inl AssertFail"
proof -
  obtain s where s: "SynchDisk_SynchDisk no_cache 0 None Interrupt_Interrupt = Inr s" "mounted example_junk 40 41 42 example_fs s"
      "sector s 40 = replicate 128 0" "sector s 41 = replicate 128 0" "sector s 42 = replicate 128 0"
    using example_mounted by blast
  obtain s3 f g bm d where c: "quiet s3" "dir_file 40 41 f" "map_file 42 g" "all_cached s3 (hdr f)" "all_cached s3 (hdr g)"
      "bitmap_ok bm" "numBits bm = NumSectors" "bits_of bm = {0}" "length (table_bytes (table d)) = 200"
      "\<forall>n s4 bm4 h s5 h5 s6 f6 s7 g7. FileHeader_Allocate (jstack example_junk) bm n (jhdr example_junk) s3 = Inr (s4, bm4, h, True)
          \<and> FileHeader_WriteBack 0 h s4 = Inr (s5, h5) \<and> Directory_WriteBack (OpenFile_WriteAt (jbuf example_junk) 0) f d s5 = Inr (s6, f6)
          \<and> BitMap_WriteBack (OpenFile_WriteAt (jbuf example_junk) 0) g bm4 s6 = Inr (s7, g7) \<longrightarrow>
          (\<exists>fs'. FileSystem_Create example_junk 0 [97] n example_fs s = Inr (s7, fs', True))"
    using example_create [OF s(2-5)] by blast
  have "free_run bm 1 1" using c(7,8) by (auto simp: free_run_def)
  then have run: "\<exists>i. free_run bm 1 i" by blast
  have one: "1 = divRoundUp 100 SectorSize" by (simp add: divRoundUp_def cdiv_def)
  obtain bm4 h where al: "FileHeader_Allocate (jstack example_junk) bm 100 (jhdr example_junk) s3 = Inr (s3, bm4, h, True)"
      "bitmap_ok bm4" "numBits bm4 = numBits bm" "length (dataSectors h) = 26"
    using Allocate_direct [OF c(6) run one, of "jhdr example_junk" "jstack example_junk" s3] by (auto simp: example_junk_def)
  obtain s5 h5 where wb: "FileHeader_WriteBack 0 h s3 = Inr (s5, h5)" "quiet s5" "cache s5 = cache s3"
    using WriteBack_ok [OF c(1), of 0 h] al(4) by auto
  have ac: "all_cached s5 (hdr f)" "all_cached s5 (hdr g)"
    using all_cached_eq [OF c(4) wb(3)] all_cached_eq [OF c(5) wb(3)] view_cache [OF wb(3)] by auto
  have "length (bm_map bm4) = 32" using al(2,3) c(7) by (simp add: bitmap_ok_def divRoundUp_def)
  then obtain s' fs' where r: "FileSystem_Create example_junk 0 [97] 100 example_fs s = Inr (s', fs', True)"
    using write_both [OF wb(2) c(2,3) ac c(9), of bm4 "jbuf example_junk" 0] al(1) wb(1) c(10) by blast
  have small: "divRoundUp 100 SectorSize \<le> 26" by (simp add: divRoundUp_def cdiv_def)
  show ?thesis using Create_then_Open_fails [OF s(2) small r] s(1) r by fastforce
qed

text \<open>
  Printing a file ends and prints it: for an open file whose sectors are read consistently and that no
  writer holds, the loop of \<^verbatim>\<open>Print\<close>, which reads ten bytes at a time until a read returns none, returns, and
  has printed exactly the contents from the current position to the end of the file.
\<close>

theorem print_file_prints:
  assumes "quiet s" "coherent s" "file_ok (hdr f)" "0 \<le> seekPosition f" "0 \<le> fileSector f" "fileSector f < NumSectors"
    "readerNum s (fileSector f) = 0" "0 < rwSem s (fileSector f)"
  shows "\<exists>s' f'. print_file f s = Some (Inr (s', f', drop (nat (seekPosition f)) (file_contents s (hdr f))))
     \<and> (\<forall>k. sector s' k = sector s k)"
  using print_file_ok [OF assms] by (auto simp: reads_to_def)

theorem print_file_prints_witness:
  "\<exists>s s' f'. SynchDisk_SynchDisk no_cache 0 None Interrupt_Interrupt = Inr s
     \<and> print_file example_file s = Some (Inr (s', f', replicate 100 0))"
proof -
  obtain s where s: "SynchDisk_SynchDisk no_cache 0 None Interrupt_Interrupt = Inr s" "quiet s" "coherent s"
      "\<forall>k. 0 \<le> k \<and> k < NumSectors \<longrightarrow> sector s k = replicate 128 0" "rwSem s = (\<lambda>_. 1)" "readerNum s = (\<lambda>_. 0)"
    using new_disk [of 0] by auto
  then show ?thesis
    using print_file_prints [OF s(2,3) example_file(2)] example_file_contents [OF s(4)] by (auto simp: example_file(4,5))
qed

end
