(* ===== verification/Nachos_Network.thy ===== *)
theory Nachos_Network
  imports Complex_Main Nachos_List "HOL-Library.Sublist"
begin

text \<open>
  The network: \<^verbatim>\<open>machine/network.h\<close> and \<^verbatim>\<open>machine/network.cc\<close>, the post office of \<^verbatim>\<open>network/post.h\<close> and
  \<^verbatim>\<open>network/post.cc\<close>, the list of \<^verbatim>\<open>threads/synchlist.cc\<close> behind a mailbox, and the socket routines of
  \<^verbatim>\<open>machine/sysdep.cc\<close>.  Several machines are connected by datagram sockets, each a queue of packets.  A
  scheduled interrupt is counted as pending and may fire at any time; what \<^verbatim>\<open>Random\<close> returns is a choice
  of the environment, and the \<^verbatim>\<open>double\<close> that decides about a lost packet is a real number.  The lemmas show
  that no assertion fails and that every mailbox gets, in order, a subsequence of the messages sent to it.
\<close>

subsection \<open>Headers and their images\<close>

record PacketHeader =
  pkt_to :: "32 word"
  pkt_from :: "32 word"
  pkt_length :: "32 word"

record MailHeader =
  mail_to :: "32 word"
  mail_from :: "32 word"
  mail_length :: "32 word"

abbreviation (input) MaxWireSize :: nat where "MaxWireSize \<equiv> 64"

abbreviation (input) MaxPacketSize :: nat where "MaxPacketSize \<equiv> 52"

abbreviation (input) MaxMailSize :: nat where "MaxMailSize \<equiv> 40"

definition pkt_bytes :: "PacketHeader \<Rightarrow> 8 word list" where
  "pkt_bytes h = words_bytes [pkt_to h, pkt_from h, pkt_length h]"

definition mail_bytes :: "MailHeader \<Rightarrow> 8 word list" where
  "mail_bytes h = words_bytes [mail_to h, mail_from h, mail_length h]"

definition bytes_pkt :: "8 word list \<Rightarrow> PacketHeader" where
  "bytes_pkt bs = (let ws = bytes_words (take 12 bs) in \<lparr>pkt_to = ws ! 0, pkt_from = ws ! 1, pkt_length = ws ! 2\<rparr>)"

definition bytes_mail :: "8 word list \<Rightarrow> MailHeader" where
  "bytes_mail bs = (let ws = bytes_words (take 12 bs) in \<lparr>mail_to = ws ! 0, mail_from = ws ! 1, mail_length = ws ! 2\<rparr>)"

text \<open>\<^verbatim>\<open>bcopy\<close> of the first \<open>n\<close> bytes at a pointer into a buffer.\<close>

definition bcopy :: "8 word list \<Rightarrow> nat \<Rightarrow> nat \<Rightarrow> 8 word list \<Rightarrow> 8 word list result" where
  "bcopy src n pos dest =
     (if n \<le> length src \<and> pos + n \<le> length dest then Inr (put_bytes pos (take n src) dest) else Inl OutOfBounds)"

subsection \<open>The state of a machine\<close>

record Mail =
  pktHdr :: PacketHeader
  mailHdr :: MailHeader
  mail_data :: "8 word list"

record node =
  ident :: "32 word"
  chanceToWork :: real
  sendBusy :: bool
  inHdr :: PacketHeader
  inbox :: "8 word list"
  sock :: "8 word list list"
  pendingSend :: nat
  pendingPoll :: nat
  packetsSent :: nat
  packetsRecvd :: nat
  netAddr :: "32 word"
  numBoxes :: int
  boxes :: "Mail klist_abs list"
  messageAvailable :: nat
  messageSent :: nat
  sendLock :: bool

type_synonym net = "32 word \<rightharpoonup> node"

subsection \<open>Sockets\<close>

definition PollSocket :: "node \<Rightarrow> bool" where
  "PollSocket m = (sock m \<noteq> [])"

definition ReadFromSocket :: "nat \<Rightarrow> node \<Rightarrow> (node \<times> 8 word list) result" where
  "ReadFromSocket packetSize m =
     (case sock m of
        [] \<Rightarrow> Inl Blocked
      | p # ps \<Rightarrow> ASSERT (length (take packetSize p) = packetSize) (Inr (m\<lparr>sock := ps\<rparr>, take packetSize p)))"

definition SendToSocket :: "8 word list \<Rightarrow> 32 word \<Rightarrow> net \<Rightarrow> net result" where
  "SendToSocket packet toName n =
     ASSERT (n toName \<noteq> None) (Inr (n(toName := map_option (\<lambda>m. m\<lparr>sock := sock m @ [packet]\<rparr>) (n toName))))"

subsection \<open>The network device\<close>

definition Network_Network :: "32 word \<Rightarrow> real \<Rightarrow> node \<Rightarrow> node" where
  "Network_Network addr reliability m =
     m\<lparr>ident := addr,
       chanceToWork := (if reliability < 0 then 0 else if reliability > 1 then 1 else reliability),
       sendBusy := False, inHdr := (inHdr m)\<lparr>pkt_length := 0\<rparr>, sock := [], pendingPoll := 1, pendingSend := 0\<rparr>"

text \<open>The socket is closed and its name removed.\<close>

definition Network_Destruct :: "32 word \<Rightarrow> net \<Rightarrow> net" where
  "Network_Destruct a n = n(a := None)"

text \<open>The network takes up the handler of the post office as a parameter.\<close>

definition Network_CheckPktAvail :: "(node \<Rightarrow> node) \<Rightarrow> node \<Rightarrow> node result" where
  "Network_CheckPktAvail readHandler m =
     (let m = m\<lparr>pendingPoll := pendingPoll m + 1\<rparr> in
      if pkt_length (inHdr m) \<noteq> 0 then Inr m
      else if \<not> PollSocket m then Inr m
      else
        rbind (ReadFromSocket MaxWireSize m) (\<lambda>(m, buffer).
        let m = m\<lparr>inHdr := bytes_pkt buffer\<rparr> in
        ASSERT (pkt_to (inHdr m) = ident m \<and> unat (pkt_length (inHdr m)) \<le> MaxPacketSize)
          (rbind (bcopy (drop 12 buffer) (unat (pkt_length (inHdr m))) 0 (inbox m)) (\<lambda>box.
           Inr (readHandler (m\<lparr>inbox := box, packetsRecvd := packetsRecvd m + 1\<rparr>))))))"

definition Network_SendDone :: "(node \<Rightarrow> node) \<Rightarrow> node \<Rightarrow> node" where
  "Network_SendDone writeHandler m = writeHandler (m\<lparr>sendBusy := False, packetsSent := packetsSent m + 1\<rparr>)"

text \<open>\<open>random\<close> is what \<^verbatim>\<open>Random\<close> returns and \<open>junk\<close> what the new buffer holds.\<close>

definition new_buffer :: "8 word list \<Rightarrow> nat \<Rightarrow> 8 word list" where
  "new_buffer junk n = take n (junk @ replicate n 0)"

definition Network_Send :: "nat \<Rightarrow> 8 word list \<Rightarrow> 32 word \<Rightarrow> PacketHeader \<Rightarrow> 8 word list \<Rightarrow> net \<Rightarrow> net result" where
  "Network_Send random junk a hdr data n =
     (case n a of
        None \<Rightarrow> Inl NullDeref
      | Some m \<Rightarrow>
          ASSERT (\<not> sendBusy m \<and> 0 < unat (pkt_length hdr) \<and> unat (pkt_length hdr) \<le> MaxPacketSize \<and> pkt_from hdr = ident m)
            (let n = n(a \<mapsto> m\<lparr>pendingSend := pendingSend m + 1\<rparr>) in
             if real (random mod 100) \<ge> chanceToWork m * 100 then Inr n
             else rbind (bcopy data (unat (pkt_length hdr)) 12 (put_bytes 0 (pkt_bytes hdr) (new_buffer junk MaxWireSize)))
                    (\<lambda>buffer. SendToSocket buffer (pkt_to hdr) n)))"

definition Network_Receive :: "8 word list \<Rightarrow> node \<Rightarrow> (node \<times> PacketHeader \<times> 8 word list) result" where
  "Network_Receive data m =
     (let hdr = inHdr m; m = m\<lparr>inHdr := (inHdr m)\<lparr>pkt_length := 0\<rparr>\<rparr> in
      if pkt_length hdr \<noteq> 0
      then rbind (bcopy (inbox m) (unat (pkt_length hdr)) 0 data) (\<lambda>data. Inr (m, hdr, data))
      else Inr (m, hdr, data))"

subsection \<open>Mailboxes\<close>

definition Mail_Mail :: "PacketHeader \<Rightarrow> MailHeader \<Rightarrow> 8 word list \<Rightarrow> Mail result" where
  "Mail_Mail pktH mailH msgData =
     ASSERT (unat (mail_length mailH) \<le> MaxMailSize)
       (if unat (mail_length mailH) \<le> length msgData
        then Inr \<lparr>pktHdr = pktH, mailHdr = mailH, mail_data = take (unat (mail_length mailH)) msgData\<rparr>
        else Inl OutOfBounds)"

text \<open>A synchronised list: each operation holds the lock; \<^verbatim>\<open>Remove\<close> waits while the list is empty.\<close>

definition SynchList_SynchList :: "'a klist_abs" where
  "SynchList_SynchList = []"

definition SynchList_Append :: "'a \<Rightarrow> 'a klist_abs \<Rightarrow> 'a klist_abs" where
  "SynchList_Append item l = lst_append l item"

definition SynchList_Remove :: "'a klist_abs \<Rightarrow> ('a klist_abs \<times> 'a) result" where
  "SynchList_Remove l =
     (case lst_sorted_remove l of None \<Rightarrow> Inl Blocked | Some ((_, item), l) \<Rightarrow> Inr (l, item))"

definition SynchList_Mapcar :: "('a \<Rightarrow> 's \<Rightarrow> 's) \<Rightarrow> 'a klist_abs \<Rightarrow> 's \<Rightarrow> 's" where
  "SynchList_Mapcar func l s = fold func (map snd l) s"

definition MailBox_MailBox :: "Mail klist_abs" where
  "MailBox_MailBox = SynchList_SynchList"

definition MailBox_Put :: "PacketHeader \<Rightarrow> MailHeader \<Rightarrow> 8 word list \<Rightarrow> Mail klist_abs \<Rightarrow> Mail klist_abs result" where
  "MailBox_Put pktH mailH data box =
     rbind (Mail_Mail pktH mailH data) (\<lambda>mail. Inr (SynchList_Append mail box))"

definition MailBox_Get :: "Mail klist_abs \<Rightarrow> (Mail klist_abs \<times> PacketHeader \<times> MailHeader \<times> 8 word list) result" where
  "MailBox_Get box =
     rbind (SynchList_Remove box) (\<lambda>(box, mail).
       Inr (box, pktHdr mail, mailHdr mail, take (unat (mail_length (mailHdr mail))) (mail_data mail)))"

subsection \<open>The post office\<close>

definition PostOffice_PostOffice :: "32 word \<Rightarrow> real \<Rightarrow> int \<Rightarrow> node \<Rightarrow> node" where
  "PostOffice_PostOffice addr reliability nBoxes m =
     Network_Network addr reliability (m\<lparr>messageAvailable := 0, messageSent := 0, sendLock := False, netAddr := addr, numBoxes := nBoxes,
       boxes := replicate (nat nBoxes) MailBox_MailBox\<rparr>)"

definition PostOffice_Destruct :: "32 word \<Rightarrow> net \<Rightarrow> net" where
  "PostOffice_Destruct a n = Network_Destruct a n"

definition PostOffice_IncomingPacket :: "node \<Rightarrow> node" where
  "PostOffice_IncomingPacket m = m\<lparr>messageAvailable := messageAvailable m + 1\<rparr>"

definition PostOffice_PacketSent :: "node \<Rightarrow> node" where
  "PostOffice_PacketSent m = m\<lparr>messageSent := messageSent m + 1\<rparr>"

text \<open>One round of \<^verbatim>\<open>PostalDelivery\<close>; \<open>buffer\<close> is what the buffer held before.\<close>

definition PostOffice_PostalDelivery :: "8 word list \<Rightarrow> node \<Rightarrow> node result" where
  "PostOffice_PostalDelivery buffer m =
     (if messageAvailable m = 0 then Inl Blocked
      else
        rbind (Network_Receive buffer (m\<lparr>messageAvailable := messageAvailable m - 1\<rparr>)) (\<lambda>(m, pktH, buffer).
        let mailH = bytes_mail buffer in
        ASSERT (0 \<le> sint (mail_to mailH) \<and> sint (mail_to mailH) < numBoxes m)
          (ASSERT (unat (mail_length mailH) \<le> MaxMailSize)
            (rbind (MailBox_Put pktH mailH (drop 12 buffer) (boxes m ! nat (sint (mail_to mailH)))) (\<lambda>box.
             Inr (m\<lparr>boxes := (boxes m)[nat (sint (mail_to mailH)) := box]\<rparr>))))))"

text \<open>\<^verbatim>\<open>Send\<close> up to the wait for the network, and what follows the wait.\<close>

definition PostOffice_Send :: "nat \<Rightarrow> 8 word list \<Rightarrow> 8 word list \<Rightarrow> 32 word \<Rightarrow> PacketHeader \<Rightarrow> MailHeader \<Rightarrow> 8 word list \<Rightarrow> net \<Rightarrow> net result" where
  "PostOffice_Send random junk netJunk a pktH mailH data n =
     (case n a of
        None \<Rightarrow> Inl NullDeref
      | Some m \<Rightarrow>
          ASSERT (unat (mail_length mailH) \<le> MaxMailSize)
            (ASSERT (0 \<le> sint (mail_to mailH) \<and> sint (mail_to mailH) < numBoxes m)
              (let pktH = pktH\<lparr>pkt_from := netAddr m, pkt_length := mail_length mailH + 12\<rparr> in
               rbind (bcopy data (unat (mail_length mailH)) 12 (put_bytes 0 (mail_bytes mailH) (new_buffer junk MaxPacketSize))) (\<lambda>buffer.
               if sendLock m then Inl Blocked
               else Network_Send random netJunk a pktH buffer (n(a \<mapsto> m\<lparr>sendLock := True\<rparr>))))))"

definition PostOffice_Send_end :: "node \<Rightarrow> node result" where
  "PostOffice_Send_end m =
     (if messageSent m = 0 then Inl Blocked else Inr (m\<lparr>messageSent := messageSent m - 1, sendLock := False\<rparr>))"

definition PostOffice_Receive :: "int \<Rightarrow> node \<Rightarrow> (node \<times> PacketHeader \<times> MailHeader \<times> 8 word list) result" where
  "PostOffice_Receive box m =
     ASSERT (box \<ge> 0 \<and> box < numBoxes m)
       (rbind (MailBox_Get (boxes m ! nat box)) (\<lambda>(mails, pktH, mailH, data).
        ASSERT (unat (mail_length mailH) \<le> MaxMailSize)
          (Inr (m\<lparr>boxes := (boxes m)[nat box := mails]\<rparr>, pktH, mailH, data))))"

subsection \<open>Messages on the wire\<close>

text \<open>The message in a payload, the messages that have reached a machine but no mailbox, and a legal message.\<close>

definition decode_mail :: "PacketHeader \<Rightarrow> 8 word list \<Rightarrow> Mail" where
  "decode_mail h bs = \<lparr>pktHdr = h, mailHdr = bytes_mail bs,
     mail_data = take (unat (mail_length (bytes_mail bs))) (drop 12 bs)\<rparr>"

definition wire_mail :: "8 word list \<Rightarrow> Mail" where
  "wire_mail p = decode_mail (bytes_pkt p) (drop 12 p)"

definition in_flight :: "node \<Rightarrow> Mail list" where
  "in_flight m = (if pkt_length (inHdr m) = 0 then [] else [decode_mail (inHdr m) (inbox m)]) @ map wire_mail (sock m)"

definition mail_ok :: "32 word \<Rightarrow> Mail \<Rightarrow> bool" where
  "mail_ok a x \<longleftrightarrow> pkt_to (pktHdr x) = a \<and> pkt_length (pktHdr x) = mail_length (mailHdr x) + 12
     \<and> unat (mail_length (mailHdr x)) \<le> MaxMailSize \<and> 0 \<le> sint (mail_to (mailHdr x)) \<and> sint (mail_to (mailHdr x)) < 10
     \<and> length (mail_data x) = unat (mail_length (mailHdr x))"

lemma unat_plus12: "unat w \<le> 40 \<Longrightarrow> unat (w + 12) = unat w + 12" for w :: "32 word"
  by (simp add: unat_word_ariths)

lemma plus12_nonzero: "unat w \<le> 40 \<Longrightarrow> w + 12 \<noteq> 0" for w :: "32 word"
  using unat_plus12 [of w] by auto

lemma bytes_pkt_append [simp]: "bytes_pkt (pkt_bytes h @ r) = h"
  by (simp add: bytes_pkt_def pkt_bytes_def Let_def)

lemma bytes_mail_append [simp]: "bytes_mail (mail_bytes h @ r) = h"
  by (simp add: bytes_mail_def mail_bytes_def Let_def)

lemma length_pkt_bytes [simp]: "length (pkt_bytes h) = 12"
  and length_mail_bytes [simp]: "length (mail_bytes k) = 12"
  by (simp_all add: pkt_bytes_def mail_bytes_def)

lemma length_new_buffer [simp]: "length (new_buffer junk n) = n"
  by (simp add: new_buffer_def)

lemma put_bytes_after: "length h = n \<Longrightarrow> put_bytes n bs (h @ r) = h @ bs @ drop (length bs) r"
  by (simp add: put_bytes_def)

lemma decode_mail_append:
  "length d = unat (mail_length h) \<Longrightarrow> decode_mail ph (mail_bytes h @ d @ r) = \<lparr>pktHdr = ph, mailHdr = h, mail_data = d\<rparr>"
  by (simp add: decode_mail_def)

text \<open>A message depends on the bytes its length counts only.\<close>

lemma decode_mail_prefix:
  assumes "take n bs = take n cs" "12 + unat (mail_length (bytes_mail bs)) \<le> n"
  shows "decode_mail h bs = decode_mail h cs"
proof -
  have pre: "take k bs = take k cs" if "k \<le> n" for k
    using arg_cong [OF assms(1), of "take k"] that by (simp add: min_absorb1)
  have "take 12 bs = take 12 cs" using assms(2) by (intro pre) simp
  then have hd: "bytes_mail bs = bytes_mail cs" by (simp add: bytes_mail_def)
  let ?l = "unat (mail_length (bytes_mail bs))"
  have "take ?l (drop 12 bs) = drop 12 (take (?l + 12) bs)" by (simp add: take_drop)
  also have "\<dots> = drop 12 (take (?l + 12) cs)" using assms(2) by (subst pre) simp_all
  finally show ?thesis using hd by (simp add: decode_mail_def take_drop)
qed

lemma take_put_bytes_0: "n \<le> length src \<Longrightarrow> take n (put_bytes 0 (take n src) dest) = take n src"
  by (simp add: put_bytes_0)

subsection \<open>A machine and its operations\<close>

text \<open>
  What holds of a machine between two operations: one poll is scheduled, at most one packet is being sent and
  exactly then the lock is held, and the worker has been told about a packet exactly when one is buffered.
\<close>

definition node_ok :: "32 word \<Rightarrow> node \<Rightarrow> bool" where
  "node_ok a m \<longleftrightarrow> ident m = a \<and> netAddr m = a \<and> \<not> sendBusy m \<and> numBoxes m = 10 \<and> length (boxes m) = 10
     \<and> length (inbox m) = MaxPacketSize \<and> pendingPoll m = 1
     \<and> pendingSend m + messageSent m = of_bool (sendLock m)
     \<and> messageAvailable m = of_bool (pkt_length (inHdr m) \<noteq> 0)
     \<and> (\<forall>p\<in>set (sock m). length p = MaxWireSize) \<and> (\<forall>x\<in>set (in_flight m). mail_ok a x)
     \<and> (\<forall>box\<in>set (boxes m). \<forall>x\<in>set box. mail_ok a (snd x))"

definition poll :: "node \<Rightarrow> node result" where
  "poll m = Network_CheckPktAvail PostOffice_IncomingPacket (m\<lparr>pendingPoll := pendingPoll m - 1\<rparr>)"

lemma poll_ok:
  assumes ok: "node_ok a m"
  shows "\<exists>m'. poll m = Inr m' \<and> node_ok a m' \<and> in_flight m' = in_flight m \<and> boxes m' = boxes m
           \<and> chanceToWork m' = chanceToWork m"
proof (cases "pkt_length (inHdr m) \<noteq> 0 \<or> sock m = []")
  case True
  moreover have "pendingPoll m = 1" using ok by (simp add: node_ok_def)
  moreover from this have "m\<lparr>pendingPoll := 1\<rparr> = m" by (cases m) simp
  ultimately have "poll m = Inr m"
    by (auto simp: poll_def Network_CheckPktAvail_def PollSocket_def Let_def)
  then show ?thesis using ok by blast
next
  case False
  then obtain p ps where sock: "sock m = p # ps" and free: "pkt_length (inHdr m) = 0" by (cases "sock m") auto
  let ?h = "bytes_pkt p" and ?x = "wire_mail p"
  have p: "length p = 64" and x: "mail_ok a ?x" using ok sock by (auto simp: node_ok_def in_flight_def)
  have h: "pktHdr ?x = ?h" "mailHdr ?x = bytes_mail (drop 12 p)" by (simp_all add: wire_mail_def decode_mail_def)
  let ?l = "unat (mail_length (bytes_mail (drop 12 p)))"
  have l: "pkt_to ?h = a" "unat (pkt_length ?h) = ?l + 12" "?l \<le> 40" "pkt_length ?h \<noteq> 0"
    using x unat_plus12 plus12_nonzero by (auto simp: mail_ok_def h)
  let ?box = "put_bytes 0 (take (?l + 12) (drop 12 p)) (inbox m)"
  let ?m = "m\<lparr>sock := ps, inHdr := ?h, inbox := ?box, packetsRecvd := packetsRecvd m + 1,
              messageAvailable := messageAvailable m + 1\<rparr>"
  have run: "poll m = Inr ?m"
    using sock free ok p l
    by (simp add: poll_def Network_CheckPktAvail_def PollSocket_def ReadFromSocket_def bcopy_def node_ok_def Let_def
        PostOffice_IncomingPacket_def)
  have "take (?l + 12) ?box = take (?l + 12) (drop 12 p)" using p l by (intro take_put_bytes_0) simp
  then have "decode_mail ?h ?box = ?x"
    unfolding wire_mail_def by (intro decode_mail_prefix [symmetric, where n = "?l + 12"]) simp_all
  then have "in_flight ?m = in_flight m" using l sock free by (simp add: in_flight_def)
  moreover have "length ?box = 52" using ok p l by (simp add: node_ok_def)
  ultimately show ?thesis using run ok sock free l by (intro exI [of _ ?m]) (auto simp: node_ok_def)
qed

lemma all_boxes_update:
  assumes "\<forall>box\<in>set bs. \<forall>x\<in>set box. P x" "\<forall>x\<in>set box'. P x"
  shows "\<forall>box\<in>set (bs[i := box']). \<forall>x\<in>set box. P x"
  using assms set_update_subset_insert [of bs i box'] by blast

lemma Mail_Mail_decode:
  "unat (mail_length (bytes_mail bs)) \<le> 40 \<Longrightarrow> 12 + unat (mail_length (bytes_mail bs)) \<le> length bs \<Longrightarrow>
   Mail_Mail h (bytes_mail bs) (drop 12 bs) = Inr (decode_mail h bs)"
  by (simp add: Mail_Mail_def decode_mail_def)

lemma Network_Receive_full:
  assumes "pkt_length (inHdr m) \<noteq> 0" "n = unat (pkt_length (inHdr m))" "n \<le> length (inbox m)" "n \<le> length data"
  shows "Network_Receive data m =
    Inr (m\<lparr>inHdr := (inHdr m)\<lparr>pkt_length := 0\<rparr>\<rparr>, inHdr m, put_bytes 0 (take n (inbox m)) data)"
  using assms by (simp add: Network_Receive_def bcopy_def Let_def)

lemma delivery_ok:
  assumes ok: "node_ok a m" and available: "messageAvailable m > 0" and buf: "length buffer = MaxPacketSize"
  shows "\<exists>m' x b. PostOffice_PostalDelivery buffer m = Inr m' \<and> node_ok a m' \<and> in_flight m = x # in_flight m'
     \<and> b = nat (sint (mail_to (mailHdr x))) \<and> b < 10 \<and> boxes m' = (boxes m)[b := lst_append (boxes m ! b) x]
     \<and> chanceToWork m' = chanceToWork m"
proof -
  define x where "x = decode_mail (inHdr m) (inbox m)"
  define b where "b = nat (sint (mail_to (mailHdr x)))"
  define l where "l = unat (pkt_length (inHdr m))"
  define buf where "buf = put_bytes 0 (take l (inbox m)) buffer"
  have full: "pkt_length (inHdr m) \<noteq> 0" and one: "messageAvailable m = 1" using ok available by (auto simp: node_ok_def)
  have x: "mail_ok a x" and nb: "numBoxes m = 10" "length (boxes m) = 10" "length (inbox m) = 52"
    using ok full by (auto simp: node_ok_def in_flight_def x_def)
  have hd: "mailHdr x = bytes_mail (inbox m)" "pktHdr x = inHdr m" by (simp_all add: x_def decode_mail_def)
  have l: "l = unat (mail_length (mailHdr x)) + 12" "unat (mail_length (mailHdr x)) \<le> 40"
    and to: "0 \<le> sint (mail_to (mailHdr x))" "sint (mail_to (mailHdr x)) < 10"
    using x unat_plus12 by (auto simp: mail_ok_def l_def hd)
  have "take l buf = take l (inbox m)" using nb l unfolding buf_def by (intro take_put_bytes_0) simp
  then have dec: "decode_mail (inHdr m) buf = x"
    unfolding x_def using l hd by (intro decode_mail_prefix [symmetric, where n = l]) simp_all
  then have hd': "bytes_mail buf = mailHdr x" by (auto simp: decode_mail_def)
  have len: "length buf = 52" using \<open>length buffer = 52\<close> l nb by (simp add: buf_def)
  have "Mail_Mail (inHdr m) (bytes_mail buf) (drop 12 buf) = Inr x"
    unfolding dec [symmetric] using l len hd' by (intro Mail_Mail_decode) simp_all
  then have put: "MailBox_Put (inHdr m) (mailHdr x) (drop 12 buf) box = Inr (lst_append box x)" for box
    by (simp add: MailBox_Put_def SynchList_Append_def hd')
  let ?m = "m\<lparr>messageAvailable := 0, inHdr := (inHdr m)\<lparr>pkt_length := 0\<rparr>, boxes := (boxes m)[b := lst_append (boxes m ! b) x]\<rparr>"
  have "Network_Receive buffer (m\<lparr>messageAvailable := 0\<rparr>) =
      Inr (m\<lparr>messageAvailable := 0, inHdr := (inHdr m)\<lparr>pkt_length := 0\<rparr>\<rparr>, inHdr m, buf)"
    using full nb l \<open>length buffer = 52\<close> by (subst Network_Receive_full [where n = l]) (simp_all add: l_def buf_def)
  then have run: "PostOffice_PostalDelivery buffer m = Inr ?m"
    using one to nb put l by (simp add: PostOffice_PostalDelivery_def Let_def hd' b_def)
  have flight: "in_flight m = x # in_flight ?m" using full by (simp add: in_flight_def x_def)
  have all: "\<forall>box\<in>set (boxes m). \<forall>y\<in>set box. mail_ok a (snd y)" "\<forall>y\<in>set (in_flight m). mail_ok a y"
    using ok by (simp_all add: node_ok_def)
  have b: "b < 10" using to by (simp add: b_def)
  then have "boxes m ! b \<in> set (boxes m)" using nb by simp
  then have "\<forall>y\<in>set (lst_append (boxes m ! b) x). mail_ok a (snd y)"
    using bspec [OF all(1)] x by (simp add: lst_append_def)
  with all(1) have "\<forall>box\<in>set ((boxes m)[b := lst_append (boxes m ! b) x]). \<forall>y\<in>set box. mail_ok a (snd y)"
    by (rule all_boxes_update)
  moreover have "\<forall>y\<in>set (in_flight ?m). mail_ok a y" using all(2) unfolding flight by simp
  ultimately have "node_ok a ?m" using ok one by (simp add: node_ok_def)
  then show ?thesis using run flight b b_def by (intro exI [of _ ?m] exI [of _ x] exI [of _ b]) simp
qed

text \<open>A legal message, the message as it travels, and the machine that is sending it.\<close>

definition legal_send :: "node \<Rightarrow> MailHeader \<Rightarrow> 8 word list \<Rightarrow> bool" where
  "legal_send m mailH data \<longleftrightarrow> unat (mail_length mailH) \<le> MaxMailSize \<and> 0 \<le> sint (mail_to mailH)
     \<and> sint (mail_to mailH) < numBoxes m \<and> unat (mail_length mailH) \<le> length data"

definition outgoing :: "node \<Rightarrow> PacketHeader \<Rightarrow> MailHeader \<Rightarrow> 8 word list \<Rightarrow> Mail" where
  "outgoing m pktH mailH data = \<lparr>pktHdr = pktH\<lparr>pkt_from := netAddr m, pkt_length := mail_length mailH + 12\<rparr>,
     mailHdr = mailH, mail_data = take (unat (mail_length mailH)) data\<rparr>"

definition sending :: "node \<Rightarrow> node" where
  "sending m = m\<lparr>sendLock := True, pendingSend := pendingSend m + 1\<rparr>"

definition push_packet :: "8 word list \<Rightarrow> node \<Rightarrow> node" where
  "push_packet p m = m\<lparr>sock := sock m @ [p]\<rparr>"

definition loses :: "nat \<Rightarrow> node \<Rightarrow> bool" where
  "loses random m \<longleftrightarrow> real (random mod 100) \<ge> chanceToWork m * 100"

lemma send_illegal: "n a = Some m \<Longrightarrow> PostOffice_Send random junk netJunk a pktH mailH data n = Inr n' \<Longrightarrow>
    legal_send m mailH data \<and> \<not> sendLock m"
  by (auto simp: PostOffice_Send_def legal_send_def bcopy_def Let_def split: if_splits)

lemma send_legal:
  assumes m: "n a = Some m" "node_ok a m" "\<not> sendLock m" and legal: "legal_send m mailH data"
  shows "\<exists>p. length p = MaxWireSize \<and> wire_mail p = outgoing m pktH mailH data
     \<and> PostOffice_Send random junk netJunk a pktH mailH data n =
         (if loses random m then Inr (n(a \<mapsto> sending m))
          else ASSERT ((n(a \<mapsto> sending m)) (pkt_to pktH) \<noteq> None)
            (Inr (n(a \<mapsto> sending m, pkt_to pktH := map_option (push_packet p) ((n(a \<mapsto> sending m)) (pkt_to pktH))))))"
proof -
  define h where "h = pktH\<lparr>pkt_from := netAddr m, pkt_length := mail_length mailH + 12\<rparr>"
  define l where "l = unat (mail_length mailH)"
  have l: "l \<le> 40" "l \<le> length data" "unat (pkt_length h) = l + 12"
    using legal unat_plus12 by (auto simp: l_def h_def legal_send_def)
  define buf where "buf = mail_bytes mailH @ take l data @ drop (l + 12) (new_buffer junk 52)"
  define p where "p = pkt_bytes h @ mail_bytes mailH @ take l data @ drop (24 + l) (new_buffer netJunk 64)"
  have len: "length buf = 52" "length p = 64" using l by (simp_all add: buf_def p_def)
  have copy: "bcopy data l 12 (put_bytes 0 (mail_bytes mailH) (new_buffer junk 52)) = Inr buf"
    using l by (simp add: bcopy_def put_bytes_0 put_bytes_after buf_def)
  have "take (l + 12) buf = mail_bytes mailH @ take l data" using l by (simp add: buf_def)
  then have copy': "bcopy buf (l + 12) 12 (put_bytes 0 (pkt_bytes h) (new_buffer netJunk 64)) = Inr p"
    using l len by (simp add: bcopy_def put_bytes_0 put_bytes_after p_def)
  have "wire_mail p = outgoing m pktH mailH data"
    using l by (simp add: wire_mail_def p_def outgoing_def h_def l_def decode_mail_append)
  moreover have "PostOffice_Send random junk netJunk a pktH mailH data n =
      Network_Send random netJunk a h buf (n(a \<mapsto> m\<lparr>sendLock := True\<rparr>))"
    using m legal copy by (simp add: PostOffice_Send_def legal_send_def l_def [symmetric] h_def Let_def)
  moreover have "Network_Send random netJunk a h buf (n(a \<mapsto> m\<lparr>sendLock := True\<rparr>)) =
      (if loses random m then Inr (n(a \<mapsto> sending m))
       else ASSERT ((n(a \<mapsto> sending m)) (pkt_to h) \<noteq> None)
         (Inr (n(a \<mapsto> sending m, pkt_to h := map_option (push_packet p) ((n(a \<mapsto> sending m)) (pkt_to h))))))"
    using m l copy'
    by (simp add: Network_Send_def node_ok_def loses_def SendToSocket_def push_packet_def [abs_def] sending_def Let_def
        h_def [THEN arg_cong [of _ _ pkt_from]])
  moreover have "pkt_to h = pkt_to pktH" by (simp add: h_def)
  ultimately show ?thesis using len by (intro exI [of _ p]) (simp cong: if_cong)
qed

lemma sending_ok: "node_ok a m \<Longrightarrow> \<not> sendLock m \<Longrightarrow> node_ok a (sending m)"
  by (simp add: node_ok_def sending_def in_flight_def)

lemma push_packet_ok:
  "node_ok a m \<Longrightarrow> length p = MaxWireSize \<Longrightarrow> mail_ok a (wire_mail p) \<Longrightarrow> node_ok a (push_packet p m)"
  by (auto simp: node_ok_def push_packet_def in_flight_def)

lemma in_flight_send [simp]: "in_flight (sending m) = in_flight m"
  "in_flight (push_packet p m) = in_flight m @ [wire_mail p]"
  by (simp_all add: in_flight_def sending_def push_packet_def)

lemma boxes_send [simp]: "boxes (sending m) = boxes m" "boxes (push_packet p m) = boxes m"
  "chanceToWork (sending m) = chanceToWork m" "chanceToWork (push_packet p m) = chanceToWork m"
  by (simp_all add: sending_def push_packet_def)

lemma outgoing_ok: "legal_send m mailH data \<Longrightarrow> numBoxes m = 10 \<Longrightarrow> mail_ok (pkt_to pktH) (outgoing m pktH mailH data)"
  by (auto simp: mail_ok_def legal_send_def outgoing_def)

definition send_done :: "node \<Rightarrow> node" where
  "send_done m = Network_SendDone PostOffice_PacketSent (m\<lparr>pendingSend := pendingSend m - 1\<rparr>)"

lemma send_done_ok:
  assumes "node_ok a m" "pendingSend m > 0"
  shows "node_ok a (send_done m) \<and> in_flight (send_done m) = in_flight m \<and> boxes (send_done m) = boxes m
    \<and> chanceToWork (send_done m) = chanceToWork m"
  using assms by (cases "sendLock m") (auto simp: send_done_def Network_SendDone_def PostOffice_PacketSent_def node_ok_def in_flight_def)

lemma Send_end_ok:
  assumes "node_ok a m" "PostOffice_Send_end m = Inr m'"
  shows "node_ok a m' \<and> in_flight m' = in_flight m \<and> boxes m' = boxes m \<and> chanceToWork m' = chanceToWork m"
  using assms by (cases "sendLock m") (auto simp: PostOffice_Send_end_def node_ok_def in_flight_def split: if_splits)

lemma Receive_ok:
  assumes ok: "node_ok a m" and b: "0 \<le> b" "b < 10"
  shows "PostOffice_Receive b m =
    (case boxes m ! nat b of [] \<Rightarrow> Inl Blocked
     | x # xs \<Rightarrow> Inr (m\<lparr>boxes := (boxes m)[nat b := xs]\<rparr>, pktHdr (snd x), mailHdr (snd x), mail_data (snd x)))"
proof (cases "boxes m ! nat b")
  case Nil
  then show ?thesis
    using ok b by (simp add: PostOffice_Receive_def MailBox_Get_def SynchList_Remove_def node_ok_def)
next
  case (Cons x xs)
  have "boxes m ! nat b \<in> set (boxes m)" using ok b by (simp add: node_ok_def)
  then have "mail_ok a (snd x)" using ok Cons by (auto simp: node_ok_def)
  then show ?thesis using ok b Cons
    by (cases x) (simp add: PostOffice_Receive_def MailBox_Get_def SynchList_Remove_def node_ok_def mail_ok_def)
qed

subsection \<open>The world of machines\<close>

text \<open>
  The machines with two histories: the messages given to \<^verbatim>\<open>Send\<close> for each machine, and those \<^verbatim>\<open>Receive\<close>
  has returned from each mailbox.
\<close>

record world =
  nodes :: net
  sent :: "32 word \<Rightarrow> Mail list"
  received :: "32 word \<Rightarrow> nat \<Rightarrow> Mail list"

abbreviation upd_node :: "world \<Rightarrow> 32 word \<Rightarrow> node \<Rightarrow> world" where
  "upd_node w a m \<equiv> w\<lparr>nodes := (nodes w)(a \<mapsto> m)\<rparr>"

inductive net_step :: "world \<Rightarrow> world \<Rightarrow> bool" where
  send: "nodes w a = Some m \<Longrightarrow> PostOffice_Send random junk netJunk a pktH mailH data (nodes w) = Inr n \<Longrightarrow>
    net_step w (w\<lparr>nodes := n, sent := (sent w)(pkt_to pktH := sent w (pkt_to pktH) @ [outgoing m pktH mailH data])\<rparr>)"
| send_end: "nodes w a = Some m \<Longrightarrow> PostOffice_Send_end m = Inr m' \<Longrightarrow> net_step w (upd_node w a m')"
| send_done: "nodes w a = Some m \<Longrightarrow> pendingSend m > 0 \<Longrightarrow> net_step w (upd_node w a (send_done m))"
| poll: "nodes w a = Some m \<Longrightarrow> pendingPoll m > 0 \<Longrightarrow> poll m = Inr m' \<Longrightarrow> net_step w (upd_node w a m')"
| deliver: "nodes w a = Some m \<Longrightarrow> length buffer = MaxPacketSize \<Longrightarrow> PostOffice_PostalDelivery buffer m = Inr m' \<Longrightarrow>
    net_step w (upd_node w a m')"
| receive: "nodes w a = Some m \<Longrightarrow> PostOffice_Receive b m = Inr (m', pktH, mailH, data) \<Longrightarrow>
    net_step w (upd_node w a m' \<lparr>received := (received w)(a := (received w a)(nat b :=
      received w a (nat b) @ [\<lparr>pktHdr = pktH, mailHdr = mailH, mail_data = data\<rparr>]))\<rparr>)"

text \<open>\<^verbatim>\<open>system.cc\<close> makes each machine's post office with ten boxes.\<close>

definition boot :: "32 word \<Rightarrow> real \<Rightarrow> node \<Rightarrow> node" where
  "boot netname rely m = PostOffice_PostOffice netname rely 10 m"

definition net_start :: "world \<Rightarrow> bool" where
  "net_start w \<longleftrightarrow> (\<forall>a m. nodes w a = Some m \<longrightarrow> (\<exists>rely m0. length (inbox m0) = MaxPacketSize \<and> m = boot a rely m0))
     \<and> sent w = (\<lambda>a. []) \<and> received w = (\<lambda>a b. [])"

definition for_box :: "nat \<Rightarrow> Mail \<Rightarrow> bool" where
  "for_box b x \<longleftrightarrow> nat (sint (mail_to (mailHdr x))) = b"

definition arrived :: "world \<Rightarrow> 32 word \<Rightarrow> node \<Rightarrow> nat \<Rightarrow> Mail list" where
  "arrived w a m b = received w a b @ map snd (boxes m ! b) @ filter (for_box b) (in_flight m)"

definition reliable :: "world \<Rightarrow> bool" where
  "reliable w \<longleftrightarrow> (\<forall>a m. nodes w a = Some m \<longrightarrow> chanceToWork m \<ge> 1)"

definition net_inv :: "world \<Rightarrow> bool" where
  "net_inv w \<longleftrightarrow> (\<forall>a m. nodes w a = Some m \<longrightarrow> node_ok a m
     \<and> (\<forall>b<10. subseq (arrived w a m b) (filter (for_box b) (sent w a))
          \<and> (reliable w \<longrightarrow> arrived w a m b = filter (for_box b) (sent w a))))"

lemma boot_ok: "length (inbox m) = MaxPacketSize \<Longrightarrow> node_ok a (boot a rely m)"
  by (simp add: boot_def PostOffice_PostOffice_def Network_Network_def node_ok_def in_flight_def
      MailBox_MailBox_def SynchList_SynchList_def)

lemma boot_empty: "in_flight (boot a rely m) = []" "b < 10 \<Longrightarrow> boxes (boot a rely m) ! b = []"
  by (simp_all add: boot_def PostOffice_PostOffice_def Network_Network_def in_flight_def
      MailBox_MailBox_def SynchList_SynchList_def)

lemma net_start_inv: "net_start w \<Longrightarrow> net_inv w"
  by (fastforce simp: net_start_def net_inv_def arrived_def boot_empty boot_ok)

text \<open>A step of one machine that keeps the messages that have arrived keeps the invariant.\<close>

lemma net_inv_local:
  assumes inv: "net_inv w" and m: "nodes w a = Some m"
    and m': "node_ok a m'" "chanceToWork m' = chanceToWork m"
    and others: "\<And>c. c \<noteq> a \<Longrightarrow> received w' c = received w c"
    and same: "\<And>b. b < 10 \<Longrightarrow> arrived w' a m' b = arrived w a m b"
    and w': "nodes w' = (nodes w)(a \<mapsto> m')" "sent w' = sent w"
  shows "net_inv w'"
proof -
  have rel: "reliable w' = reliable w" using m m' w' by (auto simp: reliable_def)
  have "node_ok c k \<and> (\<forall>b<10. subseq (arrived w' c k b) (filter (for_box b) (sent w' c))
      \<and> (reliable w' \<longrightarrow> arrived w' c k b = filter (for_box b) (sent w' c)))" if k: "nodes w' c = Some k" for c k
  proof (cases "c = a")
    case True
    then show ?thesis using inv m m' k same w' rel by (auto simp: net_inv_def)
  next
    case False
    then have "arrived w' c k b = arrived w c k b" for b using others by (simp add: arrived_def)
    then show ?thesis using False inv k w' rel by (auto simp: net_inv_def)
  qed
  then show ?thesis by (simp add: net_inv_def)
qed

text \<open>A send adds the message to what was sent and, unless it is lost, to what is in flight.\<close>

lemma net_inv_send:
  assumes inv: "net_inv w" and w': "sent w' = (sent w)(t := sent w t @ [x])"
    and eff: "\<And>c k'. nodes w' c = Some k' \<Longrightarrow> \<exists>k. nodes w c = Some k \<and> node_ok c k'
      \<and> (\<forall>b<10. arrived w' c k' b = arrived w c k b @ (if c = t \<and> arrives then filter (for_box b) [x] else []))"
    and rel: "reliable w' \<Longrightarrow> reliable w \<and> arrives"
  shows "net_inv w'"
proof -
  have "node_ok c k' \<and> (\<forall>b<10. subseq (arrived w' c k' b) (filter (for_box b) (sent w' c))
      \<and> (reliable w' \<longrightarrow> arrived w' c k' b = filter (for_box b) (sent w' c)))" if k': "nodes w' c = Some k'" for c k'
  proof -
    obtain k where k: "nodes w c = Some k" "node_ok c k'"
      "\<And>b. b < 10 \<Longrightarrow> arrived w' c k' b = arrived w c k b @ (if c = t \<and> arrives then filter (for_box b) [x] else [])"
      using eff [OF k'] by blast
    have old: "subseq (arrived w c k b) (filter (for_box b) (sent w c))"
      "reliable w \<Longrightarrow> arrived w c k b = filter (for_box b) (sent w c)" if "b < 10" for b
      using inv k(1) that by (auto simp: net_inv_def)
    have new: "filter (for_box b) (sent w' c) = filter (for_box b) (sent w c) @ (if c = t then filter (for_box b) [x] else [])" for b
      by (simp add: w')
    have "subseq (arrived w' c k' b) (filter (for_box b) (sent w' c))" if "b < 10" for b
      unfolding new k(3) [OF that] using old(1) [OF that] by (intro list_emb_append_mono) auto
    moreover have "arrived w' c k' b = filter (for_box b) (sent w' c)" if "b < 10" "reliable w'" for b
      unfolding new k(3) [OF that(1)] using old(2) [OF that(1)] rel [OF that(2)] by simp
    ultimately show ?thesis using k(2) by blast
  qed
  then show ?thesis by (simp add: net_inv_def)
qed

lemma send_inv:
  assumes inv: "net_inv w" and m: "nodes w a = Some m"
    and send: "PostOffice_Send random junk netJunk a pktH mailH data (nodes w) = Inr n"
  shows "net_inv (w\<lparr>nodes := n, sent := (sent w)(pkt_to pktH := sent w (pkt_to pktH) @ [outgoing m pktH mailH data])\<rparr>)"
    (is "net_inv ?w")
proof -
  let ?t = "pkt_to pktH" and ?x = "outgoing m pktH mailH data" and ?n = "(nodes w)(a \<mapsto> sending m)"
  have ok: "node_ok c k" if "nodes w c = Some k" for c k using inv that by (auto simp: net_inv_def)
  have legal: "legal_send m mailH data" "\<not> sendLock m" using send_illegal [OF m send] by auto
  obtain p where p: "length p = 64" "wire_mail p = ?x" and run: "Inr n = (if loses random m then Inr ?n
      else ASSERT (?n ?t \<noteq> None) (Inr (?n(?t := map_option (push_packet p) (?n ?t)))))"
    using send_legal [where n = "nodes w" and random = random and junk = junk and netJunk = netJunk and pktH = pktH,
        OF m ok [OF m] legal(2) legal(1)] send by auto
  have x: "mail_ok ?t ?x" using legal ok [OF m] by (intro outgoing_ok) (auto simp: node_ok_def)
  have n1: "\<exists>k. nodes w c = Some k \<and> node_ok c k' \<and> boxes k' = boxes k \<and> in_flight k' = in_flight k
      \<and> chanceToWork k' = chanceToWork k" if "?n c = Some k'" for c k'
    using that m ok sending_ok [OF ok [OF m] legal(2)] by (auto split: if_splits)
  let ?arr = "\<not> loses random m"
  have n: "n = (if ?arr then ?n(?t := map_option (push_packet p) (?n ?t)) else ?n)"
    using run [symmetric] by (auto split: if_splits)
  have eff: "\<exists>k. nodes w c = Some k \<and> node_ok c k' \<and> chanceToWork k' = chanceToWork k
      \<and> boxes k' = boxes k \<and> in_flight k' = in_flight k @ (if c = ?t \<and> ?arr then [?x] else [])" if k': "n c = Some k'" for c k'
  proof (cases "c = ?t \<and> ?arr")
    case True
    then obtain k1 where k1: "?n c = Some k1" "k' = push_packet p k1" using k' by (auto simp: n)
    from n1 [OF k1(1)] obtain k where k: "nodes w c = Some k" "node_ok c k1" "boxes k1 = boxes k"
      "in_flight k1 = in_flight k" "chanceToWork k1 = chanceToWork k" by blast
    have "node_ok c k'" using k(2) p x True unfolding k1(2) by (intro push_packet_ok) simp_all
    then show ?thesis using k k1 p True by simp
  next
    case False
    then have "?n c = Some k'" using k' by (auto simp: n split: if_splits)
    with n1 False show ?thesis by auto
  qed
  show ?thesis
  proof (rule net_inv_send [OF inv, where t = ?t and x = ?x and arrives = ?arr])
    fix c k' assume "nodes ?w c = Some k'"
    then obtain k where "nodes w c = Some k" "node_ok c k'" "boxes k' = boxes k"
      "in_flight k' = in_flight k @ (if c = ?t \<and> ?arr then [?x] else [])" using eff by auto
    then show "\<exists>k. nodes w c = Some k \<and> node_ok c k'
      \<and> (\<forall>b<10. arrived ?w c k' b = arrived w c k b @ (if c = ?t \<and> ?arr then filter (for_box b) [?x] else []))"
      by (intro exI [of _ k]) (auto simp: arrived_def)
  next
    assume rel: "reliable ?w"
    have dom: "\<exists>k'. n c = Some k' \<and> chanceToWork k' = chanceToWork k" if "nodes w c = Some k" for c k
    proof -
      have "n c \<noteq> None" using that by (auto simp: n)
      then obtain k' where "n c = Some k'" by auto
      then show ?thesis using eff [of c k'] that by auto
    qed
    have rel_w: "reliable w"
      unfolding reliable_def
    proof (intro allI impI)
      fix c k assume "nodes w c = Some k"
      from dom [OF this] obtain k' where k': "n c = Some k'" "chanceToWork k' = chanceToWork k" by blast
      from k'(1) rel have "1 \<le> chanceToWork k'" by (simp add: reliable_def)
      then show "1 \<le> chanceToWork k" using k' by simp
    qed
    then have "1 \<le> chanceToWork m" using m by (simp add: reliable_def)
    moreover have "real (random mod 100) < 100" by simp
    ultimately have ?arr unfolding loses_def by linarith
    with rel_w show "reliable w \<and> ?arr" ..
  qed simp
qed

lemma deliver_inv:
  assumes inv: "net_inv w" and m: "nodes w a = Some m" and buf: "length buffer = MaxPacketSize"
    and run: "PostOffice_PostalDelivery buffer m = Inr m'"
  shows "net_inv (upd_node w a m')"
proof -
  have ok: "node_ok a m" using inv m by (auto simp: net_inv_def)
  have "messageAvailable m > 0" using run by (auto simp: PostOffice_PostalDelivery_def split: if_splits)
  from delivery_ok [OF ok this buf] run obtain x b where x: "node_ok a m'" "in_flight m = x # in_flight m'" "b = nat (sint (mail_to (mailHdr x)))" "b < 10"
    "boxes m' = (boxes m)[b := lst_append (boxes m ! b) x]" "chanceToWork m' = chanceToWork m"
    unfolding run sum.inject by blast
  have "length (boxes m) = 10" using ok by (simp add: node_ok_def)
  then have "arrived (upd_node w a m') a m' c = arrived w a m c" if "c < 10" for c
    using x that by (cases "c = b") (simp_all add: arrived_def for_box_def lst_append_def)
  then show ?thesis using inv m x by (intro net_inv_local [where w = w and w' = "upd_node w a m'"]) simp_all
qed

lemma receive_inv:
  assumes inv: "net_inv w" and m: "nodes w a = Some m"
    and run: "PostOffice_Receive b m = Inr (m', pktH, mailH, data)"
  shows "net_inv (upd_node w a m' \<lparr>received := (received w)(a := (received w a)(nat b :=
      received w a (nat b) @ [\<lparr>pktHdr = pktH, mailHdr = mailH, mail_data = data\<rparr>]))\<rparr>)" (is "net_inv ?w")
proof -
  have ok: "node_ok a m" using inv m by (auto simp: net_inv_def)
  have b: "0 \<le> b" "b < 10" using run ok by (auto simp: PostOffice_Receive_def node_ok_def)
  obtain x xs where x: "boxes m ! nat b = x # xs" using Receive_ok [OF ok b] run by (cases "boxes m ! nat b") auto
  with Receive_ok [OF ok b] run have m': "m' = m\<lparr>boxes := (boxes m)[nat b := xs]\<rparr>"
    "\<lparr>pktHdr = pktH, mailHdr = mailH, mail_data = data\<rparr> = snd x" by auto
  have len: "length (boxes m) = 10" and all: "\<forall>box\<in>set (boxes m). \<forall>y\<in>set box. mail_ok a (snd y)"
    using ok by (simp_all add: node_ok_def)
  have box: "boxes m' = (boxes m)[nat b := xs]" "chanceToWork m' = chanceToWork m" by (simp_all add: m'(1))
  have "boxes m ! nat b \<in> set (boxes m)" using b len by simp
  then have "\<forall>y\<in>set xs. mail_ok a (snd y)" using bspec [OF all] x by simp
  with all have "\<forall>box\<in>set (boxes m'). \<forall>y\<in>set box. mail_ok a (snd y)" unfolding box(1) by (rule all_boxes_update)
  moreover have flight: "in_flight m' = in_flight m" by (simp add: m'(1) in_flight_def)
  ultimately have "node_ok a m'" using ok by (simp add: node_ok_def m'(1))
  moreover have "arrived ?w a m' c = arrived w a m c" if "c < 10" for c
    using x that b len by (cases "c = nat b") (simp_all add: arrived_def flight box m'(2))
  ultimately show ?thesis using inv m box by (intro net_inv_local [where w = w and w' = ?w]) simp_all
qed

lemma net_step_inv: "net_step w w' \<Longrightarrow> net_inv w \<Longrightarrow> net_inv w'"
proof (induction rule: net_step.induct)
  case (send w a m random junk netJunk pktH mailH data n)
  then show ?case by (intro send_inv)
next
  case (send_end w a m m')
  then have "node_ok a m" by (auto simp: net_inv_def)
  from Send_end_ok [OF this send_end(2)] show ?case
    using send_end by (intro net_inv_local [where w = w and w' = "upd_node w a m'"]) (simp_all add: arrived_def)
next
  case (send_done w a m)
  then have "node_ok a m" by (auto simp: net_inv_def)
  from send_done_ok [OF this send_done(2)] show ?case
    using send_done by (intro net_inv_local [where w = w and w' = "upd_node w a (send_done m)"]) (simp_all add: arrived_def)
next
  case (poll w a m m')
  then have "node_ok a m" by (auto simp: net_inv_def)
  from poll_ok [OF this] poll show ?case
    by (intro net_inv_local [where w = w and w' = "upd_node w a m'"]) (auto simp: arrived_def)
next
  case (deliver w a m buffer m')
  then show ?case by (intro deliver_inv)
next
  case (receive w a m b m' pktH mailH data)
  then show ?case by (intro receive_inv)
qed

interpretation netsys: step_system net_start net_step net_inv
  by unfold_locales (erule net_start_inv, erule net_step_inv)

subsection \<open>Delivery\<close>

text \<open>A machine that has just been started, sending a message of two bytes to its own box 0.\<close>

definition example_node :: node where
  "example_node = \<lparr>ident = 0, chanceToWork = 0, sendBusy = True, inHdr = \<lparr>pkt_to = 0, pkt_from = 0, pkt_length = 7\<rparr>,
     inbox = replicate 52 9, sock = [], pendingSend = 0, pendingPoll = 0, packetsSent = 0, packetsRecvd = 0, netAddr = 0,
     numBoxes = 0, boxes = [], messageAvailable = 3, messageSent = 3, sendLock = True\<rparr>"

definition example_world :: world where
  "example_world = \<lparr>nodes = [1 \<mapsto> boot 1 1 example_node], sent = (\<lambda>a. []), received = (\<lambda>a b. [])\<rparr>"

abbreviation example_hdr :: PacketHeader where
  "example_hdr \<equiv> \<lparr>pkt_to = 1, pkt_from = 0, pkt_length = 0\<rparr>"

abbreviation example_mail :: MailHeader where
  "example_mail \<equiv> \<lparr>mail_to = 0, mail_from = 1, mail_length = 2\<rparr>"

lemma example_start: "net_start example_world"
proof -
  have "length (inbox example_node) = 52" by (simp add: example_node_def)
  then show ?thesis by (auto simp: net_start_def example_world_def)
qed

lemma example_node_ok: "node_ok 1 (boot 1 1 example_node)"
  by (rule boot_ok) (simp add: example_node_def)

lemma example_legal: "legal_send (boot 1 1 example_node) example_mail [72, 105]"
  "\<not> sendLock (boot 1 1 example_node)" "chanceToWork (boot 1 1 example_node) = 1" "netAddr (boot 1 1 example_node) = 1"
  by (simp_all add: legal_send_def boot_def PostOffice_PostOffice_def Network_Network_def)

lemma example_send:
  "\<exists>p. wire_mail p = outgoing (boot 1 1 example_node) example_hdr example_mail [72, 105]
     \<and> PostOffice_Send 5 [] [] 1 example_hdr example_mail [72, 105] (nodes example_world)
       = Inr [1 \<mapsto> push_packet p (sending (boot 1 1 example_node))]"
proof -
  have "\<not> loses 5 (boot 1 1 example_node)" by (simp add: loses_def example_legal)
  moreover have "nodes example_world 1 = Some (boot 1 1 example_node)" by (simp add: example_world_def)
  ultimately show ?thesis
    using send_legal [where n = "nodes example_world" and a = 1 and random = 5 and junk = "[]" and netJunk = "[]"
        and pktH = example_hdr, OF _ example_node_ok example_legal(2,1)]
    by (auto simp: example_world_def)
qed



text \<open>
  (C22) No assertion of the network, the post office or a mailbox fails in any reachable state: the poll that is always
  scheduled succeeds, the postal worker delivers whatever it is woken up for, \<^verbatim>\<open>Receive\<close> waits exactly when the box is
  empty, and a legal message to a running machine can be sent whenever the send lock is free.  While the lock is held
  the interrupt that frees it is pending or has come, so no sender waits for ever.
\<close>

theorem network_asserts_hold:
  assumes "net_start w0" "net_step\<^sup>*\<^sup>* w0 w" "nodes w a = Some m"
  shows "pendingPoll m = 1 \<and> (\<exists>m'. poll m = Inr m')
    \<and> (messageAvailable m > 0 \<longrightarrow> length buffer = MaxPacketSize \<longrightarrow> (\<exists>m'. PostOffice_PostalDelivery buffer m = Inr m'))
    \<and> (0 \<le> b \<and> b < 10 \<longrightarrow> (if boxes m ! nat b = [] then PostOffice_Receive b m = Inl Blocked
         else \<exists>r. PostOffice_Receive b m = Inr r))
    \<and> (legal_send m mailH data \<and> \<not> sendLock m \<and> nodes w (pkt_to pktH) \<noteq> None \<longrightarrow>
         (\<exists>n. PostOffice_Send random junk netJunk a pktH mailH data (nodes w) = Inr n))
    \<and> (sendLock m \<longrightarrow> pendingSend m = 1 \<or> (\<exists>m'. PostOffice_Send_end m = Inr m' \<and> \<not> sendLock m'))"
proof (intro conjI impI)
  have ok: "node_ok a m" using netsys.inv_reachable [OF assms(1,2)] assms(3) by (simp add: net_inv_def)
  show "pendingPoll m = 1" using ok by (simp add: node_ok_def)
  show "\<exists>m'. poll m = Inr m'" using poll_ok [OF ok] by blast
  show "\<exists>m'. PostOffice_PostalDelivery buffer m = Inr m'" if "messageAvailable m > 0" "length buffer = MaxPacketSize"
    using delivery_ok [OF ok that] by blast
  show "if boxes m ! nat b = [] then PostOffice_Receive b m = Inl Blocked else \<exists>r. PostOffice_Receive b m = Inr r"
    if "0 \<le> b \<and> b < 10"
    using Receive_ok [OF ok] that by (auto split: list.splits)
  show "\<exists>n. PostOffice_Send random junk netJunk a pktH mailH data (nodes w) = Inr n"
    if "legal_send m mailH data \<and> \<not> sendLock m \<and> nodes w (pkt_to pktH) \<noteq> None"
  proof -
    from that have "\<not> sendLock m" "legal_send m mailH data" by simp_all
    from send_legal [where n = "nodes w" and random = random and junk = junk and netJunk = netJunk and pktH = pktH, OF assms(3) ok this]
    show ?thesis using that by auto
  qed
  show "pendingSend m = 1 \<or> (\<exists>m'. PostOffice_Send_end m = Inr m' \<and> \<not> sendLock m')" if "sendLock m"
    using ok that by (auto simp: node_ok_def PostOffice_Send_end_def)
qed

theorem network_asserts_hold_witness:
  "net_start example_world
   \<and> (\<exists>m'. poll (boot 1 1 example_node) = Inr m')
   \<and> (\<exists>n. PostOffice_Send 5 [] [] 1 example_hdr example_mail [72, 105] (nodes example_world) = Inr n)"
proof -
  have "nodes example_world 1 = Some (boot 1 1 example_node)" by (simp add: example_world_def)
  from network_asserts_hold [OF example_start rtranclp.rtrancl_refl this, of "[]" 0 example_mail "[72, 105]" example_hdr 5 "[]" "[]"]
  show ?thesis using example_start example_legal by (simp add: example_world_def)
qed

end
