(* ===== verification/Nachos_Coff.thy ===== *)
theory Nachos_Coff
  imports Nachos_Machine Nachos_Disk
begin

text \<open>
  Object files: the converter \<^verbatim>\<open>bin/coff2noff.c\<close> from MIPS COFF (\<^verbatim>\<open>bin/coff.h\<close>) to the Nachos format of
  \<^verbatim>\<open>bin/noff.h\<close>.  The headers are read at the offsets they have on the 32-bit host, where a \<^verbatim>\<open>long\<close> has four
  bytes.  Every \<^verbatim>\<open>exit(1)\<close> is an error value, and the output file is unlinked there.  The lemmas show that the
  segments the new header names hold the bytes of the sections they come from.
\<close>

subsection \<open>Headers\<close>

record Segment =
  virtualAddr :: "32 word"
  inFileAddr :: "32 word"
  seg_size :: "32 word"

record NoffHeader =
  noffMagic :: "32 word"
  code :: Segment
  initData :: Segment
  uninitData :: Segment

abbreviation (input) NOFFMAGIC :: "32 word" where "NOFFMAGIC \<equiv> 0xbadfad"
abbreviation (input) MIPSELMAGIC :: "16 word" where "MIPSELMAGIC \<equiv> 0x0162"
abbreviation (input) OMAGIC :: "16 word" where "OMAGIC \<equiv> 263"

definition seg_words :: "Segment \<Rightarrow> 32 word list" where
  "seg_words s = [virtualAddr s, inFileAddr s, seg_size s]"

definition noff_bytes :: "NoffHeader \<Rightarrow> 8 word list" where
  "noff_bytes h = words_bytes (noffMagic h # seg_words (code h) @ seg_words (initData h) @ seg_words (uninitData h))"

definition words_seg :: "32 word list \<Rightarrow> Segment" where
  "words_seg ws = \<lparr>virtualAddr = ws ! 0, inFileAddr = ws ! 1, seg_size = ws ! 2\<rparr>"

definition bytes_noff :: "8 word list \<Rightarrow> NoffHeader" where
  "bytes_noff bs = (let ws = bytes_words (take 40 bs) in
     \<lparr>noffMagic = ws ! 0, code = words_seg (drop 1 ws), initData = words_seg (drop 4 ws), uninitData = words_seg (drop 7 ws)\<rparr>)"

lemma length_noff_bytes [simp]: "length (noff_bytes h) = 40"
  by (simp add: noff_bytes_def seg_words_def)

lemma bytes_noff_append [simp]: "bytes_noff (noff_bytes h @ r) = h"
proof -
  have "take 40 (noff_bytes h @ r) = noff_bytes h" by simp
  then show ?thesis
    by (simp add: bytes_noff_def noff_bytes_def seg_words_def words_seg_def Let_def)
qed

record scnhdr =
  s_name :: "8 word list"
  s_paddr :: "32 word"
  s_size :: "32 word"
  s_scnptr :: "32 word"

text \<open>The two and the four bytes at an offset of a structure, least significant first.\<close>

definition short_at :: "nat \<Rightarrow> 8 word list \<Rightarrow> 16 word" where
  "short_at i bs = word2 (bs ! i) (bs ! (i + 1))"

definition long_at :: "nat \<Rightarrow> 8 word list \<Rightarrow> 32 word" where
  "long_at i bs = word4 (bs ! i) (bs ! (i + 1)) (bs ! (i + 2)) (bs ! (i + 3))"

definition bytes_scnhdr :: "8 word list \<Rightarrow> scnhdr" where
  "bytes_scnhdr bs = \<lparr>s_name = take 8 bs, s_paddr = long_at 8 bs, s_size = long_at 16 bs, s_scnptr = long_at 20 bs\<rparr>"

fun section_headers :: "nat \<Rightarrow> 8 word list \<Rightarrow> scnhdr list" where
  "section_headers 0 bs = []"
| "section_headers (Suc n) bs = bytes_scnhdr bs # section_headers n (drop 40 bs)"

subsection \<open>Conversion\<close>

datatype coff_error = ShortFile | NotMipsel | NotOmagic | DataAndRdata | BssAndSbss | UnknownSegment

text \<open>\<^verbatim>\<open>Read\<close> exits when the file is too short; a section size is taken as unsigned.\<close>

definition coff_Read :: "hostfile \<Rightarrow> nat \<Rightarrow> coff_error + (hostfile \<times> 8 word list)" where
  "coff_Read f nBytes =
     (let bs = get_bytes (hf_pos f) nBytes (hf_bytes f) in
      if length bs \<noteq> nBytes then Inl ShortFile else Inr (f\<lparr>hf_pos := hf_pos f + nBytes\<rparr>, bs))"

text \<open>\<^verbatim>\<open>strcmp\<close> of a section name with a literal is 0.\<close>

definition has_name :: "string \<Rightarrow> scnhdr \<Rightarrow> bool" where
  "has_name lit s = (take (length lit + 1) (s_name s) = map (\<lambda>c. of_nat (of_char c)) lit @ [0])"

record coff_state =
  fdIn :: hostfile
  fdOut :: hostfile
  noffH :: NoffHeader
  inNoffFile :: "32 word"

text \<open>The copying of a section, common to the branches for code and data.\<close>

definition copy_section :: "scnhdr \<Rightarrow> coff_state \<Rightarrow> coff_error + coff_state" where
  "copy_section s st =
     rbind (coff_Read ((fdIn st)\<lparr>hf_pos := unat (s_scnptr s)\<rparr>) (unat (s_size s))) (\<lambda>(fin, buffer).
       Inr (st\<lparr>fdIn := fin, fdOut := WriteFile (fdOut st) buffer, inNoffFile := inNoffFile st + s_size s\<rparr>))"

definition new_segment :: "scnhdr \<Rightarrow> coff_state \<Rightarrow> Segment" where
  "new_segment s st = \<lparr>virtualAddr = s_paddr s, inFileAddr = inNoffFile st, seg_size = s_size s\<rparr>"

definition convert_section :: "scnhdr \<Rightarrow> coff_state \<Rightarrow> coff_error + coff_state" where
  "convert_section s st =
     (let h = noffH st in
      if s_size s = 0 then Inr st
      else if has_name ''.text'' s then
        copy_section s (st\<lparr>noffH := h\<lparr>code := new_segment s st\<rparr>\<rparr>)
      else if has_name ''.data'' s \<or> has_name ''.rdata'' s then
        (if seg_size (initData h) \<noteq> 0 then Inl DataAndRdata
         else copy_section s (st\<lparr>noffH := h\<lparr>initData := new_segment s st\<rparr>\<rparr>))
      else if has_name ''.bss'' s \<or> has_name ''.sbss'' s then
        (let u = uninitData h in
         if seg_size u \<noteq> 0 then
           (if s_paddr s = virtualAddr u + seg_size u then Inl BssAndSbss
            else Inr (st\<lparr>noffH := h\<lparr>uninitData := u\<lparr>seg_size := seg_size u + s_size s\<rparr>\<rparr>\<rparr>))
         else Inr (st\<lparr>noffH := h\<lparr>uninitData := u\<lparr>virtualAddr := s_paddr s, seg_size := s_size s\<rparr>\<rparr>\<rparr>))
      else Inl UnknownSegment)"

fun convert_sections :: "scnhdr list \<Rightarrow> coff_state \<Rightarrow> coff_error + coff_state" where
  "convert_sections [] st = Inr st"
| "convert_sections (s # ss) st = rbind (convert_section s st) (convert_sections ss)"

text \<open>
  The swapping of a section header, \<open>bigEndian\<close> being whether the host is big endian.
\<close>

definition swap_section :: "bool \<Rightarrow> scnhdr \<Rightarrow> scnhdr" where
  "swap_section bigEndian s = s\<lparr>s_paddr := WordToHost bigEndian (s_paddr s), s_size := WordToHost bigEndian (s_size s),
     s_scnptr := WordToHost bigEndian (s_scnptr s)\<rparr>"

text \<open>\<open>junk\<close> is what the uninitialised header holds; the result is the contents of the output file.\<close>

definition coff2noff :: "bool \<Rightarrow> NoffHeader \<Rightarrow> 8 word list \<Rightarrow> coff_error + 8 word list" where
  "coff2noff bigEndian junk coff =
     rbind (coff_Read \<lparr>hf_bytes = coff, hf_pos = 0\<rparr> 20) (\<lambda>(fin, fileh).
     if ShortToHost bigEndian (short_at 0 fileh) \<noteq> MIPSELMAGIC then Inl NotMipsel else
     rbind (coff_Read fin 56) (\<lambda>(fin, systemh).
     if ShortToHost bigEndian (short_at 0 systemh) \<noteq> OMAGIC then Inl NotOmagic else
     let numsections = unat (ShortToHost bigEndian (short_at 2 fileh)) in
     rbind (coff_Read fin (numsections * 40)) (\<lambda>(fin, bs).
     let sections = map (swap_section bigEndian) (section_headers numsections bs);
         h = junk\<lparr>noffMagic := NOFFMAGIC, code := (code junk)\<lparr>seg_size := 0\<rparr>, initData := (initData junk)\<lparr>seg_size := 0\<rparr>,
               uninitData := (uninitData junk)\<lparr>seg_size := 0\<rparr>\<rparr>
     in rbind (convert_sections sections \<lparr>fdIn = fin, fdOut = \<lparr>hf_bytes = [], hf_pos = 40\<rparr>, noffH = h, inNoffFile = 40\<rparr>) (\<lambda>st.
        Inr (hf_bytes (WriteFile ((fdOut st)\<lparr>hf_pos := 0\<rparr>) (noff_bytes (noffH st))))))))"

subsection \<open>The segments hold the sections\<close>

definition coff_sections :: "bool \<Rightarrow> 8 word list \<Rightarrow> scnhdr list" where
  "coff_sections bigEndian coff =
     map (swap_section bigEndian) (section_headers (unat (ShortToHost bigEndian (short_at 2 coff))) (drop 76 coff))"

definition named :: "string list \<Rightarrow> scnhdr \<Rightarrow> bool" where
  "named ns s \<longleftrightarrow> (\<exists>n\<in>set ns. has_name n s)"

text \<open>The bytes of a section are in the output where the segment says.\<close>

definition holds_section :: "8 word list \<Rightarrow> 8 word list \<Rightarrow> Segment \<Rightarrow> scnhdr \<Rightarrow> bool" where
  "holds_section coff out seg s \<longleftrightarrow> virtualAddr seg = s_paddr s \<and> seg_size seg = s_size s
     \<and> (\<exists>p. inFileAddr seg = of_nat p \<and> 40 \<le> p \<and> p + unat (s_size s) \<le> length out
          \<and> get_bytes p (unat (s_size s)) out = get_bytes (unat (s_scnptr s)) (unat (s_size s)) coff)"

definition seg_inv :: "string list \<Rightarrow> 8 word list \<Rightarrow> 8 word list \<Rightarrow> scnhdr set \<Rightarrow> Segment \<Rightarrow> bool" where
  "seg_inv ns coff out S seg \<longleftrightarrow>
     (if seg_size seg = 0 then \<forall>s\<in>S. named ns s \<longrightarrow> s_size s = 0
      else \<exists>s\<in>S. named ns s \<and> holds_section coff out seg s)"

definition conv_inv :: "8 word list \<Rightarrow> scnhdr set \<Rightarrow> coff_state \<Rightarrow> bool" where
  "conv_inv coff S st \<longleftrightarrow> hf_bytes (fdIn st) = coff \<and> of_nat (hf_pos (fdOut st)) = inNoffFile st
     \<and> 40 \<le> hf_pos (fdOut st) \<and> length (hf_bytes (fdOut st)) \<le> hf_pos (fdOut st)
     \<and> noffMagic (noffH st) = NOFFMAGIC
     \<and> seg_inv [''.text''] coff (hf_bytes (fdOut st)) S (code (noffH st))
     \<and> seg_inv [''.data'', ''.rdata''] coff (hf_bytes (fdOut st)) S (initData (noffH st))"

lemma WriteFile_append:
  assumes "length (hf_bytes f) \<le> hf_pos f"
  shows "WriteFile f bs = \<lparr>hf_bytes = hf_bytes f @ replicate (hf_pos f - length (hf_bytes f)) 0 @ bs, hf_pos = hf_pos f + length bs\<rparr>"
proof -
  obtain k where k: "hf_pos f = length (hf_bytes f) + k" using assms le_Suc_ex by blast
  have "replicate (k + length bs) (0::8 word) = replicate k 0 @ replicate (length bs) 0" by (simp add: replicate_add)
  then show ?thesis by (simp add: WriteFile_def k Let_def put_bytes_def)
qed

lemma get_bytes_append: "p + n \<le> length xs \<Longrightarrow> get_bytes p n (xs @ ys) = get_bytes p n xs"
  by (simp add: get_bytes_def)

lemma holds_section_append: "holds_section coff out seg s \<Longrightarrow> holds_section coff (out @ r) seg s"
  unfolding holds_section_def by (metis get_bytes_append length_append trans_le_add1)

lemma seg_inv_mono:
  "seg_inv ns coff out S seg \<Longrightarrow> (\<And>s. holds_section coff out seg s \<Longrightarrow> holds_section coff out' seg s) \<Longrightarrow> seg_inv ns coff out' S seg"
  unfolding seg_inv_def by (cases "seg_size seg = 0") auto

lemma seg_inv_append: "seg_inv ns coff out S seg \<Longrightarrow> seg_inv ns coff (out @ r) S seg"
  by (erule seg_inv_mono) (rule holds_section_append)

lemma seg_inv_other: "seg_inv ns coff out S seg \<Longrightarrow> \<not> named ns s \<or> s_size s = 0 \<Longrightarrow> seg_inv ns coff out (insert s S) seg"
  by (auto simp: seg_inv_def)

lemma copy_section_inv:
  assumes run: "copy_section s st = Inr st'" and pos: "length (hf_bytes (fdOut st)) \<le> hf_pos (fdOut st)" "40 \<le> hf_pos (fdOut st)"
    and coff: "hf_bytes (fdIn st) = coff" "of_nat (hf_pos (fdOut st)) = inNoffFile st"
  shows "\<exists>r. fdOut st' = \<lparr>hf_bytes = hf_bytes (fdOut st) @ r, hf_pos = hf_pos (fdOut st) + unat (s_size s)\<rparr>
     \<and> noffH st' = noffH st \<and> hf_bytes (fdIn st') = coff \<and> inNoffFile st' = inNoffFile st + s_size s
     \<and> length (hf_bytes (fdOut st) @ r) = hf_pos (fdOut st) + unat (s_size s)
     \<and> holds_section coff (hf_bytes (fdOut st) @ r) (new_segment s st) s"
proof -
  let ?buf = "get_bytes (unat (s_scnptr s)) (unat (s_size s)) coff"
  let ?gap = "replicate (hf_pos (fdOut st) - length (hf_bytes (fdOut st))) 0"
  have len: "length ?buf = unat (s_size s)"
    and st': "st' = st\<lparr>fdIn := (fdIn st)\<lparr>hf_pos := unat (s_scnptr s) + unat (s_size s)\<rparr>,
        fdOut := WriteFile (fdOut st) ?buf, inNoffFile := inNoffFile st + s_size s\<rparr>"
    using run coff by (auto simp: copy_section_def coff_Read_def Let_def split: if_splits)
  let ?out = "hf_bytes (fdOut st) @ ?gap @ ?buf"
  have out: "WriteFile (fdOut st) ?buf = \<lparr>hf_bytes = ?out, hf_pos = hf_pos (fdOut st) + unat (s_size s)\<rparr>"
    using WriteFile_append [OF pos(1)] len by simp
  have "length ?out = hf_pos (fdOut st) + unat (s_size s)" using pos len by simp
  moreover have "get_bytes (hf_pos (fdOut st)) (unat (s_size s)) ?out = ?buf" using pos(1) len by (simp add: get_bytes_def)
  ultimately have "holds_section coff ?out (new_segment s st) s"
    using pos coff by (auto simp: holds_section_def new_segment_def intro!: exI [of _ "hf_pos (fdOut st)"])
  then show ?thesis using st' out len pos coff by (intro exI [of _ "?gap @ ?buf"]) simp
qed

lemma seg_inv_new:
  "holds_section coff out seg s \<Longrightarrow> named ns s \<Longrightarrow> s_size s \<noteq> 0 \<Longrightarrow> seg_inv ns coff out (insert s S) seg"
  by (auto simp: seg_inv_def holds_section_def)

text \<open>The literals exclude one another.\<close>

lemma has_name_second: "has_name (c # d # cs) s \<Longrightarrow> s_name s ! 1 = of_nat (of_char d)"
proof -
  assume "has_name (c # d # cs) s"
  then have "take (length cs + 3) (s_name s) ! 1 = of_nat (of_char d)" by (simp add: has_name_def numeral_eq_Suc)
  then show ?thesis by simp
qed

lemma has_name_excl:
  "has_name ''.text'' s \<Longrightarrow> \<not> named [''.data'', ''.rdata''] s"
  "has_name ''.data'' s \<or> has_name ''.rdata'' s \<Longrightarrow> \<not> named [''.text''] s"
  "has_name ''.bss'' s \<or> has_name ''.sbss'' s \<Longrightarrow> \<not> named [''.text''] s \<and> \<not> named [''.data'', ''.rdata''] s"
  by (auto simp: named_def dest!: has_name_second)

lemma convert_section_inv:
  assumes run: "convert_section s st = Inr st'" and inv: "conv_inv coff S st"
  shows "conv_inv coff (insert s S) st' \<and> hf_pos (fdOut st) \<le> hf_pos (fdOut st')"
proof -
  let ?h = "noffH st"
  have pos: "length (hf_bytes (fdOut st)) \<le> hf_pos (fdOut st)" "40 \<le> hf_pos (fdOut st)"
    "hf_bytes (fdIn st) = coff" "of_nat (hf_pos (fdOut st)) = inNoffFile st"
    and segs: "seg_inv [''.text''] coff (hf_bytes (fdOut st)) S (code ?h)"
      "seg_inv [''.data'', ''.rdata''] coff (hf_bytes (fdOut st)) S (initData ?h)" "noffMagic ?h = NOFFMAGIC"
    using inv by (auto simp: conv_inv_def)
  have copy: "conv_inv coff (insert s S) st' \<and> hf_pos (fdOut st) \<le> hf_pos (fdOut st')"
    if c: "copy_section s (st\<lparr>noffH := h\<rparr>) = Inr st'" and magic: "noffMagic h = NOFFMAGIC"
      and new: "\<And>out. (\<exists>r. out = hf_bytes (fdOut st) @ r) \<Longrightarrow> holds_section coff out (new_segment s st) s \<Longrightarrow>
         seg_inv [''.text''] coff out (insert s S) (code h) \<and> seg_inv [''.data'', ''.rdata''] coff out (insert s S) (initData h)" for h
  proof -
    have "new_segment s (st\<lparr>noffH := h\<rparr>) = new_segment s st" by (simp add: new_segment_def)
    with copy_section_inv [OF c, of coff] pos obtain r where
      r: "fdOut st' = \<lparr>hf_bytes = hf_bytes (fdOut st) @ r, hf_pos = hf_pos (fdOut st) + unat (s_size s)\<rparr>"
        "noffH st' = h" "hf_bytes (fdIn st') = coff" "inNoffFile st' = inNoffFile st + s_size s"
        "length (hf_bytes (fdOut st) @ r) = hf_pos (fdOut st) + unat (s_size s)"
        "holds_section coff (hf_bytes (fdOut st) @ r) (new_segment s st) s" by auto
    with new [OF _ r(6)] pos magic show ?thesis by (auto simp: conv_inv_def)
  qed
  consider "s_size s = 0" | "s_size s \<noteq> 0" "has_name ''.text'' s"
    | "s_size s \<noteq> 0" "\<not> has_name ''.text'' s" "has_name ''.data'' s \<or> has_name ''.rdata'' s"
    | "s_size s \<noteq> 0" "\<not> has_name ''.text'' s" "\<not> (has_name ''.data'' s \<or> has_name ''.rdata'' s)" by blast
  then show ?thesis
  proof cases
    case 1
    then show ?thesis using run inv seg_inv_other by (auto simp: convert_section_def conv_inv_def)
  next
    case 2
    then show ?thesis
      using run segs(3) seg_inv_other [OF seg_inv_append [OF segs(2)], of s] has_name_excl(1) [of s]
      by (intro copy [of "?h\<lparr>code := new_segment s st\<rparr>"])
        (auto simp: convert_section_def Let_def named_def intro: seg_inv_new)
  next
    case 3
    then show ?thesis
      using run segs(3) seg_inv_other [OF seg_inv_append [OF segs(1)], of s] has_name_excl(2) [of s]
      by (intro copy [of "?h\<lparr>initData := new_segment s st\<rparr>"])
        (auto simp: convert_section_def Let_def named_def split: if_splits intro: seg_inv_new)
  next
    case 4
    then have "has_name ''.bss'' s \<or> has_name ''.sbss'' s"
      using run by (auto simp: convert_section_def Let_def split: if_splits)
    with 4 run inv show ?thesis
      using seg_inv_other has_name_excl(3) [of s] by (auto simp: convert_section_def conv_inv_def Let_def split: if_splits)
  qed
qed

lemma convert_sections_inv:
  "convert_sections ss st = Inr st' \<Longrightarrow> conv_inv coff S st \<Longrightarrow> conv_inv coff (S \<union> set ss) st'"
proof (induction ss arbitrary: st S)
  case (Cons s ss)
  then obtain st1 where "convert_section s st = Inr st1" "convert_sections ss st1 = Inr st'" by auto
  with Cons show ?case using convert_section_inv [of s st st1 coff S] by fastforce
qed simp

lemma short_at_take [simp]: "i + 1 < n \<Longrightarrow> short_at i (get_bytes 0 n bs) = short_at i bs"
  by (simp add: short_at_def get_bytes_def)

lemma section_headers_take: "section_headers n (take (n * 40) bs) = section_headers n bs"
proof (induction n arbitrary: bs)
  case (Suc n)
  have "bytes_scnhdr (take (40 + n * 40) bs) = bytes_scnhdr bs" by (simp add: bytes_scnhdr_def long_at_def)
  moreover have "drop 40 (take (40 + n * 40) bs) = take (n * 40) (drop 40 bs)" by (simp add: drop_take)
  ultimately show ?case using Suc [of "drop 40 bs"] by simp
qed simp

text \<open>A run of the converter is a run of its loop over the section headers.\<close>

lemma coff2noff_run:
  assumes "coff2noff bigEndian junk coff = Inr out"
  shows "\<exists>st0 st. conv_inv coff {} st0 \<and> convert_sections (coff_sections bigEndian coff) st0 = Inr st
    \<and> out = hf_bytes (WriteFile ((fdOut st)\<lparr>hf_pos := 0\<rparr>) (noff_bytes (noffH st)))"
proof -
  let ?h = "junk\<lparr>noffMagic := NOFFMAGIC, code := (code junk)\<lparr>seg_size := 0\<rparr>, initData := (initData junk)\<lparr>seg_size := 0\<rparr>,
      uninitData := (uninitData junk)\<lparr>seg_size := 0\<rparr>\<rparr>"
  define n where "n = unat (ShortToHost bigEndian (short_at 2 coff))"
  define st0 where "st0 = \<lparr>fdIn = \<lparr>hf_bytes = coff, hf_pos = 76 + n * 40\<rparr>, fdOut = \<lparr>hf_bytes = [], hf_pos = 40\<rparr>, noffH = ?h, inNoffFile = 40\<rparr>"
  have "get_bytes 76 (n * 40) coff = take (n * 40) (drop 76 coff)" by (simp add: get_bytes_def)
  then have "section_headers n (get_bytes 76 (n * 40) coff) = section_headers n (drop 76 coff)"
    by (simp add: section_headers_take)
  with assms have "\<exists>st. convert_sections (coff_sections bigEndian coff) st0 = Inr st
      \<and> out = hf_bytes (WriteFile ((fdOut st)\<lparr>hf_pos := 0\<rparr>) (noff_bytes (noffH st)))"
    by (auto simp: coff2noff_def coff_Read_def coff_sections_def n_def st0_def Let_def split: if_splits)
  moreover have "conv_inv coff {} st0" by (simp add: conv_inv_def st0_def seg_inv_def)
  ultimately show ?thesis by blast
qed

lemma seg_inv_header:
  assumes inv: "seg_inv ns coff out S seg" and len: "length hdr = 40" and pos: "hf_bytes f = out"
  shows "seg_inv ns coff (hf_bytes (WriteFile (f\<lparr>hf_pos := 0\<rparr>) hdr)) S seg"
proof -
  let ?f = "out @ replicate (40 - length out) 0"
  have w: "hf_bytes (WriteFile (f\<lparr>hf_pos := 0\<rparr>) hdr) = put_bytes 0 hdr ?f" using len pos by (simp add: WriteFile_def Let_def)
  have "holds_section coff (put_bytes 0 hdr ?f) seg s" if hold: "holds_section coff ?f seg s" for s
  proof -
    let ?n = "unat (s_size s)"
    obtain p where p: "inFileAddr seg = of_nat p" "40 \<le> p" "p + ?n \<le> length ?f"
      "get_bytes p ?n ?f = get_bytes (unat (s_scnptr s)) ?n coff" using hold by (auto simp: holds_section_def)
    have "get_bytes p ?n (put_bytes 0 hdr ?f) = get_bytes p ?n ?f" using p len by (intro get_put_other) auto
    then show ?thesis using hold p len unfolding holds_section_def by (intro conjI exI [of _ p]) auto
  qed
  with seg_inv_append [OF inv] show ?thesis unfolding w by (rule seg_inv_mono)
qed


subsection \<open>A linked program\<close>

text \<open>
  The COFF file of a program as the linker makes it: code \<open>t\<close> at address 0, data \<open>d\<close> at \<open>v\<close>, and \<open>b\<close> bytes of
  uninitialised data at \<open>w\<close>.
\<close>

definition scn_bytes :: "string \<Rightarrow> 32 word \<Rightarrow> 32 word \<Rightarrow> 32 word \<Rightarrow> 8 word list" where
  "scn_bytes name addr sz ptr = map (\<lambda>c. of_nat (of_char c)) name @ replicate (8 - length name) 0
     @ bytes4 addr @ bytes4 addr @ bytes4 sz @ bytes4 ptr @ replicate 16 0"

definition std_coff :: "8 word list \<Rightarrow> 8 word list \<Rightarrow> 32 word \<Rightarrow> 32 word \<Rightarrow> 32 word \<Rightarrow> 8 word list" where
  "std_coff t d v b w = (bytes2 MIPSELMAGIC @ bytes2 3 @ replicate 16 0) @ (bytes2 OMAGIC @ replicate 54 0)
     @ (scn_bytes ''.text'' 0 (of_nat (length t)) 196 @ scn_bytes ''.data'' v (of_nat (length d)) (196 + of_nat (length t))
        @ scn_bytes ''.bss'' w b 0) @ t @ d"

definition std_noff :: "NoffHeader \<Rightarrow> 8 word list \<Rightarrow> 8 word list \<Rightarrow> 32 word \<Rightarrow> 32 word \<Rightarrow> 32 word \<Rightarrow> NoffHeader" where
  "std_noff junk t d v b w = \<lparr>noffMagic = NOFFMAGIC, code = \<lparr>virtualAddr = 0, inFileAddr = 40, seg_size = of_nat (length t)\<rparr>,
     initData = \<lparr>virtualAddr = v, inFileAddr = 40 + of_nat (length t), seg_size = of_nat (length d)\<rparr>,
     uninitData = (uninitData junk)\<lparr>virtualAddr := (if b = 0 then virtualAddr (uninitData junk) else w), seg_size := b\<rparr>\<rparr>"

lemma coff_Read_exact:
  "length xs = p \<Longrightarrow> length ys = n \<Longrightarrow> coff_Read \<lparr>hf_bytes = xs @ ys @ zs, hf_pos = p\<rparr> n =
     Inr (\<lparr>hf_bytes = xs @ ys @ zs, hf_pos = p + n\<rparr>, ys)"
  by (simp add: coff_Read_def get_bytes_def Let_def)

lemma length_scn_bytes [simp]: "length name \<le> 8 \<Longrightarrow> length (scn_bytes name a z p) = 40"
  by (simp add: scn_bytes_def)

lemma bytes_scnhdr_scn_bytes [simp]:
  assumes "length name \<le> 8"
  shows "bytes_scnhdr (scn_bytes name a z p @ r) =
    \<lparr>s_name = map (\<lambda>c. of_nat (of_char c)) name @ replicate (8 - length name) 0, s_paddr = a, s_size = z, s_scnptr = p\<rparr>"
proof -
  let ?n = "map (\<lambda>c. of_nat (of_char c)) name @ replicate (8 - length name) 0 :: 8 word list"
  have "long_at (length xs) (xs @ bytes4 w @ r) = w" for xs w and r :: "8 word list"
    by (simp add: long_at_def bytes4_def nth_append)
  from this [of ?n a] this [of "?n @ bytes4 a @ bytes4 a" z] this [of "?n @ bytes4 a @ bytes4 a @ bytes4 z" p] assms
  show ?thesis by (simp add: bytes_scnhdr_def scn_bytes_def)
qed

lemma std_coff_sections:
  "section_headers 3 (scn_bytes n1 a1 z1 p1 @ scn_bytes n2 a2 z2 p2 @ scn_bytes n3 a3 z3 p3) =
     [bytes_scnhdr (scn_bytes n1 a1 z1 p1), bytes_scnhdr (scn_bytes n2 a2 z2 p2), bytes_scnhdr (scn_bytes n3 a3 z3 p3)]"
  if "length n1 \<le> 8" "length n2 \<le> 8" "length n3 \<le> 8"
  using that bytes_scnhdr_scn_bytes [of n3 a3 z3 p3 "[]"] bytes_scnhdr_scn_bytes [of n2 a2 z2 p2 "[]"]
    bytes_scnhdr_scn_bytes [of n1 a1 z1 p1 "[]"]
  by (simp add: numeral_3_eq_3)

lemma copy_section_std:
  assumes "s_scnptr s = of_nat (length xs)" "s_size s = of_nat (length ys)" "length xs + length ys < 2 ^ 32"
    "fdOut st = \<lparr>hf_bytes = o1, hf_pos = p\<rparr>" "length o1 \<le> p" "hf_bytes (fdIn st) = xs @ ys @ zs"
  shows "copy_section s st = Inr (st\<lparr>fdIn := \<lparr>hf_bytes = xs @ ys @ zs, hf_pos = length xs + length ys\<rparr>,
      fdOut := \<lparr>hf_bytes = o1 @ replicate (p - length o1) 0 @ ys, hf_pos = p + length ys\<rparr>,
      inNoffFile := inNoffFile st + of_nat (length ys)\<rparr>)"
proof -
  have u: "unat (of_nat (length xs) :: 32 word) = length xs" "unat (of_nat (length ys) :: 32 word) = length ys"
    using assms(3) by (simp_all add: unat_of_nat)
  have "(fdIn st)\<lparr>hf_pos := length xs\<rparr> = \<lparr>hf_bytes = xs @ ys @ zs, hf_pos = length xs\<rparr>"
    using assms(6) by (cases "fdIn st") simp
  with coff_Read_exact [of xs "length xs" ys "length ys" zs]
  have rd: "coff_Read ((fdIn st)\<lparr>hf_pos := length xs\<rparr>) (length ys) =
      Inr (\<lparr>hf_bytes = xs @ ys @ zs, hf_pos = length xs + length ys\<rparr>, ys)" by (simp only:)
  show ?thesis
    using WriteFile_append [of "fdOut st" ys] assms(4,5) by (simp add: copy_section_def assms(1,2) u rd)
qed

lemma of_nat_32_nonzero: "0 < n \<Longrightarrow> n < 2 ^ 32 \<Longrightarrow> (of_nat n :: 32 word) \<noteq> 0"
proof -
  assume "0 < n" "n < 2 ^ 32"
  then have "unat (of_nat n :: 32 word) \<noteq> 0" by (simp add: unat_of_nat)
  then show ?thesis by auto
qed

abbreviation std_name :: "string \<Rightarrow> 8 word list" where
  "std_name name \<equiv> map (\<lambda>c. of_nat (of_char c)) name @ replicate (8 - length name) 0"

lemma std_names:
  "has_name ''.text'' \<lparr>s_name = std_name ''.text'', s_paddr = a, s_size = z, s_scnptr = p\<rparr>"
  "has_name ''.data'' \<lparr>s_name = std_name ''.data'', s_paddr = a, s_size = z, s_scnptr = p\<rparr>"
  "\<not> has_name ''.text'' \<lparr>s_name = std_name ''.data'', s_paddr = a, s_size = z, s_scnptr = p\<rparr>"
  "has_name ''.bss'' \<lparr>s_name = std_name ''.bss'', s_paddr = a, s_size = z, s_scnptr = p\<rparr>"
  "\<not> has_name ''.text'' \<lparr>s_name = std_name ''.bss'', s_paddr = a, s_size = z, s_scnptr = p\<rparr>"
  "\<not> has_name ''.data'' \<lparr>s_name = std_name ''.bss'', s_paddr = a, s_size = z, s_scnptr = p\<rparr>"
  "\<not> has_name ''.rdata'' \<lparr>s_name = std_name ''.bss'', s_paddr = a, s_size = z, s_scnptr = p\<rparr>"
  by (simp_all add: has_name_def)

text \<open>The loop over the three sections.\<close>

lemma std_sections_converted:
  assumes hds: "length hds = 196" and len: "t \<noteq> []" "d \<noteq> []" "length t + length d + 196 < 2 ^ 32"
    and h0: "seg_size (initData h0) = 0" "seg_size (uninitData h0) = 0"
  shows "\<exists>st. convert_sections
      [\<lparr>s_name = std_name ''.text'', s_paddr = 0, s_size = of_nat (length t), s_scnptr = 196\<rparr>,
       \<lparr>s_name = std_name ''.data'', s_paddr = v, s_size = of_nat (length d), s_scnptr = 196 + of_nat (length t)\<rparr>,
       \<lparr>s_name = std_name ''.bss'', s_paddr = w, s_size = b, s_scnptr = 0\<rparr>]
      \<lparr>fdIn = \<lparr>hf_bytes = hds @ t @ d, hf_pos = 196\<rparr>, fdOut = \<lparr>hf_bytes = [], hf_pos = 40\<rparr>, noffH = h0, inNoffFile = 40\<rparr> = Inr st
    \<and> hf_bytes (fdOut st) = replicate 40 0 @ t @ d
    \<and> noffH st = h0\<lparr>code := \<lparr>virtualAddr = 0, inFileAddr = 40, seg_size = of_nat (length t)\<rparr>,
        initData := \<lparr>virtualAddr = v, inFileAddr = 40 + of_nat (length t), seg_size = of_nat (length d)\<rparr>,
        uninitData := (if b = 0 then uninitData h0 else (uninitData h0)\<lparr>virtualAddr := w, seg_size := b\<rparr>)\<rparr>"
proof -
  let ?lt = "of_nat (length t) :: 32 word" and ?ld = "of_nat (length d) :: 32 word"
  have nz: "?lt \<noteq> 0" "?ld \<noteq> 0" using len by (simp_all add: of_nat_32_nonzero)
  let ?h1 = "h0\<lparr>code := \<lparr>virtualAddr = 0, inFileAddr = 40, seg_size = ?lt\<rparr>\<rparr>"
  let ?h2 = "?h1\<lparr>initData := \<lparr>virtualAddr = v, inFileAddr = 40 + ?lt, seg_size = ?ld\<rparr>\<rparr>"
  let ?st1 = "\<lparr>fdIn = \<lparr>hf_bytes = hds @ t @ d, hf_pos = 196 + length t\<rparr>,
    fdOut = \<lparr>hf_bytes = replicate 40 0 @ t, hf_pos = 40 + length t\<rparr>, noffH = ?h1, inNoffFile = 40 + ?lt\<rparr>"
  let ?st2 = "\<lparr>fdIn = \<lparr>hf_bytes = hds @ t @ d, hf_pos = 196 + length t + length d\<rparr>,
    fdOut = \<lparr>hf_bytes = replicate 40 0 @ t @ d, hf_pos = 40 + length t + length d\<rparr>, noffH = ?h2, inNoffFile = 40 + ?lt + ?ld\<rparr>"
  have 1: "convert_section \<lparr>s_name = std_name ''.text'', s_paddr = 0, s_size = ?lt, s_scnptr = 196\<rparr>
      \<lparr>fdIn = \<lparr>hf_bytes = hds @ t @ d, hf_pos = 196\<rparr>, fdOut = \<lparr>hf_bytes = [], hf_pos = 40\<rparr>, noffH = h0, inNoffFile = 40\<rparr> = Inr ?st1"
    using nz hds len std_names(1) by (simp add: convert_section_def new_segment_def copy_section_std [where xs = hds and ys = t and zs = d])
  have 2: "convert_section \<lparr>s_name = std_name ''.data'', s_paddr = v, s_size = ?ld, s_scnptr = 196 + ?lt\<rparr> ?st1 = Inr ?st2"
    using nz hds len h0 std_names(2,3)
    by (simp add: convert_section_def new_segment_def copy_section_std [where xs = "hds @ t" and ys = d and zs = "[]"])
  have 3: "convert_section \<lparr>s_name = std_name ''.bss'', s_paddr = w, s_size = b, s_scnptr = 0\<rparr> ?st2 =
      Inr (?st2\<lparr>noffH := ?h2\<lparr>uninitData := (if b = 0 then uninitData h0 else (uninitData h0)\<lparr>virtualAddr := w, seg_size := b\<rparr>)\<rparr>\<rparr>)"
    using h0 std_names(4-7) by (simp add: convert_section_def Let_def)
  show ?thesis using 1 2 3 by simp
qed

lemma std_coff_converts:
  assumes len: "t \<noteq> []" "d \<noteq> []" "length t + length d + 196 < 2 ^ 32"
  shows "coff2noff False junk (std_coff t d v b w) = Inr (noff_bytes (std_noff junk t d v b w) @ t @ d)"
proof -
  let ?h = "junk\<lparr>noffMagic := NOFFMAGIC, code := (code junk)\<lparr>seg_size := 0\<rparr>, initData := (initData junk)\<lparr>seg_size := 0\<rparr>,
      uninitData := (uninitData junk)\<lparr>seg_size := 0\<rparr>\<rparr>"
  let ?fh = "bytes2 MIPSELMAGIC @ bytes2 3 @ replicate 16 0" and ?sh = "bytes2 OMAGIC @ replicate 54 0"
  let ?lt = "of_nat (length t) :: 32 word" and ?ld = "of_nat (length d) :: 32 word"
  let ?ss = "scn_bytes ''.text'' 0 ?lt 196 @ scn_bytes ''.data'' v ?ld (196 + ?lt) @ scn_bytes ''.bss'' w b 0"
  let ?coff = "?fh @ ?sh @ ?ss @ t @ d"
  have coff: "std_coff t d v b w = ?coff" by (simp add: std_coff_def)
  have rd1: "coff_Read \<lparr>hf_bytes = ?coff, hf_pos = 0\<rparr> 20 = Inr (\<lparr>hf_bytes = ?coff, hf_pos = 20\<rparr>, ?fh)"
    using coff_Read_exact [of "[]" 0 ?fh 20] by simp
  have rd2: "coff_Read \<lparr>hf_bytes = ?coff, hf_pos = 20\<rparr> 56 = Inr (\<lparr>hf_bytes = ?coff, hf_pos = 76\<rparr>, ?sh)"
    using coff_Read_exact [of ?fh 20 ?sh 56] by simp
  have rd3: "coff_Read \<lparr>hf_bytes = ?coff, hf_pos = 76\<rparr> 120 = Inr (\<lparr>hf_bytes = ?coff, hf_pos = 196\<rparr>, ?ss)"
    using coff_Read_exact [of "?fh @ ?sh" 76 ?ss 120] by simp
  have sh: "short_at 0 ?fh = MIPSELMAGIC" "short_at 2 ?fh = 3" "short_at 0 ?sh = OMAGIC"
    by (simp_all add: short_at_def bytes2_def word2_def)
  have ss: "map (swap_section False) (section_headers 3 ?ss) =
      [\<lparr>s_name = std_name ''.text'', s_paddr = 0, s_size = ?lt, s_scnptr = 196\<rparr>,
       \<lparr>s_name = std_name ''.data'', s_paddr = v, s_size = ?ld, s_scnptr = 196 + ?lt\<rparr>,
       \<lparr>s_name = std_name ''.bss'', s_paddr = w, s_size = b, s_scnptr = 0\<rparr>]"
    using bytes_scnhdr_scn_bytes [of "''.text''" _ _ _ "[]"] bytes_scnhdr_scn_bytes [of "''.data''" _ _ _ "[]"]
      bytes_scnhdr_scn_bytes [of "''.bss''" _ _ _ "[]"]
    by (simp add: std_coff_sections swap_section_def WordToHost_def)
  have "\<exists>st. convert_sections (map (swap_section False) (section_headers 3 ?ss))
      \<lparr>fdIn = \<lparr>hf_bytes = ?coff, hf_pos = 196\<rparr>, fdOut = \<lparr>hf_bytes = [], hf_pos = 40\<rparr>, noffH = ?h, inNoffFile = 40\<rparr> = Inr st
    \<and> hf_bytes (fdOut st) = replicate 40 0 @ t @ d \<and> noffH st = std_noff junk t d v b w"
    using std_sections_converted [of "?fh @ ?sh @ ?ss" t d ?h v w b] len unfolding ss by (auto simp: std_noff_def)
  then obtain st where st: "convert_sections (map (swap_section False) (section_headers 3 ?ss))
      \<lparr>fdIn = \<lparr>hf_bytes = ?coff, hf_pos = 196\<rparr>, fdOut = \<lparr>hf_bytes = [], hf_pos = 40\<rparr>, noffH = ?h, inNoffFile = 40\<rparr> = Inr st"
    "hf_bytes (fdOut st) = replicate 40 0 @ t @ d" "noffH st = std_noff junk t d v b w" by blast
  show ?thesis
    unfolding coff coff2noff_def
    by (simp add: rd1 rd2 rd3 sh st ShortToHost_def Let_def WriteFile_def put_bytes_0 del: append_assoc)
qed

definition example_noff :: NoffHeader where
  "example_noff = \<lparr>noffMagic = 9, code = \<lparr>virtualAddr = 9, inFileAddr = 9, seg_size = 9\<rparr>,
     initData = \<lparr>virtualAddr = 9, inFileAddr = 9, seg_size = 9\<rparr>, uninitData = \<lparr>virtualAddr = 9, inFileAddr = 9, seg_size = 9\<rparr>\<rparr>"


text \<open>Two parts of uninitialised data are rejected when they are contiguous, and only then.\<close>

lemma bss_and_sbss:
  assumes "s_size s \<noteq> 0" "has_name ''.sbss'' s" "\<not> named [''.text'', ''.data'', ''.rdata''] s" "seg_size (uninitData (noffH st)) \<noteq> 0"
  shows "convert_section s st = Inl BssAndSbss \<longleftrightarrow>
    s_paddr s = virtualAddr (uninitData (noffH st)) + seg_size (uninitData (noffH st))"
  using assms by (auto simp: convert_section_def named_def Let_def)

end
