(* ===== verification/Nachos_Program.thy ===== *)
theory Nachos_Program
  imports Nachos_Coff Nachos_Exception
begin

text \<open>
  Loading and starting a user program: the host-file versions of \<^verbatim>\<open>FileSystem\<close> and \<^verbatim>\<open>OpenFile\<close> that
  \<^verbatim>\<open>filesys/filesys.h\<close> and \<^verbatim>\<open>filesys/openfile.h\<close> define for the \<^verbatim>\<open>userprog\<close> build (\<^verbatim>\<open>FILESYS_STUB\<close>), the
  constructor of \<^verbatim>\<open>userprog/addrspace.cc\<close>, and \<^verbatim>\<open>StartProcess\<close> of \<^verbatim>\<open>userprog/progtest.cc\<close>.  The lemmas say what
  the file \<^verbatim>\<open>VirtualMemory\<close> holds after loading and what the program finds in memory through page faults.
\<close>

subsection \<open>Files of the host\<close>

type_synonym hostfs = "string \<rightharpoonup> 8 word list"

record stub_file =
  sf_name :: string
  currentOffset :: nat

definition OpenForWrite :: "string \<Rightarrow> hostfs \<Rightarrow> hostfs" where
  "OpenForWrite name fs = fs(name \<mapsto> [])"

definition OpenForReadWrite :: "string \<Rightarrow> hostfs \<Rightarrow> string option" where
  "OpenForReadWrite name fs = (if fs name = None then None else Some name)"

definition Unlink :: "string \<Rightarrow> hostfs \<Rightarrow> hostfs \<times> bool" where
  "Unlink name fs = (fs(name := None), fs name = None)"

definition Stub_Create :: "string \<Rightarrow> nat \<Rightarrow> hostfs \<Rightarrow> hostfs \<times> bool" where
  "Stub_Create name initialSize fs = (OpenForWrite name fs, True)"

definition Stub_Open :: "string \<Rightarrow> hostfs \<Rightarrow> stub_file option" where
  "Stub_Open name fs = map_option (\<lambda>fd. \<lparr>sf_name = fd, currentOffset = 0\<rparr>) (OpenForReadWrite name fs)"

definition Stub_Remove :: "string \<Rightarrow> hostfs \<Rightarrow> hostfs \<times> bool" where
  "Stub_Remove name fs = (case Unlink name fs of (fs, err) \<Rightarrow> (fs, \<not> err))"

definition contents :: "stub_file \<Rightarrow> hostfs \<Rightarrow> 8 word list" where
  "contents f fs = (case fs (sf_name f) of None \<Rightarrow> [] | Some bs \<Rightarrow> bs)"

definition Stub_ReadAt :: "nat \<Rightarrow> int \<Rightarrow> stub_file \<Rightarrow> hostfs \<Rightarrow> 8 word list result" where
  "Stub_ReadAt numBytes position f fs =
     rbind (Lseek \<lparr>hf_bytes = contents f fs, hf_pos = 0\<rparr> position) (\<lambda>h. Inr (get_bytes (hf_pos h) numBytes (hf_bytes h)))"

definition Stub_WriteAt :: "8 word list \<Rightarrow> int \<Rightarrow> stub_file \<Rightarrow> hostfs \<Rightarrow> (hostfs \<times> nat) result" where
  "Stub_WriteAt bytes position f fs =
     rbind (Lseek \<lparr>hf_bytes = contents f fs, hf_pos = 0\<rparr> position) (\<lambda>h.
       Inr (fs(sf_name f \<mapsto> hf_bytes (WriteFile h bytes)), length bytes))"

definition Stub_Read :: "nat \<Rightarrow> stub_file \<Rightarrow> hostfs \<Rightarrow> (stub_file \<times> 8 word list) result" where
  "Stub_Read numBytes f fs =
     rbind (Stub_ReadAt numBytes (int (currentOffset f)) f fs) (\<lambda>bs.
       Inr (f\<lparr>currentOffset := currentOffset f + length bs\<rparr>, bs))"

definition Stub_Write :: "8 word list \<Rightarrow> stub_file \<Rightarrow> hostfs \<Rightarrow> (stub_file \<times> hostfs \<times> nat) result" where
  "Stub_Write bytes f fs =
     rbind (Stub_WriteAt bytes (int (currentOffset f)) f fs) (\<lambda>(fs, n).
       Inr (f\<lparr>currentOffset := currentOffset f + n\<rparr>, fs, n))"

definition Stub_Length :: "stub_file \<Rightarrow> hostfs \<Rightarrow> nat" where
  "Stub_Length f fs = length (contents f fs)"

subsection \<open>The address space\<close>

definition swap_segment :: "bool \<Rightarrow> Segment \<Rightarrow> Segment" where
  "swap_segment bigEndian s = s\<lparr>seg_size := WordToHost bigEndian (seg_size s), virtualAddr := WordToHost bigEndian (virtualAddr s),
     inFileAddr := WordToHost bigEndian (inFileAddr s)\<rparr>"

definition SwapHeader :: "bool \<Rightarrow> NoffHeader \<Rightarrow> NoffHeader" where
  "SwapHeader bigEndian h = h\<lparr>noffMagic := WordToHost bigEndian (noffMagic h), code := swap_segment bigEndian (code h),
     initData := swap_segment bigEndian (initData h), uninitData := swap_segment bigEndian (uninitData h)\<rparr>"

abbreviation (input) UserStackSize :: "32 word" where "UserStackSize \<equiv> 1024"

text \<open>\<^verbatim>\<open>divRoundUp\<close> on the unsigned \<^verbatim>\<open>size\<close>.\<close>

definition pages_for :: "32 word \<Rightarrow> 32 word" where
  "pages_for sz = sz div 128 + (if sz mod 128 > 0 then 1 else 0)"

text \<open>
  The copy of a segment: from the executable into the buffer at the segment's address, and from there into
  \<^verbatim>\<open>VirtualMemory\<close> at that address times the page size.
\<close>

definition load_segment :: "stub_file \<Rightarrow> stub_file \<Rightarrow> Segment \<Rightarrow> 8 word list \<times> hostfs \<Rightarrow> (8 word list \<times> hostfs) result" where
  "load_segment executable vm seg = (\<lambda>(temp, fs).
     if \<not> sint (seg_size seg) > 0 then Inr (temp, fs)
     else
       let n = unat (seg_size seg); a = unat (virtualAddr seg) in
       rbind (Stub_ReadAt n (sint (inFileAddr seg)) executable fs) (\<lambda>bs.
       if \<not> a + n \<le> length temp then Inl OutOfBounds
       else
         let temp = put_bytes a bs temp in
         rbind (Stub_WriteAt (get_bytes a n temp) (sint (virtualAddr seg * 128)) vm fs) (\<lambda>(fs, _). Inr (temp, fs))))"

text \<open>\<open>stack\<close> is what the local header holds before it is read.  The result is the number of pages.\<close>

definition AddrSpace_AddrSpace :: "bool \<Rightarrow> 8 word list \<Rightarrow> stub_file \<Rightarrow> hostfs \<Rightarrow> (hostfs \<times> 32 word) result" where
  "AddrSpace_AddrSpace bigEndian stack executable fs =
     rbind (Stub_ReadAt 40 0 executable fs) (\<lambda>bs.
     let h = bytes_noff (put_bytes 0 bs stack);
         h = (if noffMagic h \<noteq> NOFFMAGIC \<and> WordToHost bigEndian (noffMagic h) = NOFFMAGIC then SwapHeader bigEndian h else h) in
     ASSERT (noffMagic h = NOFFMAGIC)
       (let sz = seg_size (code h) + seg_size (initData h) + seg_size (uninitData h) + UserStackSize;
            numPages = pages_for sz;
            sz = numPages * 128;
            (fs, _) = Stub_Create ''VirtualMemory'' (unat sz) fs in
        case Stub_Open ''VirtualMemory'' fs of
          None \<Rightarrow> Inl NullDeref
        | Some vm \<Rightarrow>
            rbind (load_segment executable vm (code h) (replicate (unat sz) 0, fs)) (\<lambda>st.
            rbind (load_segment executable vm (initData h) st) (\<lambda>(_, fs). Inr (fs, numPages)))))"

text \<open>The file \<^verbatim>\<open>VirtualMemory\<close> as the page fault handler opens it.\<close>

definition open_virtual_memory :: "hostfs \<Rightarrow> open_vm" where
  "open_virtual_memory fs = map_option (\<lambda>f n p. Stub_ReadAt n (int p) f fs) (Stub_Open ''VirtualMemory'' fs)"

text \<open>\<open>n\<close> instructions of the program are run; \<^const>\<open>None\<close> if the file cannot be opened.\<close>

definition StartProcess :: "bool \<Rightarrow> 8 word list \<Rightarrow> int \<Rightarrow> nat \<Rightarrow> string \<Rightarrow> machine \<times> hostfs \<Rightarrow> machine option result" where
  "StartProcess bigEndian stack pid n filename = (\<lambda>(m, fs).
     case Stub_Open filename fs of
       None \<Rightarrow> Inr None
     | Some executable \<Rightarrow>
         rbind (AddrSpace_AddrSpace bigEndian stack executable fs) (\<lambda>(fs, numPages).
         rbind (AddrSpace_InitRegisters (unat numPages) m) (\<lambda>m.
         rbind (Machine_Run (ExceptionHandler pid (open_virtual_memory fs)) pid n (AddrSpace_RestoreState m)) (\<lambda>m. Inr (Some m)))))"

subsection \<open>Loading a linked program\<close>

text \<open>
  The segments of a linked program: code from address 0, data behind it and inside the address space, and all of it
  small enough for the file offsets.
\<close>

definition program_ok :: "8 word list \<Rightarrow> 8 word list \<Rightarrow> 32 word \<Rightarrow> 32 word \<Rightarrow> bool" where
  "program_ok t d v b \<longleftrightarrow> t \<noteq> [] \<and> d \<noteq> [] \<and> length t \<le> unat v \<and> unat v \<le> length t + unat b + 1024
     \<and> 128 * unat v < 2 ^ 31 \<and> length t + length d + unat b + 1280 < 2 ^ 31"

definition program_pages :: "8 word list \<Rightarrow> 8 word list \<Rightarrow> 32 word \<Rightarrow> 32 word" where
  "program_pages t d b = pages_for (of_nat (length t) + of_nat (length d) + b + UserStackSize)"

lemma unat_of_nat_31: "n < 2 ^ 31 \<Longrightarrow> unat (of_nat n :: 32 word) = n"
  by (simp add: unat_of_nat)

lemma sint_unat_31: "unat w < 2 ^ 31 \<Longrightarrow> sint w = int (unat w)" for w :: "32 word"
proof -
  assume "unat w < 2 ^ 31"
  then have "nat (uint w) < 2147483648" by simp
  then have "uint w < 2147483648" by linarith
  then have "sint (of_int (uint w) :: 32 word) = uint w" by (intro sint_of_int) (simp add: fits32_def order_trans [OF _ uint_ge_0])
  then show ?thesis by simp
qed

lemma round_up_128:
  "n div 128 + (if n mod 128 > 0 then 1 else 0) = (n + 127) div (128::nat)"
  "n \<le> (n + 127) div 128 * 128" "(n + 127) div 128 * 128 \<le> n + 127" "n div 128 + 1 \<le> n + (1::nat)"
proof -
  define q r where "q = n div 128" and "r = n mod 128"
  have n: "n = 128 * q + r" "r < 128" by (simp_all add: q_def r_def)
  have "(128 * q + r + 127) div 128 = q + (r + 127) div 128" by simp
  also have "(r + 127) div 128 = (if r > 0 then 1 else 0)"
    using n(2) by (cases "r = 0") (auto intro: div_nat_eqI)
  finally have e: "(n + 127) div 128 = q + (if r > 0 then 1 else 0)" by (simp only: n)
  then show "n div 128 + (if n mod 128 > 0 then 1 else 0) = (n + 127) div (128::nat)" by (simp only: q_def r_def)
  show "n \<le> (n + 127) div 128 * 128" "(n + 127) div 128 * 128 \<le> n + 127" using n unfolding e by auto
  show "n div 128 + 1 \<le> n + (1::nat)" by simp
qed

lemma program_size:
  assumes "program_ok t d v b"
  shows "unat v + length d \<le> unat (program_pages t d b * 128)"
    and "unat (program_pages t d b) = (length t + length d + unat b + 1024 + 127) div 128"
proof -
  let ?sz = "of_nat (length t) + of_nat (length d) + b + UserStackSize"
  define n where "n = length t + length d + unat b + 1024"
  have n: "n + 256 < 2147483648" using assms by (simp add: program_ok_def n_def)
  have "?sz = of_nat n" by (simp add: n_def)
  then have sz: "unat ?sz = n" using n by (simp only:) (rule unat_of_nat_31, simp)
  have q: "unat (?sz div 128) = n div 128" "unat (?sz mod 128) = n mod 128" using sz by (simp_all add: unat_div unat_mod)
  then have "?sz mod 128 > 0 \<longleftrightarrow> n mod 128 > 0" by (simp add: word_less_nat_alt)
  moreover have "n div 128 + 1 < 2147483648" using n round_up_128(4) [of n] by linarith
  ultimately have "unat (pages_for ?sz) = n div 128 + (if n mod 128 > 0 then 1 else 0)"
    using q(1) by (simp add: pages_for_def unat_word_ariths)
  then have pages: "unat (program_pages t d b) = (n + 127) div 128" by (simp only: round_up_128(1) program_pages_def)
  then show "unat (program_pages t d b) = (length t + length d + unat b + 1024 + 127) div 128" by (simp only: n_def)
  have "(n + 127) div 128 * 128 < 4294967296" using n round_up_128(3) [of n] by linarith
  then have "unat (program_pages t d b * 128) = (n + 127) div 128 * 128" using pages by (simp add: unat_word_ariths)
  moreover have "unat v + length d \<le> n" using assms by (simp add: program_ok_def n_def)
  ultimately show "unat v + length d \<le> unat (program_pages t d b * 128)" using round_up_128(2) [of n] by linarith
qed

lemma load_segment_ok:
  assumes seg: "0 < unat (seg_size seg)" "unat (seg_size seg) < 2 ^ 31" "unat (inFileAddr seg) < 2 ^ 31" "128 * unat (virtualAddr seg) < 2 ^ 31"
    and exe: "get_bytes (unat (inFileAddr seg)) (unat (seg_size seg)) (contents executable fs) = bs" "length bs = unat (seg_size seg)"
    and fits: "unat (virtualAddr seg) + unat (seg_size seg) \<le> length temp"
    and vm: "contents vm fs = old" "length old \<le> 128 * unat (virtualAddr seg)"
  shows "load_segment executable vm seg (temp, fs) = Inr (put_bytes (unat (virtualAddr seg)) bs temp,
    fs(sf_name vm \<mapsto> old @ replicate (128 * unat (virtualAddr seg) - length old) 0 @ bs))"
proof -
  let ?a = "unat (virtualAddr seg)" and ?n = "unat (seg_size seg)"
  have a: "unat (virtualAddr seg * 128) = 128 * ?a" using seg(4) by (simp add: unat_word_ariths)
  then have pos: "sint (virtualAddr seg * 128) = int (128 * ?a)" using seg(4) sint_unat_31 [of "virtualAddr seg * 128"] by simp
  have "\<not> \<not> sint (seg_size seg) > 0" using seg(1) unfolding sint_unat_31 [OF seg(2)] by linarith
  moreover have "Stub_ReadAt ?n (sint (inFileAddr seg)) executable fs = Inr bs"
    using exe seg(3) sint_unat_31 [of "inFileAddr seg"] by (simp add: Stub_ReadAt_def Lseek_def)
  moreover have "get_bytes ?a ?n (put_bytes ?a bs temp) = bs" using fits exe(2) get_put_same [of ?a bs temp] by simp
  moreover have "Stub_WriteAt bs (sint (virtualAddr seg * 128)) vm fs =
      Inr (fs(sf_name vm \<mapsto> old @ replicate (128 * ?a - length old) 0 @ bs), length bs)"
    using WriteFile_append [of "\<lparr>hf_bytes = old, hf_pos = 128 * ?a\<rparr>" bs] vm
    by (simp add: Stub_WriteAt_def Lseek_def pos nat_mult_distrib)
  ultimately show ?thesis using fits by (simp add: load_segment_def Let_def)
qed

text \<open>What \<^verbatim>\<open>VirtualMemory\<close> holds: the code, zeros, and the data at 128 times its address.\<close>

definition vm_image :: "8 word list \<Rightarrow> 8 word list \<Rightarrow> 32 word \<Rightarrow> 8 word list" where
  "vm_image t d v = t @ replicate (128 * unat v - length t) 0 @ d"

lemma AddrSpace_std:
  assumes ok: "program_ok t d v b" and exe: "fs name = Some (noff_bytes (std_noff junk t d v b w) @ t @ d)"
    and name: "name \<noteq> ''VirtualMemory''" and stack: "length stack = 40"
  shows "AddrSpace_AddrSpace False stack \<lparr>sf_name = name, currentOffset = 0\<rparr> fs =
    Inr (fs(''VirtualMemory'' \<mapsto> vm_image t d v), program_pages t d b)"
proof -
  let ?h = "std_noff junk t d v b w" and ?exe = "\<lparr>sf_name = name, currentOffset = 0\<rparr>" and ?vm = "\<lparr>sf_name = ''VirtualMemory'', currentOffset = 0\<rparr>"
  let ?image = "noff_bytes ?h @ t @ d" and ?fs = "fs(''VirtualMemory'' \<mapsto> [])"
  have len: "t \<noteq> []" "d \<noteq> []" "length t < 2 ^ 31" "length d < 2 ^ 31" "length t \<le> unat v" "128 * unat v < 2 ^ 31"
    "length t + 40 < 2 ^ 31" using ok by (auto simp: program_ok_def)
  have u: "unat (of_nat (length t) :: 32 word) = length t" "unat (of_nat (length d) :: 32 word) = length d"
    "unat (40 + of_nat (length t) :: 32 word) = 40 + length t"
    using len unat_of_nat_31 [of "40 + length t"] by (simp_all add: unat_of_nat_31)
  have c: "contents ?exe fs' = ?image" if "fs' name = fs name" for fs' using exe that by (simp add: contents_def)
  let ?temp = "replicate (unat (program_pages t d b * 128)) (0 :: 8 word)"
  have room: "unat v + length d \<le> length ?temp" using program_size(1) [OF ok] by simp
  have "get_bytes 40 (length t) ?image = t" "get_bytes (40 + length t) (length d) ?image = d" by (simp_all add: get_bytes_def)
  note bytes = this
  have 1: "load_segment ?exe ?vm (code ?h) (?temp, ?fs) = Inr (put_bytes 0 t ?temp, fs(''VirtualMemory'' \<mapsto> t))"
    using len u bytes room c [of ?fs] name
    by (subst load_segment_ok [where bs = t and old = "[]"]) (simp_all add: std_noff_def contents_def)
  have 2: "load_segment ?exe ?vm (initData ?h) (put_bytes 0 t ?temp, fs(''VirtualMemory'' \<mapsto> t)) =
      Inr (put_bytes (unat v) d (put_bytes 0 t ?temp), fs(''VirtualMemory'' \<mapsto> vm_image t d v))"
    using len u bytes room c [of "fs(''VirtualMemory'' \<mapsto> t)"] name
    by (subst load_segment_ok [where bs = d and old = t]) (simp_all add: std_noff_def contents_def vm_image_def)
  have hdr: "Stub_ReadAt 40 0 ?exe fs = Inr (noff_bytes ?h)"
    using c [of fs] by (simp add: Stub_ReadAt_def Lseek_def get_bytes_def)
  have "put_bytes 0 (noff_bytes ?h) stack = noff_bytes ?h" using stack by (simp add: put_bytes_0)
  then have h: "bytes_noff (put_bytes 0 (noff_bytes ?h) stack) = ?h" using bytes_noff_append [of ?h "[]"] by simp
  have pages: "pages_for (seg_size (code ?h) + seg_size (initData ?h) + seg_size (uninitData ?h) + 1024) = program_pages t d b"
    by (simp add: std_noff_def program_pages_def)
  have magic: "noffMagic ?h = NOFFMAGIC" by (simp add: std_noff_def)
  have opn: "Stub_Create ''VirtualMemory'' k fs = (?fs, True)" "Stub_Open ''VirtualMemory'' ?fs = Some ?vm" for k
    by (simp_all add: Stub_Create_def OpenForWrite_def Stub_Open_def OpenForReadWrite_def)
  show ?thesis
    unfolding AddrSpace_AddrSpace_def hdr rbind.simps h Let_def
    by (simp add: magic pages opn 1 2)
qed

subsection \<open>What the program finds in memory\<close>

lemma open_virtual_memory_bytes: "fs ''VirtualMemory'' = Some bs \<Longrightarrow> open_virtual_memory fs = vm_bytes bs"
  by (auto simp: open_virtual_memory_def Stub_Open_def OpenForReadWrite_def vm_bytes_def Stub_ReadAt_def contents_def
      Lseek_def get_bytes_def)

text \<open>An aligned read of an unmapped page faults, is retried, and returns the word at that address of the file.\<close>

lemma read_through_fault:
  assumes sim: "sim_ok m" and pt: "pageTable m = Some pt" and fresh: "\<forall>j. \<not> entry_for pt pid (va div 128) j"
    and free: "bits_of (MemoryMap m) \<noteq> {0..<32}" and al: "aligned va 4" and len: "unat va + 4 \<le> length bs"
  shows "\<exists>m'. Machine_ReadMem (ExceptionHandler pid (vm_bytes bs)) pid va 4 m =
     Inr (m', Some (word4 (bs ! unat va) (bs ! (unat va + 1)) (bs ! (unat va + 2)) (bs ! (unat va + 3))))"
proof -
  have ok: "machine_ok m" using sim by (simp add: sim_ok_def half_ok_def)
  have miss: "Machine_Translate pid va 4 False m = Inr (m, Inl PageFaultException)"
    by (rule Translate_miss [OF ok pt fresh al])
  let ?h = "ExceptionHandler pid (vm_bytes bs)" and ?off = "unat va mod 128"
  have half: "half_ok (set_reg BadVAddrReg va m)" using sim by (simp add: sim_ok_def)
  then obtain m1 where m1: "Machine_DelayedLoad 0 0 (set_reg BadVAddrReg va m) = Inr m1" "sim_ok m1"
    using DelayedLoad_ok [of "set_reg BadVAddrReg va m" 0 0] by auto
  define m2 where "m2 = setStatus SystemMode m1"
  have m2: "pageTable m2 = Some pt" "registers m2 BadVAddrReg = va" "mainMemory m2 = mainMemory m"
    "MemoryMap m2 = MemoryMap m" "machine_ok m2" "tlb m2 = None"
    using DelayedLoad_keeps [OF half m1(1)] m1(2) pt
    by (auto simp: m2_def setStatus_def set_reg_def sim_ok_def half_ok_def machine_ok_def)
  define f where "f = nat (Min ({0..<32} - bits_of (MemoryMap m2)))"
  define page where "page = take 128 (drop (unat (va div 128) * 128) bs)"
  obtain m3 pt3 where m3: "page_fault pid (vm_bytes bs) m2 = Inr m3" "machine_ok m3"
      "mainMemory m3 = put_bytes (f * 128) page (mainMemory m2)" "f < 32" "pageTable m3 = Some pt3" "entry_for pt3 pid (va div 128) f"
    using page_fault_bytes [OF m2(5,1) _ _ f_def, of pid bs] fresh free m2 unfolding page_def by auto
  have raise: "Machine_RaiseException ?h PageFaultException va m = Inr (setStatus UserMode m3)"
    using m1(1) m3(1) m2(6) by (simp add: Machine_RaiseException_def m2_def [symmetric] ExceptionHandler_def Machine_ReadRegister_def)
  define m4 where "m4 = setStatus UserMode m3"
  have m4: "machine_ok m4" "pageTable m4 = Some pt3" "mainMemory m4 = mainMemory m3"
    using m3 by (auto simp: m4_def setStatus_def machine_ok_def)
  obtain m5 where m5: "Machine_Translate pid va 4 False m4 = Inr (m5, Inr (f * 128 + ?off))" "mainMemory m5 = mainMemory m3"
    using Translate_hit [OF m4(1,2) m3(6) al, of False] m4(3) by simp
  have p: "unat (va div 128) * 128 + ?off = unat va" by (simp add: unat_div)
  have off: "?off + 4 \<le> 128" using aligned_offset [OF al] by simp
  have pg: "page ! (?off + k) = bs ! (unat va + k)" "?off + k < length page" if "k < 4" for k
    using that off len p by (simp_all add: page_def add.assoc [symmetric])
  have mem: "length (mainMemory m2) = 4096" "length page \<le> 128" using m2(5) by (auto simp: machine_ok_def page_def)
  have nth: "mainMemory m5 ! (f * 128 + ?off + k) = bs ! (unat va + k)" if "k < 4" for k
    using pg [OF that] mem m3(4) unfolding m5(2) m3(3)
    by (subst nth_put_bytes) auto
  have "mem_read (mainMemory m5) (f * 128 + ?off) 4 =
      Inr (word4 (bs ! unat va) (bs ! (unat va + 1)) (bs ! (unat va + 2)) (bs ! (unat va + 3)))"
    using nth [of 0] nth [of 1] nth [of 2] nth [of 3] by (simp add: mem_read_def WordToHost_def)
  then show ?thesis
    using miss raise m5(1) by (simp add: Machine_ReadMem_def translate_retry_def m4_def)
qed

lemma program_read:
  assumes ok: "program_ok t d v b" and exe: "coff2noff False junk (std_coff t d v b w) = Inr exe" "fs name = Some exe"
    and name: "name \<noteq> ''VirtualMemory''" "length stack = 40"
    and m: "sim_ok m" "pageTable m = Some pt" "\<forall>j<NumPhysPages. \<not> entry_for pt pid (va div 128) j"
      "bits_of (MemoryMap m) \<noteq> {0..<32}" "aligned va 4" "unat va + 4 \<le> length (vm_image t d v)"
  shows "\<exists>fs' np m'. AddrSpace_AddrSpace False stack \<lparr>sf_name = name, currentOffset = 0\<rparr> fs = Inr (fs', np)
    \<and> unat np = (length t + length d + unat b + 1024 + 127) div 128
    \<and> Machine_ReadMem (ExceptionHandler pid (open_virtual_memory fs')) pid va 4 m =
        Inr (m', Some (word4 (vm_image t d v ! unat va) (vm_image t d v ! (unat va + 1))
                             (vm_image t d v ! (unat va + 2)) (vm_image t d v ! (unat va + 3))))"
proof -
  have "exe = noff_bytes (std_noff junk t d v b w) @ t @ d"
    using exe(1) std_coff_converts [of t d junk v b w] ok by (simp add: program_ok_def)
  then have load: "AddrSpace_AddrSpace False stack \<lparr>sf_name = name, currentOffset = 0\<rparr> fs =
      Inr (fs(''VirtualMemory'' \<mapsto> vm_image t d v), program_pages t d b)"
    using AddrSpace_std [OF ok _ name] exe(2) by simp
  have "\<forall>j. \<not> entry_for pt pid (va div 128) j" using m(3) by (auto simp: entry_for_def)
  from read_through_fault [OF m(1,2) this m(4-6)] load program_size(2) [OF ok] open_virtual_memory_bytes
  show ?thesis by fastforce
qed

definition example_program_fs :: hostfs where
  "example_program_fs = [''halt'' \<mapsto> noff_bytes (std_noff example_noff [8, 0, 2, 36, 12, 0, 0, 0] [1, 2, 3, 4] 8 0 0)
     @ [8, 0, 2, 36, 12, 0, 0, 0] @ [1, 2, 3, 4]]"

lemma example_program:
  "program_ok [8, 0, 2, 36, 12, 0, 0, 0] [1, 2, 3, 4] 8 0"
  "coff2noff False example_noff (std_coff [8, 0, 2, 36, 12, 0, 0, 0] [1, 2, 3, 4] 8 0 0) =
     Inr (the (example_program_fs ''halt''))"
  "example_program_fs ''halt'' = Some (the (example_program_fs ''halt''))"
proof -
  show "coff2noff False example_noff (std_coff [8, 0, 2, 36, 12, 0, 0, 0] [1, 2, 3, 4] 8 0 0) =
     Inr (the (example_program_fs ''halt''))"
    by (subst std_coff_converts) (simp_all add: example_program_fs_def)
qed (simp_all add: program_ok_def example_program_fs_def)

lemma example_table_pid: "\<forall>j<NumPhysPages. \<not> entry_for example_table 5 vpn j"
proof (intro allI impI)
  fix j :: nat assume "j < 32"
  then show "\<not> entry_for example_table 5 vpn j"
    by (auto simp: entry_for_def example_table_def nth_list_update initial_entry_def simp del: upt_rec_numeral)
qed

lemma example_machine_free: "bits_of (MemoryMap example_machine) \<noteq> {0..<32}"
proof -
  have "\<not> bm_bit (MemoryMap example_machine) 5" by (simp add: example_machine_def bm_bit_def)
  then have "5 \<notin> bits_of (MemoryMap example_machine)" by (simp add: bits_of_def)
  then show ?thesis by force
qed

text \<open>
  (C4) Converter, loader, page tables and fault handler together run the program that was linked: after
  \<^verbatim>\<open>coff2noff\<close> and the address space constructor, a fetch from any code address in a page the thread has not touched
  faults, is retried, and returns the word the program has there; the address space has the pages that code, data
  and stack need.
\<close>

theorem program_fetch:
  assumes "program_ok t d v b" "coff2noff False junk (std_coff t d v b w) = Inr exe" "fs name = Some exe"
    "name \<noteq> ''VirtualMemory''" "length stack = 40"
    "sim_ok m" "pageTable m = Some pt" "\<forall>j<NumPhysPages. \<not> entry_for pt pid (va div 128) j"
    "bits_of (MemoryMap m) \<noteq> {0..<32}" "aligned va 4" "unat va + 4 \<le> length t"
  shows "\<exists>fs' np m'. AddrSpace_AddrSpace False stack \<lparr>sf_name = name, currentOffset = 0\<rparr> fs = Inr (fs', np)
    \<and> unat np = (length t + length d + unat b + 1024 + 127) div 128
    \<and> Machine_ReadMem (ExceptionHandler pid (open_virtual_memory fs')) pid va 4 m =
        Inr (m', Some (word4 (t ! unat va) (t ! (unat va + 1)) (t ! (unat va + 2)) (t ! (unat va + 3))))"
proof -
  have "vm_image t d v ! (unat va + k) = t ! (unat va + k)" if "k < 4" for k
    using assms(11) that by (simp add: vm_image_def nth_append)
  from this [of 0] this [of 1] this [of 2] this [of 3] program_read [where fs = fs and name = name, OF assms(1-10)] assms(11)
  show ?thesis by (simp add: vm_image_def)
qed

theorem program_fetch_witness:
  "\<exists>fs' np m'. AddrSpace_AddrSpace False (replicate 40 0) \<lparr>sf_name = ''halt'', currentOffset = 0\<rparr> example_program_fs = Inr (fs', np)
    \<and> Machine_ReadMem (ExceptionHandler 5 (open_virtual_memory fs')) 5 0 4 example_machine = Inr (m', Some 0x24020008)"
proof -
  have pt: "pageTable example_machine = Some example_table" by (simp add: example_machine_def)
  have al: "aligned 0 4" by (simp add: aligned_def)
  have w: "word4 8 0 2 36 = (0x24020008 :: 32 word)" by (simp add: word4_def)
  have len: "length (replicate 40 (0 :: 8 word)) = 40" "unat (0 :: 32 word) + 4 \<le> length [8, 0, 2, 36, 12, 0, 0, 0 :: 8 word]"
    "''halt'' \<noteq> ''VirtualMemory''" by simp_all
  from program_fetch [where fs = example_program_fs and name = "''halt''", OF example_program len(3,1) example_machine_sim pt example_table_pid example_machine_free al len(2)]
  show ?thesis by (auto simp: w)
qed

text \<open>
  (C31) The data segment does not arrive: the constructor writes it to \<^verbatim>\<open>VirtualMemory\<close> at its address times the page
  size, so a program that reads its initialised data finds zero there, whatever the data is, as long as the read lies
  below that place.
\<close>

theorem data_segment_lost:
  assumes "program_ok t d v b" "coff2noff False junk (std_coff t d v b w) = Inr exe" "fs name = Some exe"
    "name \<noteq> ''VirtualMemory''" "length stack = 40"
    "sim_ok m" "pageTable m = Some pt" "\<forall>j<NumPhysPages. \<not> entry_for pt pid (va div 128) j"
    "bits_of (MemoryMap m) \<noteq> {0..<32}" "aligned va 4" "unat v \<le> unat va" "unat va + 4 \<le> 128 * unat v"
  shows "\<exists>fs' np m'. AddrSpace_AddrSpace False stack \<lparr>sf_name = name, currentOffset = 0\<rparr> fs = Inr (fs', np)
    \<and> Machine_ReadMem (ExceptionHandler pid (open_virtual_memory fs')) pid va 4 m = Inr (m', Some 0)"
proof -
  have zero: "vm_image t d v ! i = 0" if "length t \<le> i" "i < 128 * unat v" for i
    using that diff_less_mono [OF that(2,1)] by (simp add: vm_image_def nth_append)
  have "length t \<le> unat v" using assms(1) by (simp add: program_ok_def)
  then have "vm_image t d v ! (unat va + k) = 0" if "k < 4" for k
    using assms(11,12) that by (intro zero) simp_all
  from this [of 0] this [of 1] this [of 2] this [of 3] program_read [where fs = fs and name = name, OF assms(1-10)] assms(11,12)
  show ?thesis by (fastforce simp: vm_image_def word4_def)
qed

theorem data_segment_lost_witness:
  "\<exists>fs' np m'. AddrSpace_AddrSpace False (replicate 40 0) \<lparr>sf_name = ''halt'', currentOffset = 0\<rparr> example_program_fs = Inr (fs', np)
    \<and> Machine_ReadMem (ExceptionHandler 5 (open_virtual_memory fs')) 5 8 4 example_machine = Inr (m', Some 0)"
proof -
  have pt: "pageTable example_machine = Some example_table" by (simp add: example_machine_def)
  have al: "aligned 8 4" by (simp add: aligned_def)
  have len: "length (replicate 40 (0 :: 8 word)) = 40" "unat (8 :: 32 word) \<le> unat (8 :: 32 word)"
    "unat (8 :: 32 word) + 4 \<le> 128 * unat (8 :: 32 word)" "''halt'' \<noteq> ''VirtualMemory''" by simp_all
  from data_segment_lost [where fs = example_program_fs and name = "''halt''", OF example_program len(4,1) example_machine_sim pt example_table_pid example_machine_free al len(2,3)]
  show ?thesis .
qed

end
