(* ===== verification/Nachos_Console.thy ===== *)
theory Nachos_Console
  imports Nachos_Prelude "HOL-Library.Sublist"
begin

text \<open>
  The console: the device of \<^verbatim>\<open>machine/console.h\<close> and \<^verbatim>\<open>machine/console.cc\<close>, the \<^verbatim>\<open>SynchConsole\<close> on top of it,
  and the echo program \<^verbatim>\<open>ConsoleTest\<close> of \<^verbatim>\<open>userprog/progtest.cc\<close>.  Keys arrive, interrupts fire and the thread
  runs in any order.  The lemmas show that the program echoes what is typed, in order, that no assertion fails and
  that it gets through all its input; and what happens to the one byte that the device takes for an empty buffer.
\<close>

subsection \<open>The device\<close>

text \<open>\<^verbatim>\<open>incoming\<close> is a signed \<^verbatim>\<open>char\<close>, so that \<^verbatim>\<open>EOF\<close>, which is -1, is the byte 255.\<close>

abbreviation (input) EOF :: "8 word" where "EOF \<equiv> 255"

record console =
  incoming :: "8 word"
  putBusy :: bool
  keyboard :: "8 word list"
  keyboard_closed :: bool
  display :: "8 word list"
  pendingPoll :: nat
  pendingWrite :: nat
  numConsoleCharsRead :: nat
  numConsoleCharsWritten :: nat
  readAvail :: nat
  writeDone :: nat
  con_lock :: bool

text \<open>A keyboard that has been closed is always ready: a read returns at once, with no byte.\<close>

definition PollFile :: "console \<Rightarrow> bool" where
  "PollFile c = (keyboard c \<noteq> [] \<or> keyboard_closed c)"

definition Read_char :: "console \<Rightarrow> (console \<times> 8 word) result" where
  "Read_char c = (case keyboard c of [] \<Rightarrow> Inl AssertFail | k # ks \<Rightarrow> Inr (c\<lparr>keyboard := ks\<rparr>, k))"

definition Console_Console :: "console \<Rightarrow> console" where
  "Console_Console c = c\<lparr>putBusy := False, incoming := EOF, pendingPoll := 1, pendingWrite := 0\<rparr>"

definition Console_CheckCharAvail :: "(console \<Rightarrow> console) \<Rightarrow> console \<Rightarrow> console result" where
  "Console_CheckCharAvail readHandler c =
     (let c = c\<lparr>pendingPoll := pendingPoll c + 1\<rparr> in
      if incoming c \<noteq> EOF \<or> \<not> PollFile c then Inr c
      else rbind (Read_char c) (\<lambda>(c, k).
             Inr (readHandler (c\<lparr>incoming := k, numConsoleCharsRead := numConsoleCharsRead c + 1\<rparr>))))"

definition Console_WriteDone :: "(console \<Rightarrow> console) \<Rightarrow> console \<Rightarrow> console" where
  "Console_WriteDone writeHandler c =
     writeHandler (c\<lparr>putBusy := False, numConsoleCharsWritten := numConsoleCharsWritten c + 1\<rparr>)"

definition Console_GetChar :: "console \<Rightarrow> console \<times> 8 word" where
  "Console_GetChar c = (c\<lparr>incoming := EOF\<rparr>, incoming c)"

definition Console_PutChar :: "8 word \<Rightarrow> console \<Rightarrow> console result" where
  "Console_PutChar ch c =
     ASSERT (\<not> putBusy c) (Inr (c\<lparr>display := display c @ [ch], putBusy := True, pendingWrite := pendingWrite c + 1\<rparr>))"

subsection \<open>The synchronous console\<close>

definition ReadAvail :: "console \<Rightarrow> console" where
  "ReadAvail c = c\<lparr>readAvail := readAvail c + 1\<rparr>"

definition WriteDone :: "console \<Rightarrow> console" where
  "WriteDone c = c\<lparr>writeDone := writeDone c + 1\<rparr>"

definition SynchConsole_SynchConsole :: "console \<Rightarrow> console" where
  "SynchConsole_SynchConsole c = Console_Console (c\<lparr>con_lock := False\<rparr>)"

text \<open>\<^verbatim>\<open>PutChar\<close> up to its wait for \<^verbatim>\<open>writeDone\<close>, and the rest; \<^verbatim>\<open>GetChar\<close> up to its wait for \<^verbatim>\<open>readAvail\<close>, and the rest.\<close>

definition SynchConsole_PutChar :: "8 word \<Rightarrow> console \<Rightarrow> console result" where
  "SynchConsole_PutChar ch c = (if con_lock c then Inl Blocked else Console_PutChar ch (c\<lparr>con_lock := True\<rparr>))"

definition SynchConsole_PutChar_end :: "console \<Rightarrow> console result" where
  "SynchConsole_PutChar_end c =
     (if writeDone c = 0 then Inl Blocked else Inr (c\<lparr>writeDone := writeDone c - 1, con_lock := False\<rparr>))"

definition SynchConsole_GetChar :: "console \<Rightarrow> console result" where
  "SynchConsole_GetChar c = (if con_lock c then Inl Blocked else Inr (c\<lparr>con_lock := True\<rparr>))"

definition SynchConsole_GetChar_end :: "console \<Rightarrow> (console \<times> 8 word) result" where
  "SynchConsole_GetChar_end c =
     (if readAvail c = 0 then Inl Blocked
      else let (c, ch) = Console_GetChar (c\<lparr>readAvail := readAvail c - 1\<rparr>) in Inr (c\<lparr>con_lock := False\<rparr>, ch))"

subsection \<open>The echo program\<close>

text \<open>Where the thread is: about to get a character, waiting for one, about to echo one, waiting for the display, or back.\<close>

datatype test_pc = Getting | WaitRead | Echo "8 word" | WaitWrite "8 word" | Returned

record ctest =
  con :: console
  at :: test_pc
  typed :: "8 word list"

abbreviation (input) char_q :: "8 word" where "char_q \<equiv> 113"

definition ConsoleTest :: "ctest \<Rightarrow> ctest result" where
  "ConsoleTest s =
     (case at s of
        Getting \<Rightarrow> rbind (SynchConsole_GetChar (con s)) (\<lambda>c. Inr (s\<lparr>con := c, at := WaitRead\<rparr>))
      | WaitRead \<Rightarrow> rbind (SynchConsole_GetChar_end (con s)) (\<lambda>(c, ch). Inr (s\<lparr>con := c, at := Echo ch\<rparr>))
      | Echo ch \<Rightarrow> rbind (SynchConsole_PutChar ch (con s)) (\<lambda>c. Inr (s\<lparr>con := c, at := WaitWrite ch\<rparr>))
      | WaitWrite ch \<Rightarrow> rbind (SynchConsole_PutChar_end (con s)) (\<lambda>c.
          Inr (s\<lparr>con := c, at := (if ch = char_q then Returned else Getting)\<rparr>))
      | Returned \<Rightarrow> Inl ThreadExit)"

definition fire_poll :: "console \<Rightarrow> console result" where
  "fire_poll c = Console_CheckCharAvail ReadAvail (c\<lparr>pendingPoll := pendingPoll c - 1\<rparr>)"

definition fire_write :: "console \<Rightarrow> console" where
  "fire_write c = Console_WriteDone WriteDone (c\<lparr>pendingWrite := pendingWrite c - 1\<rparr>)"

inductive ct_step :: "ctest \<Rightarrow> ctest \<Rightarrow> bool" where
  key: "k \<noteq> EOF \<Longrightarrow> ct_step s (s\<lparr>con := (con s)\<lparr>keyboard := keyboard (con s) @ [k]\<rparr>, typed := typed s @ [k]\<rparr>)"
| poll: "pendingPoll (con s) > 0 \<Longrightarrow> fire_poll (con s) = Inr c \<Longrightarrow> ct_step s (s\<lparr>con := c\<rparr>)"
| written: "pendingWrite (con s) > 0 \<Longrightarrow> ct_step s (s\<lparr>con := fire_write (con s)\<rparr>)"
| thread: "ConsoleTest s = Inr s' \<Longrightarrow> ct_step s s'"

inductive_cases ct_stepE: "ct_step s s'"

definition ct_start :: "ctest \<Rightarrow> bool" where
  "ct_start s \<longleftrightarrow> (\<exists>c. con s = SynchConsole_SynchConsole c \<and> keyboard c = [] \<and> \<not> keyboard_closed c \<and> display c = []
     \<and> readAvail c = 0 \<and> writeDone c = 0) \<and> at s = Getting \<and> typed s = []"

text \<open>The character in hand, the one in the buffer, and the invariant.\<close>

definition in_hand :: "ctest \<Rightarrow> 8 word list" where
  "in_hand s = (case at s of Echo ch \<Rightarrow> [ch] | _ \<Rightarrow> [])"

definition buffered :: "console \<Rightarrow> 8 word list" where
  "buffered c = (if incoming c = EOF then [] else [incoming c])"

definition writing :: "ctest \<Rightarrow> bool" where
  "writing s = (case at s of WaitWrite _ \<Rightarrow> True | _ \<Rightarrow> False)"

text \<open>The last character written ends the program exactly when it is a q.\<close>

definition q_ok :: "ctest \<Rightarrow> bool" where
  "q_ok s = (case at s of
       Returned \<Rightarrow> \<exists>xs. display (con s) = xs @ [char_q] \<and> char_q \<notin> set xs
     | WaitWrite ch \<Rightarrow> \<exists>xs. display (con s) = xs @ [ch] \<and> char_q \<notin> set xs
     | _ \<Rightarrow> char_q \<notin> set (display (con s)))"

definition ct_inv :: "ctest \<Rightarrow> bool" where
  "ct_inv s \<longleftrightarrow> pendingPoll (con s) = 1 \<and> \<not> keyboard_closed (con s)
     \<and> readAvail (con s) = of_bool (incoming (con s) \<noteq> EOF)
     \<and> con_lock (con s) = (at s = WaitRead \<or> writing s)
     \<and> pendingWrite (con s) + writeDone (con s) = of_bool (writing s)
     \<and> putBusy (con s) = (pendingWrite (con s) = 1)
     \<and> EOF \<notin> set (typed s)
     \<and> typed s = display (con s) @ in_hand s @ buffered (con s) @ keyboard (con s)
     \<and> q_ok s"

lemma ct_start_inv: "ct_start s \<Longrightarrow> ct_inv s"
  by (auto simp: ct_start_def ct_inv_def SynchConsole_SynchConsole_def Console_Console_def in_hand_def buffered_def
      writing_def q_ok_def)

lemma poll_inv:
  assumes inv: "ct_inv s"
  shows "\<exists>c. fire_poll (con s) = Inr c \<and> ct_inv (s\<lparr>con := c\<rparr>) \<and> display c = display (con s)
     \<and> length (keyboard c) \<le> length (keyboard (con s)) \<and> (keyboard (con s) \<noteq> [] \<longrightarrow> incoming c \<noteq> EOF)"
proof (cases "incoming (con s) \<noteq> EOF \<or> keyboard (con s) = []")
  case True
  have one: "pendingPoll (con s) = 1" and "\<not> keyboard_closed (con s)" using inv by (auto simp: ct_inv_def)
  moreover have "(con s)\<lparr>pendingPoll := 1\<rparr> = con s" using one by (cases "con s") simp
  ultimately have "fire_poll (con s) = Inr (con s)"
    using True by (auto simp: fire_poll_def Console_CheckCharAvail_def PollFile_def Let_def)
  moreover have "s\<lparr>con := con s\<rparr> = s" by (cases s) simp
  ultimately show ?thesis using inv True by auto
next
  case False
  then obtain k ks where k: "keyboard (con s) = k # ks" and e: "incoming (con s) = EOF" by (cases "keyboard (con s)") auto
  have "k \<in> set (typed s)" "EOF \<notin> set (typed s)" using inv k by (auto simp: ct_inv_def)
  then have "k \<noteq> EOF" by auto
  then show ?thesis using inv k e
    by (auto simp: fire_poll_def Console_CheckCharAvail_def PollFile_def Read_char_def ReadAvail_def Let_def ct_inv_def
        buffered_def in_hand_def writing_def q_ok_def split: test_pc.splits)
qed

lemma write_inv:
  assumes "ct_inv s" "pendingWrite (con s) > 0"
  shows "ct_inv (s\<lparr>con := fire_write (con s)\<rparr>)"
  using assms
  by (auto simp: fire_write_def Console_WriteDone_def WriteDone_def ct_inv_def buffered_def in_hand_def writing_def q_ok_def
      split: test_pc.splits)

lemma thread_inv:
  assumes inv: "ct_inv s" and run: "ConsoleTest s = Inr s'"
  shows "ct_inv s'"
proof (cases "at s")
  case Getting
  then show ?thesis using inv run
    by (auto simp: ConsoleTest_def SynchConsole_GetChar_def ct_inv_def in_hand_def buffered_def writing_def q_ok_def split: if_splits)
next
  case WaitRead
  then show ?thesis using inv run
    by (auto simp: ConsoleTest_def SynchConsole_GetChar_end_def Console_GetChar_def ct_inv_def in_hand_def buffered_def writing_def
        q_ok_def split: if_splits)
next
  case (Echo ch)
  then show ?thesis using inv run
    by (auto simp: ConsoleTest_def SynchConsole_PutChar_def Console_PutChar_def ct_inv_def in_hand_def buffered_def writing_def
        q_ok_def split: if_splits)
next
  case (WaitWrite ch)
  then have w: "writeDone (con s) \<noteq> 0" and s': "s' = s\<lparr>con := (con s)\<lparr>writeDone := writeDone (con s) - 1, con_lock := False\<rparr>,
      at := (if ch = char_q then Returned else Getting)\<rparr>"
    using run by (auto simp: ConsoleTest_def SynchConsole_PutChar_end_def split: if_splits)
  obtain xs where xs: "display (con s) = xs @ [ch]" "char_q \<notin> set xs" using inv WaitWrite by (auto simp: ct_inv_def q_ok_def)
  have "q_ok s'" using xs by (auto simp: s' q_ok_def)
  moreover have "in_hand s' = in_hand s" "buffered (con s') = buffered (con s)" "\<not> writing s'" "at s' \<noteq> WaitRead" "writing s"
    using WaitWrite by (auto simp: s' in_hand_def buffered_def writing_def)
  moreover have "pendingWrite (con s) = 0" "writeDone (con s) = 1" using inv w WaitWrite by (auto simp: ct_inv_def writing_def)
  ultimately show ?thesis using inv unfolding ct_inv_def by (auto simp: s')
next
  case Returned
  then show ?thesis using run by (simp add: ConsoleTest_def)
qed

lemma key_inv:
  "ct_inv s \<Longrightarrow> k \<noteq> EOF \<Longrightarrow> ct_inv (s\<lparr>con := (con s)\<lparr>keyboard := keyboard (con s) @ [k]\<rparr>, typed := typed s @ [k]\<rparr>)"
  by (auto simp: ct_inv_def in_hand_def buffered_def writing_def q_ok_def split: test_pc.splits)

lemma ct_step_inv: "ct_inv s \<Longrightarrow> ct_step s s' \<Longrightarrow> ct_inv s'"
proof (erule ct_stepE)
  fix c assume "ct_inv s" "s' = s\<lparr>con := c\<rparr>" "fire_poll (con s) = Inr c"
  then show "ct_inv s'" using poll_inv [of s] by auto
qed (auto intro: key_inv write_inv thread_inv)

interpretation echo: step_system ct_start ct_step ct_inv
  by unfold_locales (erule ct_start_inv, erule ct_step_inv)

lemma thread_no_assert: "ct_inv s \<Longrightarrow> ConsoleTest s \<noteq> Inl AssertFail"
  by (auto simp: ct_inv_def ConsoleTest_def SynchConsole_GetChar_def SynchConsole_GetChar_end_def Console_GetChar_def writing_def
      SynchConsole_PutChar_def Console_PutChar_def SynchConsole_PutChar_end_def split: test_pc.splits)

subsection \<open>Progress\<close>

text \<open>How many steps are left until all that was typed so far is on the display.\<close>

definition work :: "ctest \<Rightarrow> nat" where
  "work s = 6 * length (keyboard (con s)) + 5 * length (buffered (con s)) +
     (case at s of Getting \<Rightarrow> 1 | WaitRead \<Rightarrow> 0 | Echo _ \<Rightarrow> 4 | WaitWrite _ \<Rightarrow> 2 + pendingWrite (con s) | Returned \<Rightarrow> 0)"

definition idle :: "ctest \<Rightarrow> bool" where
  "idle s \<longleftrightarrow> at s = Returned \<or> at s = WaitRead \<and> incoming (con s) = EOF \<and> keyboard (con s) = []"

lemma work_stepI: "ct_step s s' \<Longrightarrow> typed s' = typed s \<Longrightarrow> work s' < work s \<Longrightarrow> \<exists>s'. ct_step s s' \<and> typed s' = typed s \<and> work s' < work s"
  by blast

lemma work_step:
  assumes inv: "ct_inv s" and busy: "\<not> idle s"
  shows "\<exists>s'. ct_step s s' \<and> typed s' = typed s \<and> work s' < work s"
proof (cases "at s")
  case Getting
  then have "ConsoleTest s = Inr (s\<lparr>con := (con s)\<lparr>con_lock := True\<rparr>, at := WaitRead\<rparr>)"
    using inv by (simp add: ConsoleTest_def SynchConsole_GetChar_def ct_inv_def writing_def)
  from ct_step.thread [OF this] show ?thesis
    by (rule work_stepI) (use Getting in \<open>auto simp: work_def buffered_def\<close>)
next
  case WaitRead
  show ?thesis
  proof (cases "incoming (con s) = EOF")
    case True
    then obtain k ks where k: "keyboard (con s) = k # ks" using busy WaitRead by (cases "keyboard (con s)") (auto simp: idle_def)
    have "pendingPoll (con s) = 1" "k \<noteq> EOF" using inv k by (auto simp: ct_inv_def)
    then have "fire_poll (con s) = Inr ((con s)\<lparr>keyboard := ks, incoming := k,
        numConsoleCharsRead := numConsoleCharsRead (con s) + 1, readAvail := readAvail (con s) + 1\<rparr>)"
      using True k by (simp add: fire_poll_def Console_CheckCharAvail_def PollFile_def Read_char_def ReadAvail_def Let_def)
    from ct_step.poll [OF _ this] show ?thesis
      by (rule work_stepI) (use \<open>pendingPoll (con s) = 1\<close> \<open>k \<noteq> EOF\<close> True k WaitRead in \<open>auto simp: work_def buffered_def\<close>)
  next
    case False
    then have "ConsoleTest s = Inr (s\<lparr>con := (con s)\<lparr>readAvail := 0, incoming := EOF, con_lock := False\<rparr>, at := Echo (incoming (con s))\<rparr>)"
      using inv WaitRead by (simp add: ConsoleTest_def SynchConsole_GetChar_end_def Console_GetChar_def ct_inv_def)
    from ct_step.thread [OF this] show ?thesis
      by (rule work_stepI) (use False WaitRead in \<open>auto simp: work_def buffered_def\<close>)
  qed
next
  case (Echo ch)
  then have "ConsoleTest s = Inr (s\<lparr>con := (con s)\<lparr>con_lock := True, display := display (con s) @ [ch], putBusy := True,
      pendingWrite := pendingWrite (con s) + 1\<rparr>, at := WaitWrite ch\<rparr>)" and p: "pendingWrite (con s) = 0"
    using inv by (auto simp: ConsoleTest_def SynchConsole_PutChar_def Console_PutChar_def ct_inv_def writing_def)
  from ct_step.thread [OF this(1)] show ?thesis
    by (rule work_stepI) (use Echo p in \<open>auto simp: work_def buffered_def\<close>)
next
  case (WaitWrite ch)
  show ?thesis
  proof (cases "pendingWrite (con s) = 0")
    case True
    then have "ConsoleTest s = Inr (s\<lparr>con := (con s)\<lparr>writeDone := 0, con_lock := False\<rparr>, at := (if ch = char_q then Returned else Getting)\<rparr>)"
      using inv WaitWrite by (simp add: ConsoleTest_def SynchConsole_PutChar_end_def ct_inv_def writing_def)
    from ct_step.thread [OF this] show ?thesis
      by (rule work_stepI) (use True WaitWrite in \<open>auto simp: work_def buffered_def\<close>)
  next
    case False
    then have "ct_step s (s\<lparr>con := fire_write (con s)\<rparr>)" by (intro ct_step.written) simp
    then show ?thesis
      by (rule work_stepI)
        (use False WaitWrite in \<open>auto simp: work_def buffered_def fire_write_def Console_WriteDone_def WriteDone_def\<close>)
  qed
next
  case Returned
  then show ?thesis using busy by (simp add: idle_def)
qed

lemma reaches_idle: "ct_inv s \<Longrightarrow> \<exists>s'. ct_step\<^sup>*\<^sup>* s s' \<and> typed s' = typed s \<and> ct_inv s' \<and> idle s'"
proof (induction "work s" arbitrary: s rule: less_induct)
  case less
  show ?case
  proof (cases "idle s")
    case False
    from work_step [OF less.prems this] obtain s1 where s1: "ct_step s s1" "typed s1 = typed s" "work s1 < work s" by blast
    from less.hyps [OF s1(3) ct_step_inv [OF less.prems s1(1)]] s1 show ?thesis
      by (metis converse_rtranclp_into_rtranclp)
  qed (use less.prems in blast)
qed

subsection \<open>Properties\<close>

text \<open>What the program should write for what was typed: everything up to and including the first q.\<close>

definition echo_of :: "8 word list \<Rightarrow> 8 word list" where
  "echo_of ts = (if char_q \<in> set ts then takeWhile (\<lambda>k. k \<noteq> char_q) ts @ [char_q] else ts)"

lemma echo_of_append: "char_q \<notin> set xs \<Longrightarrow> echo_of (xs @ [char_q] @ ys) = xs @ [char_q]"
proof -
  assume "char_q \<notin> set xs"
  then have "takeWhile (\<lambda>k. k \<noteq> char_q) (xs @ char_q # ys) = xs @ takeWhile (\<lambda>k. k \<noteq> char_q) (char_q # ys)"
    by (intro takeWhile_append2) auto
  then show ?thesis by (simp add: echo_of_def)
qed

lemma idle_echo: "ct_inv s \<Longrightarrow> idle s \<Longrightarrow> display (con s) = echo_of (typed s)"
proof (cases "at s = Returned")
  case True
  assume inv: "ct_inv s"
  then obtain xs where xs: "display (con s) = xs @ [char_q]" "char_q \<notin> set xs" using True by (auto simp: ct_inv_def q_ok_def)
  have "typed s = xs @ [char_q] @ (in_hand s @ buffered (con s) @ keyboard (con s))" using inv xs by (simp add: ct_inv_def)
  then show ?thesis using xs echo_of_append by metis
next
  case False
  assume "ct_inv s" "idle s"
  then show ?thesis using False by (auto simp: ct_inv_def idle_def in_hand_def buffered_def q_ok_def echo_of_def)
qed

definition example_console :: console where
  "example_console = \<lparr>incoming = 7, putBusy = True, keyboard = [], keyboard_closed = False, display = [], pendingPoll = 0, pendingWrite = 0,
     numConsoleCharsRead = 0, numConsoleCharsWritten = 0, readAvail = 0, writeDone = 0, con_lock = True\<rparr>"

definition example_test :: ctest where
  "example_test = \<lparr>con = SynchConsole_SynchConsole example_console, at = Getting, typed = []\<rparr>"

definition example_typed :: ctest where
  "example_typed = example_test\<lparr>con := (con example_test)\<lparr>keyboard := [104, 105]\<rparr>, typed := [104, 105]\<rparr>"

lemma example_test_start: "ct_start example_test"
  by (auto simp: ct_start_def example_test_def example_console_def intro!: exI [of _ example_console])

lemma example_test_types: "ct_step\<^sup>*\<^sup>* example_test example_typed"
proof -
  let ?s = "example_test\<lparr>con := (con example_test)\<lparr>keyboard := [104]\<rparr>, typed := [104]\<rparr>"
  have "keyboard (con example_test) = []" "typed example_test = []"
    by (simp_all add: example_test_def example_console_def SynchConsole_SynchConsole_def Console_Console_def)
  then have "ct_step example_test ?s" "ct_step ?s example_typed"
    using ct_step.key [of 104 example_test] ct_step.key [of 105 ?s] by (simp_all add: example_typed_def)
  then show ?thesis by (meson converse_rtranclp_into_rtranclp r_into_rtranclp)
qed

text \<open>
  (C8) While keys other than byte 255 arrive and interrupts and the thread interleave in any way, no assertion of the
  console fails, and the display always shows a prefix of what was typed: nothing is lost, repeated or reordered.
  The program returns only after writing a q, and at the first one.
\<close>

theorem console_echoes:
  assumes "ct_start s0" "ct_step\<^sup>*\<^sup>* s0 s"
  shows "prefix (display (con s)) (typed s) \<and> (\<exists>c. fire_poll (con s) = Inr c) \<and> ConsoleTest s \<noteq> Inl AssertFail
    \<and> (at s = Returned \<longrightarrow> display (con s) = echo_of (typed s))"
proof -
  have inv: "ct_inv s" using echo.inv_reachable [OF assms] .
  then have "prefix (display (con s)) (typed s)" by (simp add: ct_inv_def)
  moreover have "at s = Returned \<Longrightarrow> display (con s) = echo_of (typed s)"
    using idle_echo [OF inv] by (simp add: idle_def)
  ultimately show ?thesis using poll_inv [OF inv] thread_no_assert [OF inv] by blast
qed

theorem console_echoes_witness:
  "ct_start example_test \<and> ct_step\<^sup>*\<^sup>* example_test example_typed \<and> (\<exists>c. fire_poll (con example_typed) = Inr c)"
  using console_echoes [OF example_test_start example_test_types] example_test_start example_test_types by blast

text \<open>
  (C21) The program gets through its input: from every state it can reach, some continuation without further keys
  displays all that was typed, or all up to and including the first q.  No wake-up is lost and nothing deadlocks.
\<close>

theorem console_completes:
  assumes "ct_start s0" "ct_step\<^sup>*\<^sup>* s0 s"
  shows "\<exists>s'. ct_step\<^sup>*\<^sup>* s s' \<and> typed s' = typed s \<and> display (con s') = echo_of (typed s)"
  using reaches_idle [OF echo.inv_reachable [OF assms]] idle_echo by metis

theorem console_completes_witness:
  "\<exists>s'. ct_step\<^sup>*\<^sup>* example_typed s' \<and> display (con s') = [104, 105]"
proof -
  have "echo_of (typed example_typed) = [104, 105]" by (simp add: example_typed_def echo_of_def)
  with console_completes [OF example_test_start example_test_types] show ?thesis by auto
qed

text \<open>
  Byte 255 is taken for an empty buffer: the next poll reads over it, so two keys are announced but only the second is
  still there, and the second \<^verbatim>\<open>GetChar\<close> returns \<^verbatim>\<open>EOF\<close>.
\<close>

lemma byte_255_overwritten:
  assumes "incoming c = EOF" "keyboard c = EOF # k # ks" "k \<noteq> EOF" "pendingPoll c = 1"
  shows "\<exists>c1 c2. fire_poll c = Inr c1 \<and> fire_poll c1 = Inr c2 \<and> incoming c2 = k \<and> keyboard c2 = ks
    \<and> readAvail c2 = readAvail c + 2"
  using assms by (auto simp: fire_poll_def Console_CheckCharAvail_def PollFile_def Read_char_def ReadAvail_def Let_def)

text \<open>A keyboard file that ends aborts the simulation at the next poll.\<close>

lemma closed_keyboard_aborts:
  "incoming c = EOF \<Longrightarrow> keyboard c = [] \<Longrightarrow> keyboard_closed c \<Longrightarrow> fire_poll c = Inl AssertFail"
  by (simp add: fire_poll_def Console_CheckCharAvail_def PollFile_def Read_char_def Let_def)

end
