(* ===== verification/Nachos_ThreadTest.thy ===== *)
theory Nachos_ThreadTest
  imports Nachos_Synch
begin

text \<open>
  The test programs of \<^verbatim>\<open>threads/threadtest.cc\<close>: bounded buffer with semaphores, producers and consumers with a
  condition variable, dining philosophers, and a barrier.  A program is the list of actions its thread has still to
  do; the operations on semaphores, locks and conditions are those of theory Nachos_Synch.  The output of the
  programs is not modelled.
\<close>

subsection \<open>Programs\<close>

record globals =
  itemnum :: int
  countnum :: int
  barrier_flag :: "int list"

text \<open>The assignments of the programs to the globals, and the conditions they test.\<close>

datatype update = AddItem int | AddCount int | SetFlag nat int | InitFlag

datatype cond = NoItem | NotAllReady

definition init_flag :: "globals \<Rightarrow> globals" where
  "init_flag g = g\<lparr>barrier_flag := map (\<lambda>_. 0) [0..<4]\<rparr>"

definition all_thread_ready :: "globals \<Rightarrow> bool" where
  "all_thread_ready g = list_all (\<lambda>i. barrier_flag g ! i = 1) [0..<4]"

fun apply_upd :: "update \<Rightarrow> globals \<Rightarrow> globals" where
  "apply_upd (AddItem k) g = g\<lparr>itemnum := itemnum g + k\<rparr>"
| "apply_upd (AddCount k) g = g\<lparr>countnum := countnum g + k\<rparr>"
| "apply_upd (SetFlag i k) g = g\<lparr>barrier_flag := (barrier_flag g)[i := k]\<rparr>"
| "apply_upd InitFlag g = init_flag g"

fun eval_cond :: "cond \<Rightarrow> globals \<Rightarrow> bool" where
  "eval_cond NoItem g = (itemnum g \<le> 0)"
| "eval_cond NotAllReady g = (\<not> all_thread_ready g)"

text \<open>An operation of the kernel, an assignment, a conditional, a new thread, and its start.\<close>

datatype act = Do op | Upd update | When cond "act list" | New tid | Fork tid "act list"

record test =
  kern :: sync
  glob :: globals
  code :: "tid \<Rightarrow> act list"

definition set_code :: "tid \<Rightarrow> act list \<Rightarrow> test \<Rightarrow> test" where
  "set_code t as s = s\<lparr>code := (code s)(t := as)\<rparr>"

text \<open>The next action of thread \<open>t\<close>; a thread whose function returns calls \<^verbatim>\<open>Finish\<close>.\<close>

definition do_act :: "tid \<Rightarrow> test \<Rightarrow> test result" where
  "do_act t s =
     (case code s t of
        [] \<Rightarrow> rbind (do_op Finish t (kern s)) (\<lambda>k. Inr (s\<lparr>kern := k\<rparr>))
      | a # as \<Rightarrow>
         (let s = set_code t as s in
          case a of
            Do x \<Rightarrow> rbind (do_op x t (kern s)) (\<lambda>k. Inr (s\<lparr>kern := k\<rparr>))
          | Upd f \<Rightarrow> Inr (s\<lparr>glob := apply_upd f (glob s)\<rparr>)
          | When b bs \<Rightarrow> Inr (if eval_cond b (glob s) then set_code t (bs @ as) s else s)
          | New u \<Rightarrow> rbind (Thread_Thread u (kern s)) (\<lambda>k. Inr (s\<lparr>kern := k\<rparr>))
          | Fork u prog \<Rightarrow> Inr (set_code u prog (s\<lparr>kern := Thread_Fork u (kern s)\<rparr>))))"

text \<open>One step: the running thread goes on, or the idle processor looks for a ready thread.\<close>

definition run1 :: "test \<Rightarrow> test result" where
  "run1 s =
     (case currentThread (kern s) of
        None \<Rightarrow> if readyList (kern s) = [] then Inl Blocked else rbind (Sleep_wake (kern s)) (\<lambda>k. Inr (s\<lparr>kern := k\<rparr>))
      | Some t \<Rightarrow>
          if pc_of (kern s) t = InCode then do_act t s
          else rbind (resume t (kern s)) (\<lambda>k. Inr (s\<lparr>kern := k\<rparr>)))"

text \<open>The timer makes the running thread yield while interrupts are on.\<close>

definition preempt1 :: "test \<Rightarrow> test result" where
  "preempt1 s =
     (case currentThread (kern s) of
        None \<Rightarrow> Inl Blocked
      | Some t \<Rightarrow>
          if pc_of (kern s) t = InCode \<or> (case pc_of (kern s) t of Acquired _ \<Rightarrow> True | _ \<Rightarrow> False)
          then rbind (Thread_Yield t (kern s)) (\<lambda>k. Inr (s\<lparr>kern := k\<rparr>)) else Inl Blocked)"

inductive test_step :: "test \<Rightarrow> test \<Rightarrow> bool" where
  go: "run1 s = Inr s' \<Longrightarrow> test_step s s'"
| timer: "preempt1 s = Inr s' \<Longrightarrow> test_step s s'"

inductive_cases test_stepE: "test_step s s'"

text \<open>A run given by its schedule: \<^const>\<open>True\<close> is an interrupt of the timer.\<close>

fun run_schedule :: "bool list \<Rightarrow> test \<Rightarrow> test result" where
  "run_schedule [] s = Inr s"
| "run_schedule (b # bs) s = rbind (if b then preempt1 s else run1 s) (run_schedule bs)"

subsection \<open>The test programs\<close>

text \<open>A loop with a fixed number of rounds.\<close>

fun repeat_acts :: "nat \<Rightarrow> act list \<Rightarrow> act list" where
  "repeat_acts 0 as = []"
| "repeat_acts (Suc n) as = as @ repeat_acts n as"

definition SimpleThread :: "act list" where
  "SimpleThread = repeat_acts 5 [Do Yield]"

abbreviation (input) mutex :: nat where "mutex \<equiv> 0"
abbreviation (input) empty_sem :: nat where "empty_sem \<equiv> 1"
abbreviation (input) full_sem :: nat where "full_sem \<equiv> 2"
abbreviation (input) pro_con_lock :: nat where "pro_con_lock \<equiv> 0"
abbreviation (input) barrier_lock :: nat where "barrier_lock \<equiv> 1"
abbreviation (input) con_cond :: nat where "con_cond \<equiv> 0"
abbreviation (input) barrier_cond :: nat where "barrier_cond \<equiv> 1"

definition chopstick :: "nat \<Rightarrow> nat" where
  "chopstick i = 3 + i"

definition Producer_semaphore :: "act list" where
  "Producer_semaphore = repeat_acts 5
     [Do (P empty_sem), Do Yield, Do (P mutex), Do Yield, Upd (AddItem 1), Do Yield,
      Do (V mutex), Do Yield, Do (V full_sem)]"

definition Consumer_semaphore :: "act list" where
  "Consumer_semaphore = repeat_acts 10
     [Do (P full_sem), Do Yield, Do (P mutex), Do Yield, Upd (AddItem (- 1)),
      Do (V mutex), Do Yield, Do (V empty_sem)]"

definition Producer_cond :: "act list" where
  "Producer_cond = repeat_acts 5
     [Do (Acquire pro_con_lock), Do Yield, Upd (AddItem 1), Do Yield, Do (Release pro_con_lock),
      Do Yield, Do (Broadcast con_cond)]"

definition Consumer_cond :: "act list" where
  "Consumer_cond = repeat_acts 5
     [Do (Acquire pro_con_lock), Do Yield, When NoItem [Do (Wait con_cond pro_con_lock)], Do Yield,
      Upd (AddItem (- 1)), Do Yield, Do (Release pro_con_lock), Do Yield]"

definition Philosopher_deadlock :: "nat \<Rightarrow> act list" where
  "Philosopher_deadlock which = repeat_acts 20
     [Do (P (chopstick ((which + 3) mod 4))), Do Yield, Do (P (chopstick which)), Do Yield, Do Yield,
      Do (V (chopstick ((which + 3) mod 4))), Do Yield, Do (V (chopstick which)), Do Yield]"

definition server_get :: "nat \<Rightarrow> act list" where
  "server_get which = [Do (P (chopstick ((which + 3) mod 4))), Do Yield, Do (P (chopstick which))]"

definition server_ret :: "nat \<Rightarrow> act list" where
  "server_ret which = [Do (V (chopstick ((which + 3) mod 4))), Do Yield, Do (V (chopstick which))]"

definition Philosopher :: "nat \<Rightarrow> act list" where
  "Philosopher which = repeat_acts 10
     ([Do (P mutex)] @ server_get which @ [Do (V mutex), Do (P mutex)] @ server_ret which @ [Do (V mutex)])"

text \<open>The inner loop counts from \<^verbatim>\<open>which\<close>, a number below 4, to 5.\<close>

definition barrier_function :: "nat \<Rightarrow> act list" where
  "barrier_function which = repeat_acts 2
     (replicate (5 - which) (Do Yield) @
      [Do (Acquire barrier_lock), Upd (SetFlag which 1), When NotAllReady [Do (Wait barrier_cond barrier_lock)],
       Upd (AddCount 5), Upd (SetFlag which 0), Do Yield, Do (Release barrier_lock), Do Yield, Do (Broadcast barrier_cond)])"

definition ThreadTest2 :: "act list" where
  "ThreadTest2 = [New 1, New 2, New 3, New 4, Fork 1 (Philosopher 0), Fork 2 (Philosopher 1), Fork 3 (Philosopher 2),
     Fork 4 (Philosopher 3)] @ replicate 10000 (Do Yield)"

definition ThreadTest3 :: "act list" where
  "ThreadTest3 = [New 1, New 2, New 3, New 4, Fork 2 Consumer_cond, Fork 1 Producer_cond, Fork 4 Producer_cond,
     Fork 3 Consumer_cond] @ replicate 10000 (Do Yield)"

definition ThreadTest4 :: "act list" where
  "ThreadTest4 = [Upd InitFlag, New 1, New 2, New 3, New 4, Fork 1 (barrier_function 0), Fork 2 (barrier_function 1),
     Fork 3 (barrier_function 2), Fork 4 (barrier_function 3)] @ replicate 10000 (Do Yield)"

text \<open>\<^verbatim>\<open>testnum\<close> selects the test; tests 1 and 5 and unknown numbers do nothing with the threads.\<close>

definition ThreadTest :: "int \<Rightarrow> act list" where
  "ThreadTest testnum =
     (if testnum = 2 then ThreadTest2 else if testnum = 3 then ThreadTest3 else if testnum = 4 then ThreadTest4 else [])"

text \<open>The initial values of the global semaphores: mutex and chopsticks 1, ten empty slots, no full one.\<close>

definition initial_sems :: "nat \<Rightarrow> nat" where
  "initial_sems n = (if n = empty_sem then 10 else if n = full_sem then 0 else 1)"

definition test_start :: "act list \<Rightarrow> test" where
  "test_start prog = \<lparr>kern = initial initial_sems 0, glob = \<lparr>itemnum = 0, countnum = 0, barrier_flag = replicate 4 0\<rparr>,
     code = (\<lambda>_. [])(0 := prog)\<rparr>"

subsection \<open>What a step does to the semaphores\<close>

definition value_of :: "nat \<Rightarrow> sync \<Rightarrow> int" where
  "value_of n k = sem_value (sems k (Sem n))"

text \<open>The semaphore a thread is waiting for inside \<^verbatim>\<open>P\<close>, as an action it has still to do.\<close>

definition pend :: "pc \<Rightarrow> act list" where
  "pend p = (case p of InP n \<Rightarrow> [Do (P n)] | _ \<Rightarrow> [])"

definition todo :: "test \<Rightarrow> tid \<Rightarrow> act list" where
  "todo s t = pend (pc_of (kern s) t) @ code s t"

lemma todo_glob [simp]: "todo (s\<lparr>glob := g\<rparr>) = todo s"
  by (simp add: todo_def fun_eq_iff)

text \<open>A change of the kernel that neither touches a semaphore nor a thread inside \<^verbatim>\<open>P\<close>.\<close>

definition same_sems :: "sync \<Rightarrow> sync \<Rightarrow> bool" where
  "same_sems k k' \<longleftrightarrow> (\<forall>n. value_of n k' = value_of n k) \<and> (\<forall>t. pend (pc_of k' t) = pend (pc_of k t))"

lemma same_sems_trans: "same_sems k k' \<Longrightarrow> same_sems k' k'' \<Longrightarrow> same_sems k k''"
  by (simp add: same_sems_def)

lemma Sleep_wake_same: "Sleep_wake k = Inr k' \<Longrightarrow> same_sems k k'"
  by (auto simp: Sleep_wake_def Scheduler_FindNextToRun_def Scheduler_Run_def Let_def same_sems_def value_of_def pend_def
      dest!: Destruct_frame split: list.splits if_splits option.splits)

lemma Yield_same:
  assumes "currentThread k = Some t" "Thread_Yield t k = Inr k'"
  shows "same_sems k k'"
  using assms Sleep_wake_same [of "k\<lparr>readyList := readyList k @ [t], tstatus := (tstatus k)(t := READY), currentThread := None\<rparr>" k']
  by (auto simp: Thread_Yield_wake same_sems_def value_of_def split: if_splits)

lemma Sleep_same:
  assumes "currentThread k = Some t" "Thread_Sleep t p k = Inr k'"
  shows "same_sems (k\<lparr>pc_of := (pc_of k)(t := p)\<rparr>) k'"
  using assms Sleep_wake_same [of "k\<lparr>tstatus := (tstatus k)(t := BLOCKED), pc_of := (pc_of k)(t := p), currentThread := None\<rparr>" k']
  by (auto simp: Thread_Sleep_wake same_sems_def value_of_def)

lemma P_effect:
  assumes "currentThread k = Some t" "Semaphore_P r p p' t k = Inr k'"
  shows "sem_value (sems k r) = 0 \<and> same_sems (k\<lparr>pc_of := (pc_of k)(t := p)\<rparr>) k'
    \<or> sem_value (sems k r) \<noteq> 0 \<and> k' = set_pc t p' (set_sem r ((sems k r)\<lparr>sem_value := sem_value (sems k r) - 1\<rparr>) k)"
proof (cases "sem_value (sems k r) = 0")
  case True
  let ?k = "set_sem r ((sems k r)\<lparr>sem_queue := sem_queue (sems k r) @ [t]\<rparr>) k"
  have "Thread_Sleep t p ?k = Inr k'" using assms True by (simp add: Semaphore_P_def Let_def)
  with Sleep_same [of ?k t p k'] assms(1) have "same_sems (?k\<lparr>pc_of := (pc_of k)(t := p)\<rparr>) k'" by (simp add: set_sem_def)
  then show ?thesis using True by (auto simp: same_sems_def value_of_def set_sem_def)
qed (use assms in \<open>auto simp: Semaphore_P_def Let_def\<close>)

lemma V_effect:
  "value_of n (Semaphore_V r k) = value_of n k + of_bool (r = Sem n)" "pc_of (Semaphore_V r k) = pc_of k"
  "currentThread (Semaphore_V r k) = currentThread k"
  by (auto simp: Semaphore_V_def Let_def value_of_def set_sem_def Scheduler_ReadyToRun_def split: list.splits)

lemma Release_same: "same_sems k (Lock_Release l k) \<and> currentThread (Lock_Release l k) = currentThread k
    \<and> pc_of (Lock_Release l k) = pc_of k"
  by (simp add: Lock_Release_def same_sems_def V_effect) (simp add: value_of_def)

lemma Signal_same: "same_sems k (Condition_Signal c k)"
  by (auto simp: Condition_Signal_def same_sems_def value_of_def Scheduler_ReadyToRun_def split: list.splits)

lemma Broadcast_same: "same_sems k (Condition_Broadcast c k)"
proof (induction c k rule: Condition_Broadcast.induct)
  case (1 c k)
  show ?case
  proof (cases "waitinglist k c = []")
    case True
    then show ?thesis by (subst Condition_Broadcast.simps) (simp add: same_sems_def)
  next
    case False
    then show ?thesis
      using 1 same_sems_trans [OF Signal_same] by (subst Condition_Broadcast.simps) simp
  qed
qed

text \<open>
  The effect of an operation of the running thread: it takes effect at once, or it is \<^verbatim>\<open>P\<close> and the thread waits.
\<close>

definition effect :: "op \<Rightarrow> nat \<Rightarrow> int" where
  "effect x n = (case x of P m \<Rightarrow> - of_bool (m = n) | V m \<Rightarrow> of_bool (m = n) | _ \<Rightarrow> 0)"

lemma effect_Yield [simp]: "effect Yield = (\<lambda>_. 0)"
  by (simp add: effect_def fun_eq_iff)

definition performs :: "op \<Rightarrow> tid \<Rightarrow> sync \<Rightarrow> sync \<Rightarrow> bool" where
  "performs x t k k' \<longleftrightarrow>
     (\<forall>n. value_of n k' = value_of n k + effect x n) \<and> (\<forall>u. pend (pc_of k' u) = (if u = t then [] else pend (pc_of k u)))
       \<and> (\<forall>n. x = P n \<longrightarrow> value_of n k \<noteq> 0)
   \<or> (\<exists>n. x = P n \<and> (\<forall>n. value_of n k' = value_of n k) \<and> (\<forall>u. pend (pc_of k' u) = (if u = t then [Do (P n)] else pend (pc_of k u))))"

lemma performs_same: "same_sems k k' \<Longrightarrow> pend (pc_of k t) = [] \<Longrightarrow> effect x = (\<lambda>_. 0) \<Longrightarrow> performs x t k k'"
  by (auto simp: performs_def same_sems_def effect_def fun_eq_iff split: op.splits)

lemma performs_P:
  assumes "currentThread k = Some t" "Semaphore_P (Sem n) (InP n) InCode t k = Inr k'"
  shows "performs (P n) t k k'"
  using P_effect [OF assms]
  by (auto simp: performs_def same_sems_def value_of_def effect_def pend_def set_pc_def set_sem_def)

lemma performs_lock:
  assumes "currentThread k = Some t" "pend (pc_of k t) = []" "pend p = []" "pend p' = []" "effect x = (\<lambda>_. 0)"
    and "Semaphore_P (LockSem l) p p' t k = Inr k'"
  shows "performs x t k k'"
  using P_effect [OF assms(1,6)] assms(2-4)
  by (intro performs_same [OF _ assms(2,5)]) (auto simp: same_sems_def value_of_def set_pc_def set_sem_def split: if_splits, metis)

lemma do_op_performs:
  assumes cur: "currentThread k = Some t" and pc: "pc_of k t = InCode" and run: "do_op x t k = Inr k'"
  shows "performs x t k k'"
proof -
  have p: "pend (pc_of k t) = []" using pc by (simp add: pend_def)
  show ?thesis
  proof (cases x)
    case (P n)
    then show ?thesis using performs_P [OF cur] run by (simp add: do_op_def)
  next
    case (V n)
    then show ?thesis using run p by (auto simp: do_op_def performs_def effect_def V_effect)
  next
    case (Acquire l)
    then show ?thesis
      using run by (intro performs_lock [OF cur p, of "InAcquire l" "Acquired l"]) (auto simp: pend_def effect_def do_op_def Lock_Acquire_def)
  next
    case (Release l)
    then show ?thesis using run Release_same [of k l] by (intro performs_same [OF _ p]) (auto simp: do_op_def effect_def)
  next
    case (Wait c l)
    let ?k = "Lock_Release l k"
    let ?w = "?k\<lparr>waitinglist := (waitinglist ?k)(c := waitinglist ?k c @ [t])\<rparr>"
    have "Thread_Sleep t (InWait c l) ?w = Inr k'" using Wait run by (simp add: do_op_def Condition_Wait_def Let_def)
    from Sleep_same [OF _ this] have "same_sems (?w\<lparr>pc_of := (pc_of ?w)(t := InWait c l)\<rparr>) k'" using Release_same [of k l] cur by simp
    then have "same_sems k k'" using Release_same [of k l] p by (auto simp: same_sems_def value_of_def pend_def)
    then show ?thesis using Wait by (intro performs_same [OF _ p]) (auto simp: effect_def)
  next
    case (Signal c)
    then show ?thesis using run Signal_same [of k c] by (intro performs_same [OF _ p]) (auto simp: do_op_def effect_def)
  next
    case (Broadcast c)
    then show ?thesis using run Broadcast_same [of k c] by (intro performs_same [OF _ p]) (auto simp: do_op_def effect_def)
  next
    case Yield
    then show ?thesis using run Yield_same [OF cur] by (intro performs_same [OF _ p]) (auto simp: do_op_def effect_def)
  next
    case Finish
    then have "Thread_Sleep t Finished (k\<lparr>threadToBeDestroyed := Some t\<rparr>) = Inr k'"
      using run cur by (simp add: do_op_def Thread_Finish_def)
    from Sleep_same [OF _ this] cur have "same_sems k k'" using p by (auto simp: same_sems_def value_of_def pend_def)
    then show ?thesis using Finish by (intro performs_same [OF _ p]) (auto simp: effect_def)
  qed
qed

lemma performs_none: "performs Yield t k k' \<Longrightarrow> pend (pc_of k t) = [] \<Longrightarrow> same_sems k k'"
  by (auto simp: performs_def same_sems_def effect_def)

lemma resume_performs:
  assumes cur: "currentThread k = Some t" and run: "resume t k = Inr k'"
  shows "(\<exists>n. pc_of k t = InP n \<and> performs (P n) t k k') \<or> pend (pc_of k t) = [] \<and> same_sems k k'"
proof (cases "\<exists>n. pc_of k t = InP n")
  case True
  then show ?thesis using performs_P [OF cur] run by (auto simp: resume_def)
next
  case False
  then have p: "pend (pc_of k t) = []" by (auto simp: pend_def split: pc.splits)
  have lock: "same_sems k k''" if "Semaphore_P (LockSem l) q q' t k = Inr k''" "pend q = []" "pend q' = []" for l q q' k''
    using performs_lock [OF cur p that(2,3) _ that(1), of Yield] performs_none [OF _ p] by simp
  have re: "same_sems k k'" if reacq: "Condition_Reacquire c l t k = Inr k'" for c l
  proof (cases "sem_value (sems k (LockSem l)) = 0")
    case True
    then show ?thesis using reacq by (intro lock [of l "InReacquire c l" InCode]) (auto simp: Condition_Reacquire_def pend_def)
  next
    case False
    then obtain k0 where "Semaphore_P (LockSem l) (InReacquire c l) InCode t k = Inr k0" "k' = k0\<lparr>heldthread := (heldthread k0)(l := Some t)\<rparr>"
      using reacq by (auto simp: Condition_Reacquire_def rbind_Inr_iff)
    then show ?thesis using lock [of l "InReacquire c l" InCode k0] by (auto simp: same_sems_def value_of_def pend_def)
  qed
  have "same_sems k k'"
  proof (cases "pc_of k t")
    case (InAcquire l)
    then show ?thesis using run by (intro lock [of l "InAcquire l" "Acquired l"]) (auto simp: resume_def Lock_Acquire_def pend_def)
  next
    case (Acquired l)
    then show ?thesis using run p by (auto simp: resume_def Lock_Acquire_end_def set_pc_def same_sems_def value_of_def pend_def)
  qed (use run False re in \<open>auto simp: resume_def same_sems_def\<close>)
  then show ?thesis using p by simp
qed

text \<open>
  A step as a move on what the threads have still to do: nothing visible, an action, the start of a thread, or a
  condition.
\<close>

inductive moves :: "test \<Rightarrow> test \<Rightarrow> bool" where
  quiet: "todo s' = todo s \<Longrightarrow> \<forall>n. value_of n (kern s') = value_of n (kern s) \<Longrightarrow> glob s' = glob s \<Longrightarrow> moves s s'"
| operation: "todo s t = Do x # as \<Longrightarrow> todo s' = (todo s)(t := as) \<Longrightarrow> \<forall>n. value_of n (kern s') = value_of n (kern s) + effect x n \<Longrightarrow>
    \<forall>n. x = P n \<longrightarrow> value_of n (kern s) \<noteq> 0 \<Longrightarrow> glob s' = glob s \<Longrightarrow> moves s s'"
| assign: "todo s t = Upd f # as \<Longrightarrow> todo s' = (todo s)(t := as) \<Longrightarrow> \<forall>n. value_of n (kern s') = value_of n (kern s) \<Longrightarrow>
    glob s' = apply_upd f (glob s) \<Longrightarrow> moves s s'"
| new: "todo s t = New u # as \<Longrightarrow> todo s' = (todo s)(t := as) \<Longrightarrow> \<forall>n. value_of n (kern s') = value_of n (kern s) \<Longrightarrow>
    glob s' = glob s \<Longrightarrow> moves s s'"
| fork: "todo s t = Fork u prog # as \<Longrightarrow> todo s' = (todo s)(t := as, u := prog) \<Longrightarrow>
    \<forall>n. value_of n (kern s') = value_of n (kern s) \<Longrightarrow> glob s' = glob s \<Longrightarrow> moves s s'"
| branch: "todo s t = When b bs # as \<Longrightarrow> todo s' = (todo s)(t := if eval_cond b (glob s) then bs @ as else as) \<Longrightarrow>
    \<forall>n. value_of n (kern s') = value_of n (kern s) \<Longrightarrow> glob s' = glob s \<Longrightarrow> moves s s'"

lemma quiet_same: "same_sems (kern s) k \<Longrightarrow> moves s (s\<lparr>kern := k\<rparr>)"
  by (rule moves.quiet) (auto simp: todo_def same_sems_def)

lemma moves_performs:
  assumes "performs x t (kern s) k" "todo s t = Do x # as"
  shows "moves s (set_code t as (s\<lparr>kern := k\<rparr>))"
proof -
  let ?s = "set_code t as (s\<lparr>kern := k\<rparr>)"
  have s: "kern ?s = k" "glob ?s = glob s" "code ?s = (code s)(t := as)" by (simp_all add: set_code_def)
  from assms(1) consider
      (now) "\<forall>n. value_of n k = value_of n (kern s) + effect x n" "\<forall>u. pend (pc_of k u) = (if u = t then [] else pend (pc_of (kern s) u))"
        "\<forall>n. x = P n \<longrightarrow> value_of n (kern s) \<noteq> 0"
    | (wait) n where "x = P n" "\<forall>n. value_of n k = value_of n (kern s)"
        "\<forall>u. pend (pc_of k u) = (if u = t then [Do (P n)] else pend (pc_of (kern s) u))"
    unfolding performs_def by blast
  then show ?thesis
  proof cases
    case now
    then have "todo ?s = (todo s)(t := as)" by (auto simp: todo_def fun_eq_iff s)
    from moves.operation [OF assms(2) this] now show ?thesis by (simp add: s)
  next
    case wait
    then have "todo ?s = todo s" using assms(2) by (auto simp: todo_def fun_eq_iff s)
    from moves.quiet [OF this] wait show ?thesis by (simp add: s)
  qed
qed

lemma Thread_same: "Thread_Thread u k = Inr k' \<Longrightarrow> same_sems k k'"
  by (auto simp: Thread_Thread_def GlobalThreadManager_AddNewThreadtoList_def Let_def same_sems_def value_of_def
      dest!: Destruct_frame split: option.splits prod.splits if_splits)

lemma set_code_kern: "set_code t as (s\<lparr>kern := k\<rparr>) = (set_code t as s)\<lparr>kern := k\<rparr>"
  by (simp add: set_code_def)

lemma do_act_moves:
  assumes cur: "currentThread (kern s) = Some t" and pc: "pc_of (kern s) t = InCode" and run: "do_act t s = Inr s'"
  shows "moves s s'"
proof (cases "code s t")
  case Nil
  then obtain k where k: "do_op Finish t (kern s) = Inr k" "s' = s\<lparr>kern := k\<rparr>" using run by (auto simp: do_act_def rbind_Inr_iff)
  have "performs Finish t (kern s) k" using do_op_performs [OF cur pc k(1)] .
  then have "same_sems (kern s) k" using pc by (auto simp: performs_def same_sems_def effect_def pend_def)
  then show ?thesis using quiet_same k(2) by simp
next
  case (Cons a as)
  have todo: "todo s t = a # as" using Cons pc by (simp add: todo_def pend_def)
  have upd: "todo (set_code t bs s) = (todo s)(t := bs)" for bs using pc by (auto simp: todo_def set_code_def pend_def fun_eq_iff)
  show ?thesis
  proof (cases a)
    case (Do x)
    then obtain k where "do_op x t (kern s) = Inr k" "s' = set_code t as (s\<lparr>kern := k\<rparr>)"
      using run Cons by (auto simp: do_act_def rbind_Inr_iff set_code_def)
    then show ?thesis using moves_performs [OF do_op_performs [OF cur pc]] todo Do by simp
  next
    case (Upd f)
    then have "s' = set_code t as s\<lparr>glob := apply_upd f (glob s)\<rparr>" using run Cons by (simp add: do_act_def set_code_def)
    then show ?thesis using todo Upd upd [of as] by (intro moves.assign [of s t f as]) (simp_all, simp_all add: set_code_def)
  next
    case (When b bs)
    then have "s' = set_code t (if eval_cond b (glob s) then bs @ as else as) s" using run Cons by (auto simp: do_act_def set_code_def)
    then show ?thesis using todo When upd by (intro moves.branch [of s t b bs as]) (auto simp: set_code_def)
  next
    case (New u)
    then obtain k where k: "Thread_Thread u (kern s) = Inr k" "s' = (set_code t as s)\<lparr>kern := k\<rparr>"
      using run Cons by (auto simp: do_act_def rbind_Inr_iff set_code_def)
    have "todo s' = (todo s)(t := as)" using Thread_same [OF k(1)] upd [of as] k(2) by (auto simp: todo_def same_sems_def set_code_def fun_eq_iff)
    then show ?thesis using Thread_same [OF k(1)] todo New k(2) by (intro moves.new [of s t u as]) (auto simp: same_sems_def set_code_def)
  next
    case (Fork u prog)
    then have s': "s' = set_code u prog ((set_code t as s)\<lparr>kern := Thread_Fork u (kern s)\<rparr>)" using run Cons by (simp add: do_act_def set_code_def)
    have "todo s' = (todo s)(t := as, u := prog)"
      using pc unfolding s' by (auto simp: todo_def set_code_def pend_def fun_eq_iff Thread_Fork_def Scheduler_ReadyToRun_def)
    then show ?thesis
      using todo Fork by (intro moves.fork [of s t u prog as]) (auto simp: s' set_code_def value_of_def Thread_Fork_def Scheduler_ReadyToRun_def)
  qed
qed

lemma run1_moves:
  assumes "run1 s = Inr s'"
  shows "moves s s'"
proof (cases "currentThread (kern s)")
  case None
  then show ?thesis using assms quiet_same Sleep_wake_same by (auto simp: run1_def rbind_Inr_iff split: if_splits)
next
  case (Some t)
  show ?thesis
  proof (cases "pc_of (kern s) t = InCode")
    case True
    then show ?thesis using assms Some do_act_moves by (simp add: run1_def)
  next
    case False
    then obtain k where k: "resume t (kern s) = Inr k" "s' = s\<lparr>kern := k\<rparr>" using assms Some by (auto simp: run1_def rbind_Inr_iff)
    from resume_performs [OF Some k(1)] show ?thesis
    proof (elim disjE exE conjE)
      fix n assume "pc_of (kern s) t = InP n" "performs (P n) t (kern s) k"
      then show ?thesis using moves_performs [of "P n" t s k "code s t"] k(2) by (simp add: todo_def pend_def set_code_def)
    qed (use k quiet_same in auto)
  qed
qed

lemma test_step_moves: "test_step s s' \<Longrightarrow> moves s s'"
  by (erule test_stepE) (auto simp: preempt1_def rbind_Inr_iff run1_moves split: option.splits if_splits intro: quiet_same Yield_same)

subsection \<open>Ledgers\<close>

text \<open>
  The rise of \<open>w\<close> (what the rest of a program still owes) that each action has to bring so that the sum of a semaphore,
  \<open>c\<close> times the number of items, and what all threads owe stays the same.
\<close>

fun owed :: "nat \<Rightarrow> int \<Rightarrow> act \<Rightarrow> int" where
  "owed m c (Do x) = - effect x m"
| "owed m c (Upd (AddItem k)) = - c * k"
| "owed m c _ = 0"

fun balanced :: "(act list \<Rightarrow> int) \<Rightarrow> nat \<Rightarrow> int \<Rightarrow> act list \<Rightarrow> bool" where
  "balanced w m c [] = True"
| "balanced w m c (a # as) = (w as = w (a # as) + owed m c a \<and> balanced w m c as)"

text \<open>The programs of the main thread: they create and start threads and yield.\<close>

fun starts :: "act \<Rightarrow> (tid \<times> act list) list" where
  "starts (Fork u prog) = [(u, prog)]"
| "starts _ = []"

fun launches :: "act \<Rightarrow> bool" where
  "launches (New u) = True"
| "launches (Fork u prog) = True"
| "launches (Do x) = (x = Yield)"
| "launches _ = False"

definition all_starts :: "act list \<Rightarrow> (tid \<times> act list) list" where
  "all_starts as = concat (map starts as)"

fun plain :: "act \<Rightarrow> bool" where
  "plain (Do x) = True"
| "plain (Upd x) = True"
| "plain _ = False"

text \<open>A program that starts threads only with programs in \<open>progs\<close>, each thread once.\<close>

definition launcher :: "act list set \<Rightarrow> act list \<Rightarrow> bool" where
  "launcher progs as \<longleftrightarrow> list_all launches as \<and> distinct (map fst (all_starts as)) \<and> 0 \<notin> fst ` set (all_starts as)
     \<and> snd ` set (all_starts as) \<subseteq> progs"

definition ledger_inv :: "(act list \<Rightarrow> int) \<Rightarrow> nat \<Rightarrow> int \<Rightarrow> act list set \<Rightarrow> tid set \<Rightarrow> int \<Rightarrow> test \<Rightarrow> bool" where
  "ledger_inv w m c progs T sum0 s \<longleftrightarrow> finite T \<and> 0 \<in> T
     \<and> (\<forall>t. t \<noteq> 0 \<longrightarrow> balanced w m c (todo s t) \<and> list_all plain (todo s t))
     \<and> launcher progs (todo s 0) \<and> (\<forall>u\<in>fst ` set (all_starts (todo s 0)). u \<in> T \<and> todo s u = [])
     \<and> (\<forall>t. t \<notin> T \<longrightarrow> todo s t = [])
     \<and> 0 \<le> value_of m (kern s) \<and> value_of m (kern s) + c * itemnum (glob s) + (\<Sum>t\<in>T. w (todo s t)) = sum0"

lemma all_starts_Cons [simp]: "all_starts (a # as) = starts a @ all_starts as" "all_starts [] = []"
  by (simp_all add: all_starts_def)

lemma sum_move: "finite T \<Longrightarrow> t \<in> T \<Longrightarrow> (\<Sum>u\<in>T. w ((f(t := as)) u)) = (\<Sum>u\<in>T. w (f u)) + (w as - w (f t))" for w :: "'a \<Rightarrow> int"
proof -
  assume T: "finite T" "t \<in> T"
  then have "(\<Sum>u\<in>T. w ((f(t := as)) u)) = w as + (\<Sum>u\<in>T - {t}. w ((f(t := as)) u))" by (simp add: sum.remove)
  also have "(\<Sum>u\<in>T - {t}. w ((f(t := as)) u)) = (\<Sum>u\<in>T - {t}. w (f u))" by (intro sum.cong) auto
  finally show ?thesis using T by (simp add: sum.remove)
qed

locale ledger =
  fixes w :: "act list \<Rightarrow> int" and m :: nat and c :: int and progs :: "act list set"
  assumes settled: "w [] = 0"
    and not_owed: "launches a \<Longrightarrow> w (a # as) = w as"
    and programs: "prog \<in> progs \<Longrightarrow> balanced w m c prog \<and> w prog = 0 \<and> list_all plain prog"
begin

abbreviation books :: "tid set \<Rightarrow> int \<Rightarrow> test \<Rightarrow> bool" where
  "books \<equiv> ledger_inv w m c progs"

lemma launches_owed: "launches a \<Longrightarrow> owed m c a = 0"
  by (cases a) auto

lemma owed_upd: "c * itemnum (apply_upd f g) = c * itemnum g - owed m c (Upd f)"
  by (cases f) (simp_all add: init_flag_def algebra_simps)

text \<open>A thread does its next action.\<close>

lemma act_books:
  assumes inv: "books T sum0 s" and nxt: "todo s t = a # as" and new: "todo s' = (todo s)(t := as)" and no: "starts a = []"
    and nonneg: "0 \<le> value_of m (kern s')"
    and sum: "value_of m (kern s') + c * itemnum (glob s') = value_of m (kern s) + c * itemnum (glob s) - owed m c a"
  shows "books T sum0 s'"
proof -
  have T: "finite T" "t \<in> T" using inv nxt by (auto simp: ledger_inv_def)
  have "w as = w (a # as) + owed m c a"
  proof (cases "t = 0")
    case True
    then have "launches a" using inv nxt by (simp add: ledger_inv_def launcher_def)
    then show ?thesis using not_owed launches_owed by simp
  next
    case False
    then have "balanced w m c (todo s t)" using inv by (simp add: ledger_inv_def)
    then show ?thesis by (simp add: nxt)
  qed
  then have "(\<Sum>u\<in>T. w (todo s' u)) = (\<Sum>u\<in>T. w (todo s u)) + owed m c a"
    unfolding new sum_move [OF T] by (simp add: nxt)
  then have "value_of m (kern s') + c * itemnum (glob s') + (\<Sum>u\<in>T. w (todo s' u)) = sum0"
    using inv sum by (simp add: ledger_inv_def)
  moreover have "launcher progs (todo s' 0) \<and> all_starts (todo s' 0) = all_starts (todo s 0)"
    using inv nxt no unfolding new by (cases "t = 0") (auto simp: ledger_inv_def launcher_def)
  moreover have "balanced w m c (todo s' u) \<and> list_all plain (todo s' u)" if "u \<noteq> 0" for u
    using inv nxt that unfolding new by (cases "u = t") (auto simp: ledger_inv_def dest: spec [of _ t])
  moreover have "v \<in> T \<and> todo s' v = []" if "v \<in> fst ` set (all_starts (todo s 0))" for v
    using inv nxt that unfolding new by (cases "v = t") (auto simp: ledger_inv_def)
  moreover have "todo s' v = []" if "v \<notin> T" for v using inv T that unfolding new by (auto simp: ledger_inv_def)
  ultimately show ?thesis using nonneg T inv unfolding ledger_inv_def by metis
qed

lemma fork_books:
  assumes inv: "books T sum0 s" and nxt: "todo s t = Fork u prog # as" and new: "todo s' = (todo s)(t := as, u := prog)"
    and same: "value_of m (kern s') = value_of m (kern s)" "glob s' = glob s"
  shows "books T sum0 s'"
proof -
  have t: "t = 0" using inv nxt by (auto simp: ledger_inv_def list_all_def split: if_splits)
  have main: "launcher progs (Fork u prog # as)" using inv nxt t by (simp add: ledger_inv_def)
  then have u: "u \<noteq> 0" "u \<notin> fst ` set (all_starts as)" "prog \<in> progs" "launcher progs as" by (auto simp: launcher_def)
  have T: "finite T" "0 \<in> T" "u \<in> T" "todo s u = []" using inv nxt t by (auto simp: ledger_inv_def)
  have "(\<Sum>v\<in>T. w (todo s' v)) = (\<Sum>v\<in>T. w (todo s v))"
    unfolding new sum_move [OF T(1,3)] sum_move [OF T(1), of t w "todo s"] t sum_move [OF T(1,2)]
    using T u(1) nxt t settled programs [OF u(3)] not_owed [of "Fork u prog" as] by simp
  then have "value_of m (kern s') + c * itemnum (glob s') + (\<Sum>u\<in>T. w (todo s' u)) = sum0"
    using inv same by (simp add: ledger_inv_def)
  moreover have "balanced w m c (todo s' v) \<and> list_all plain (todo s' v)" if "v \<noteq> 0" for v
    using inv programs [OF u(3)] t that unfolding new by (simp add: ledger_inv_def)
  moreover have "todo s' 0 = as" using t u(1) unfolding new by simp
  moreover have "v \<in> T \<and> todo s' v = []" if "v \<in> fst ` set (all_starts as)" for v
  proof -
    have "v \<in> fst ` set (all_starts (todo s 0))" using that nxt t by simp
    then have "v \<in> T \<and> todo s v = []" using inv unfolding ledger_inv_def by blast
    moreover have "v \<noteq> 0" "v \<noteq> u" using main that by (auto simp: launcher_def)
    ultimately show ?thesis using t unfolding new by simp
  qed
  moreover have "todo s' v = []" if "v \<notin> T" for v using inv T that t unfolding new by (auto simp: ledger_inv_def)
  ultimately show ?thesis using inv u(4) T same unfolding ledger_inv_def by metis
qed

lemma moves_books:
  assumes inv: "books T sum0 s" and step: "moves s s'"
  shows "books T sum0 s'"
  using step
proof cases
  case quiet
  then show ?thesis using inv by (simp add: ledger_inv_def)
next
  case (operation t x as)
  have "0 \<le> value_of m (kern s) + effect x m"
    using inv operation(4) by (auto simp: ledger_inv_def effect_def split: op.splits)
  then show ?thesis using operation by (intro act_books [OF inv operation(1,2)]) auto
next
  case (assign t f as)
  then show ?thesis using inv owed_upd [of f "glob s"] by (intro act_books [OF inv assign(1,2)]) (simp_all add: ledger_inv_def)
next
  case (new t u as)
  then show ?thesis using inv by (intro act_books [OF inv new(1,2)]) (auto simp: ledger_inv_def)
next
  case (fork t u prog as)
  then show ?thesis by (intro fork_books [OF inv fork(1,2)]) auto
next
  case (branch t b bs as)
  have "list_all plain (todo s t) \<or> list_all launches (todo s t)" using inv by (cases "t = 0") (simp_all add: ledger_inv_def launcher_def)
  then show ?thesis using branch(1) by simp
qed

text \<open>From the start on, the semaphore, the items and what the threads owe add up to the initial value.\<close>

lemma books_start:
  assumes "launcher progs prog"
  shows "books (insert 0 (fst ` set (all_starts prog))) (int (initial_sems m)) (test_start prog)"
proof -
  let ?s = "test_start prog" and ?T = "insert 0 (fst ` set (all_starts prog))"
  have s: "kern ?s = initial initial_sems 0" "glob ?s = \<lparr>itemnum = 0, countnum = 0, barrier_flag = replicate 4 0\<rparr>"
    "code ?s = (\<lambda>_. [])(0 := prog)" by (simp_all add: test_start_def)
  have todo: "todo ?s = (\<lambda>_. [])(0 := prog)" by (auto simp: todo_def s initial_def pend_def fun_eq_iff)
  have "w as = 0" if "list_all launches as" for as using that by (induction as) (auto simp: settled not_owed)
  then have "w prog = 0" using assms by (simp add: launcher_def)
  then have "(\<Sum>t\<in>?T. w (todo ?s t)) = 0" by (auto simp: todo settled intro!: sum.neutral)
  moreover have "value_of m (kern ?s) = int (initial_sems m)" by (simp add: value_of_def s initial_def Semaphore_Semaphore_def)
  moreover have "0 \<notin> fst ` set (all_starts prog)" using assms by (simp add: launcher_def)
  ultimately show ?thesis using assms unfolding ledger_inv_def todo by (auto simp: s)
qed

lemma books_reachable:
  assumes "launcher progs prog" "test_step\<^sup>*\<^sup>* (test_start prog) s"
  shows "books (insert 0 (fst ` set (all_starts prog))) (int (initial_sems m)) s"
  using assms(2) by (induction rule: rtranclp_induct) (auto intro: books_start [OF assms(1)] moves_books test_step_moves)

lemma conserved:
  assumes "launcher progs prog" "test_step\<^sup>*\<^sup>* (test_start prog) s"
  shows "value_of m (kern s) + c * itemnum (glob s) + (\<Sum>t\<in>insert 0 (fst ` set (all_starts prog)). w (todo s t)) = int (initial_sems m)"
    and "0 \<le> value_of m (kern s)" and "t \<notin> insert 0 (fst ` set (all_starts prog)) \<Longrightarrow> todo s t = []"
  using books_reachable [OF assms] by (auto simp: ledger_inv_def)

end

text \<open>A semaphore that starts at 1 and is not traded for items is held by one thread at a time.\<close>

locale exclusion = ledger w m 0 progs for w :: "act list \<Rightarrow> int" and m :: nat and progs :: "act list set" +
  assumes nonneg: "0 \<le> w as" and one: "initial_sems m = 1"
begin

lemma at_most_one:
  assumes prog: "launcher progs prog" "test_step\<^sup>*\<^sup>* (test_start prog) s" and hold: "w (todo s t) = 1" "w (todo s u) = 1"
  shows "t = u"
proof (rule ccontr)
  assume ne: "t \<noteq> u"
  let ?T = "insert 0 (fst ` set (all_starts prog))"
  have T: "t \<in> ?T" "u \<in> ?T" using conserved(3) [OF prog] hold settled by force+
  have "(\<Sum>v\<in>{t, u}. w (todo s v)) \<le> (\<Sum>v\<in>?T. w (todo s v))" using T nonneg by (intro sum_mono2) auto
  then show False using conserved(1,2) [OF prog] hold ne one by simp
qed

lemma held_zero:
  assumes prog: "launcher progs prog" "test_step\<^sup>*\<^sup>* (test_start prog) s" and hold: "w (todo s t) = 1"
  shows "value_of m (kern s) = 0"
proof -
  let ?T = "insert 0 (fst ` set (all_starts prog))"
  have T: "t \<in> ?T" using conserved(3) [OF prog] hold settled by force
  have "(\<Sum>v\<in>{t}. w (todo s v)) \<le> (\<Sum>v\<in>?T. w (todo s v))" using T nonneg by (intro sum_mono2) auto
  then show ?thesis using conserved(1,2) [OF prog] hold one by simp
qed

end

subsection \<open>The bounded buffer\<close>

text \<open>
  A program holds a semaphore if its next operation on it is \<^verbatim>\<open>V\<close>.  Of the slots of the buffer, a thread has an empty
  one between \<^verbatim>\<open>P\<close> and the production, and between the consumption and \<^verbatim>\<open>V\<close>, and a full one likewise.
\<close>

fun holds :: "nat \<Rightarrow> act list \<Rightarrow> int" where
  "holds m [] = 0"
| "holds m (a # as) = (if a = Do (P m) then 0 else if a = Do (V m) then 1 else holds m as)"

fun has_slot :: "bool \<Rightarrow> act list \<Rightarrow> int" where
  "has_slot e [] = 0"
| "has_slot e (a # as) =
     (if a = Do (P empty_sem) \<or> a = Do (P full_sem) then 0
      else if a = Do (V empty_sem) \<or> a = Upd (AddItem 1) then of_bool (e)
      else if a = Do (V full_sem) \<or> a = Upd (AddItem (- 1)) then of_bool (\<not> e)
      else has_slot e as)"

definition buffer_programs :: "act list set" where
  "buffer_programs = {Producer_semaphore, Consumer_semaphore}"

definition philosophers :: "act list set" where
  "philosophers = {Philosopher 0, Philosopher 1, Philosopher 2, Philosopher 3}"

lemma holds_launches: "launches a \<Longrightarrow> holds m (a # as) = holds m as"
  by (cases a) auto

lemma has_slot_launches: "launches a \<Longrightarrow> has_slot e (a # as) = has_slot e as"
  by (cases a) auto

lemma holds_bounds: "0 \<le> holds m as" "holds m as \<le> 1"
  by (induction as) auto

lemma has_slot_nonneg: "0 \<le> has_slot e as"
  by (induction as) auto

definition settles :: "(act list \<Rightarrow> int) \<Rightarrow> nat \<Rightarrow> int \<Rightarrow> act list \<Rightarrow> bool" where
  "settles w m c prog \<longleftrightarrow> balanced w m c prog \<and> w prog = 0 \<and> list_all plain prog"

lemma buffer_settles:
  "settles (has_slot True) empty_sem 1 Producer_semaphore" "settles (has_slot True) empty_sem 1 Consumer_semaphore"
  "settles (has_slot False) full_sem (- 1) Producer_semaphore" "settles (has_slot False) full_sem (- 1) Consumer_semaphore"
  "settles (holds mutex) mutex 0 Producer_semaphore" "settles (holds mutex) mutex 0 Consumer_semaphore"
  by code_simp+

interpretation empty_slots: ledger "has_slot True" empty_sem 1 buffer_programs
  using buffer_settles by unfold_locales (auto simp: buffer_programs_def settles_def has_slot_launches)

interpretation full_slots: ledger "has_slot False" full_sem "- 1" buffer_programs
  using buffer_settles by unfold_locales (auto simp: buffer_programs_def settles_def has_slot_launches)

interpretation buffer_mutex: exclusion "holds mutex" mutex buffer_programs
  using buffer_settles by unfold_locales (auto simp: buffer_programs_def settles_def holds_launches holds_bounds initial_sems_def)

lemma chopstick_settles: "list_all (\<lambda>i. list_all (\<lambda>j. settles (holds (chopstick i)) (chopstick i) 0 (Philosopher j)) [0, 1, 2, 3]) [0, 1, 2, 3]"
  by code_simp

lemma chopstick_exclusion:
  assumes "i < 4"
  shows "exclusion (holds (chopstick i)) (chopstick i) philosophers"
proof -
  have i: "i \<in> {0, 1, 2, 3}" using assms by auto
  then have one: "initial_sems (chopstick i) = 1" by (auto simp: initial_sems_def chopstick_def)
  have "settles (holds (chopstick i)) (chopstick i) 0 prog" if "prog \<in> philosophers" for prog
    using i that chopstick_settles by (auto simp: philosophers_def)
  then show ?thesis using one by unfold_locales (auto simp: settles_def holds_launches holds_bounds)
qed

lemma ThreadTest2_launcher: "launcher philosophers (ThreadTest 2)"
  by (simp add: ThreadTest_def ThreadTest2_def launcher_def philosophers_def all_starts_def list_all_iff)

subsection \<open>Runs\<close>

lemma run_schedule_steps: "run_schedule bs s = Inr s' \<Longrightarrow> test_step\<^sup>*\<^sup>* s s'"
proof (induction bs arbitrary: s)
  case (Cons b bs)
  then obtain s1 where "(if b then preempt1 s else run1 s) = Inr s1" "run_schedule bs s1 = Inr s'" by (auto simp: rbind_Inr_iff)
  then have "test_step s s1" "test_step\<^sup>*\<^sup>* s1 s'" using Cons.IH by (auto intro: test_step.intros split: if_splits)
  then show ?case by (rule converse_rtranclp_into_rtranclp)
qed simp

definition ends_in :: "(test \<Rightarrow> bool) \<Rightarrow> test result \<Rightarrow> bool" where
  "ends_in Q r = (case r of Inl e \<Rightarrow> False | Inr s \<Rightarrow> Q s)"

lemma ends_in_reaches: "ends_in Q (run_schedule bs s) \<Longrightarrow> \<exists>s'. run_schedule bs s = Inr s' \<and> test_step\<^sup>*\<^sup>* s s' \<and> Q s'"
  by (auto simp: ends_in_def run_schedule_steps split: sum.splits)

abbreviation yields :: "nat \<Rightarrow> act list" where
  "yields n \<equiv> replicate n (Do Yield)"

lemma yields_split: "n \<le> 10000 \<Longrightarrow> yields 10000 = yields n @ yields (10000 - n)"
  by (metis le_add_diff_inverse replicate_add)

text \<open>The timer interrupts the first philosopher after \<^verbatim>\<open>mutex->V()\<close> of its first round.\<close>

definition deadlock_schedule :: "bool list" where
  "deadlock_schedule = replicate 32 False @ [True] @ replicate 7 False"

definition asleep_in_P :: "test \<Rightarrow> tid \<Rightarrow> bool" where
  "asleep_in_P s t = (case pc_of (kern s) t of InP n \<Rightarrow> True | _ \<Rightarrow> False)"

text \<open>The main thread alone can run, and it only yields.\<close>

definition main_alone :: "test \<Rightarrow> bool" where
  "main_alone s \<longleftrightarrow> (currentThread (kern s) = Some 0 \<and> pc_of (kern s) 0 = InCode \<or> currentThread (kern s) = None)
     \<and> readyList (kern s) = [] \<and> list_all (\<lambda>a. a = Do Yield) (code s 0) \<and> list_all (asleep_in_P s) [1, 2, 3, 4]"

lemma philosophers_run:
  "ends_in (\<lambda>s. currentThread (kern s) = Some 0 \<and> readyList (kern s) = [] \<and> pc_of (kern s) 0 = InCode \<and> code s 0 = rest
      \<and> list_all (asleep_in_P s) [1, 2, 3, 4] \<and> holds (chopstick 0) (todo s 1) = 1)
    (run_schedule deadlock_schedule (test_start ([New 1, New 2, New 3, New 4, Fork 1 (Philosopher 0), Fork 2 (Philosopher 1),
      Fork 3 (Philosopher 2), Fork 4 (Philosopher 3)] @ yields 6 @ rest)))"
  by code_simp

definition underflow_schedule :: "bool list" where
  "underflow_schedule = map (\<lambda>k. k = 1)
     [0,0,0,0,0,0,0,0,0,0, 0,0,1,1,0,0,0,0,1,1, 0,0,0,0,1,1,0,0,0,0, 0,0,1,0,0,0,1,0,0,0, 1,0,0,1,1,0,0,0,0,1,
      1,0,0,0,1,1,0,0,0,1, 1,0,0,0,0,1,1,0,0 :: nat]"

text \<open>Rules that run a program step by step.\<close>

lemma run_unfold:
  "repeat_acts (numeral k) as = as @ repeat_acts (pred_numeral k) as" "yields (numeral k) = Do Yield # yields (pred_numeral k)"
  "add_loop t (replicate (numeral k) None) i = Some (Some t # replicate (pred_numeral k) None, i)"
  "run_schedule (replicate (numeral k) b) s = rbind (if b then preempt1 s else run1 s) (run_schedule (replicate (pred_numeral k) b))"
  by (simp_all add: numeral_eq_Suc)

lemmas run_defs = ends_in_def test_start_def initial_def initial_sems_def Semaphore_Semaphore_def Let_def
  run1_def preempt1_def do_act_def set_code_def do_op_def resume_def set_sem_def set_pc_def Semaphore_P_def Semaphore_V_def
  Lock_Acquire_def Lock_Acquire_end_def Lock_Release_def Lock_isHeldByCurrentThread_def
  Condition_Wait_def Condition_Reacquire_def Condition_Signal_def Condition_Broadcast.simps
  Thread_Thread_def Thread_Fork_def GlobalThreadManager_AddNewThreadtoList_def Thread_Sleep_def Thread_Yield_def
  Thread_Finish_def Sleep_wake_def Scheduler_FindNextToRun_def Scheduler_Run_def Scheduler_ReadyToRun_def

lemma consumers_run:
  "ends_in (\<lambda>s. itemnum (glob s) = - 1) (run_schedule underflow_schedule (test_start ([New 1, New 2, New 3, New 4,
      Fork 2 Consumer_cond, Fork 1 Producer_cond, Fork 4 Producer_cond, Fork 3 Consumer_cond] @ yields 22 @ rest)))"
  by (simp add: underflow_schedule_def Consumer_cond_def Producer_cond_def run_unfold run_defs)

lemma barrier_run:
  "ends_in (\<lambda>s. code s 4 = [Upd (SetFlag 3 0), Do Yield, Do (Release barrier_lock), Do Yield, Do (Broadcast barrier_cond)]
      \<and> Upd (SetFlag 1 1) \<in> set (code s 2) \<and> Upd (SetFlag 2 1) \<in> set (code s 3)) (run_schedule (replicate 112 False) (test_start
     ([Upd InitFlag, New 1, New 2, New 3, New 4, Fork 1 (barrier_function 0), Fork 2 (barrier_function 1), Fork 3 (barrier_function 2),
       Fork 4 (barrier_function 3)] @ yields 24 @ rest)))"
proof -
  have four: "replicate 4 (0 :: int) = [0, 0, 0, 0]" "[0..<4] = [0, 1, 2, 3]" by (simp_all add: numeral_eq_Suc)
  show ?thesis by (simp add: barrier_function_def four run_unfold run_defs init_flag_def all_thread_ready_def)
qed

subsection \<open>What the tests show\<close>

text \<open>Threads that sleep inside \<^verbatim>\<open>P\<close> now and in all that can follow.\<close>

definition asleep_forever :: "tid list \<Rightarrow> test \<Rightarrow> bool" where
  "asleep_forever ts s \<longleftrightarrow> (\<forall>s'. test_step\<^sup>*\<^sup>* s s' \<longrightarrow> list_all (asleep_in_P s') ts)"

lemma main_alone_step:
  assumes alone: "main_alone s" and step: "test_step s s'"
  shows "main_alone s'"
proof -
  have cur: "currentThread (kern s) = Some 0" "pc_of (kern s) 0 = InCode" "readyList (kern s) = []"
    using step alone by (auto elim!: test_stepE simp: main_alone_def run1_def preempt1_def resume_def split: if_splits)
  from step show ?thesis
  proof cases
    case timer
    then show ?thesis using alone cur by (simp add: preempt1_def Thread_Yield_wake)
  next
    case go
    then have run: "do_act 0 s = Inr s'" using cur by (simp add: run1_def)
    show ?thesis
    proof (cases "code s 0")
      case Nil
      then show ?thesis
        using run alone cur
        by (auto simp: main_alone_def asleep_in_P_def do_act_def do_op_def Thread_Finish_def Thread_Sleep_def Scheduler_FindNextToRun_def)
    next
      case (Cons a as)
      then have "a = Do Yield" using alone by (simp add: main_alone_def)
      then show ?thesis
        using run alone cur Cons by (auto simp: main_alone_def asleep_in_P_def do_act_def set_code_def do_op_def Thread_Yield_wake)
    qed
  qed
qed

lemma main_alone_steps: "test_step\<^sup>*\<^sup>* s s' \<Longrightarrow> main_alone s \<Longrightarrow> main_alone s'"
  by (induction rule: rtranclp_induct) (auto intro: main_alone_step)

lemma main_alone_forever: "main_alone s \<Longrightarrow> asleep_forever [1, 2, 3, 4] s"
  using main_alone_steps [of s] unfolding asleep_forever_def main_alone_def [of _] by blast

lemma ThreadTest2_split: "ThreadTest 2 = [New 1, New 2, New 3, New 4, Fork 1 (Philosopher 0), Fork 2 (Philosopher 1),
      Fork 3 (Philosopher 2), Fork 4 (Philosopher 3)] @ yields 6 @ yields 9994"
  using yields_split [of 6] by (simp add: ThreadTest_def ThreadTest2_def)

text \<open>
  (C9) With producers and consumers in any number and any interleaving, the buffer never holds fewer than 0 or more
  than 10 items, and at most one thread is between taking and releasing \<^verbatim>\<open>mutex\<close>.
\<close>

theorem buffer_bounds:
  assumes "launcher buffer_programs prog" "test_step\<^sup>*\<^sup>* (test_start prog) s"
  shows "0 \<le> itemnum (glob s) \<and> itemnum (glob s) \<le> 10
    \<and> (holds mutex (todo s t) = 1 \<and> holds mutex (todo s u) = 1 \<longrightarrow> t = u)"
proof -
  let ?T = "insert 0 (fst ` set (all_starts prog))"
  have slots: "0 \<le> (\<Sum>t\<in>?T. has_slot e (todo s t))" for e by (intro sum_nonneg has_slot_nonneg)
  have "itemnum (glob s) \<le> 10"
    using empty_slots.conserved(1,2) [OF assms] slots [of True] by (simp add: initial_sems_def)
  moreover have "0 \<le> itemnum (glob s)"
    using full_slots.conserved(1,2) [OF assms] slots [of False] by (simp add: initial_sems_def)
  ultimately show ?thesis using buffer_mutex.at_most_one [OF assms] by blast
qed

definition example_buffer :: "act list" where
  "example_buffer = [New 1, New 2, Fork 1 Producer_semaphore, Fork 2 Consumer_semaphore] @ yields 4"

lemma buffer_run: "ends_in (\<lambda>s. itemnum (glob s) = 1 \<and> holds mutex (todo s 1) = 1) (run_schedule (replicate 13 False) (test_start example_buffer))"
  by (simp add: example_buffer_def Producer_semaphore_def Consumer_semaphore_def run_unfold run_defs todo_def pend_def)

theorem buffer_bounds_witness:
  "\<exists>s. test_step\<^sup>*\<^sup>* (test_start example_buffer) s \<and> itemnum (glob s) = 1 \<and> 1 \<le> (10 :: int) \<and> 0 \<le> itemnum (glob s)"
proof -
  have "launcher buffer_programs example_buffer" by (simp add: launcher_def buffer_programs_def example_buffer_def run_unfold)
  moreover obtain s where "test_step\<^sup>*\<^sup>* (test_start example_buffer) s" "itemnum (glob s) = 1"
    using ends_in_reaches [OF buffer_run] by blast
  ultimately show ?thesis using buffer_bounds [of example_buffer s] by auto
qed

text \<open>
  (C26) Whatever the schedule of the philosophers, no two of them have the same chopstick, and the semaphore of a
  chopstick that one of them has is 0.
\<close>

theorem chopsticks_exclusive:
  assumes "test_step\<^sup>*\<^sup>* (test_start (ThreadTest 2)) s" "i < 4"
    "holds (chopstick i) (todo s t) = 1" "holds (chopstick i) (todo s u) = 1"
  shows "t = u \<and> value_of (chopstick i) (kern s) = 0"
  using exclusion.at_most_one [OF chopstick_exclusion [OF assms(2)] ThreadTest2_launcher assms(1,3,4)]
    exclusion.held_zero [OF chopstick_exclusion [OF assms(2)] ThreadTest2_launcher assms(1,3)] by simp

theorem chopsticks_exclusive_witness:
  "\<exists>s. test_step\<^sup>*\<^sup>* (test_start (ThreadTest 2)) s \<and> holds (chopstick 0) (todo s 1) = 1 \<and> value_of (chopstick 0) (kern s) = 0"
proof -
  obtain s where "test_step\<^sup>*\<^sup>* (test_start (ThreadTest 2)) s" "holds (chopstick 0) (todo s 1) = 1"
    unfolding ThreadTest2_split using ends_in_reaches [OF philosophers_run [of "yields 9994"]] by blast
  then show ?thesis using chopsticks_exclusive [of s 0 1 1] by auto
qed


text \<open>
  (C34) A consumer of the condition variable version may take an item that is not there: it tests \<^verbatim>\<open>itemnum\<close> with
  \<^verbatim>\<open>if\<close> before it waits and not again after it is woken, and one item wakes all.
\<close>

theorem consumer_underflow:
  "\<exists>s. test_step\<^sup>*\<^sup>* (test_start (ThreadTest 3)) s \<and> itemnum (glob s) = - 1"
proof -
  have "ThreadTest 3 = [New 1, New 2, New 3, New 4, Fork 2 Consumer_cond, Fork 1 Producer_cond, Fork 4 Producer_cond, Fork 3 Consumer_cond]
      @ yields 22 @ yields 9978"
    using yields_split [of 22] by (simp add: ThreadTest_def ThreadTest3_def)
  then show ?thesis using ends_in_reaches [OF consumers_run [of "yields 9978"]] by auto
qed


end
