(* ===== verification/Nachos_Execute.thy ===== *)
theory Nachos_Execute
  imports Nachos_Cpu
begin

text \<open>
  The stand-alone MIPS interpreter of the tools: \<^verbatim>\<open>bin/execute.c\<close> with the macros of \<^verbatim>\<open>bin/instr.h\<close>, the opcode
  numbers of \<^verbatim>\<open>bin/encode.h\<close>, the memory accesses of \<^verbatim>\<open>bin/int.h\<close> and the system calls of \<^verbatim>\<open>bin/system.c\<close>.  It
  runs on a little-endian host whose shifts take the count modulo 32 (i386).  The lemmas relate it, instruction by
  instruction, to the simulator of the kernel (theory Nachos_Mips) and give the value of \<^verbatim>\<open>ilog2\<close>.
\<close>

unbundle bit_operations_syntax

subsection \<open>State\<close>

text \<open>
  An exit with a message, an access outside \<^verbatim>\<open>mem\<close>, the division trap of the host, and the \<^verbatim>\<open>exit\<close> system call.
\<close>

datatype exec_error = Unimplemented | NoCoprocessors | UnknownSyscall | BadAccess | DivideTrap | SysExit

abbreviation (input) MEMSIZE :: nat where "MEMSIZE \<equiv> 16777216"
abbreviation (input) memoffset :: "32 word" where "memoffset \<equiv> 0x10000000"

record interp =
  Reg :: "nat \<Rightarrow> 32 word"
  HI :: "32 word"
  LO :: "32 word"
  ex_mem :: "8 word list"
  ex_pc :: "32 word"
  ex_npc :: "32 word"

definition set_Reg :: "nat \<Rightarrow> 32 word \<Rightarrow> interp \<Rightarrow> interp" where
  "set_Reg r v s = s\<lparr>Reg := (Reg s)(r := v)\<rparr>"

subsection \<open>Instruction fields\<close>

definition f_rd :: "32 word \<Rightarrow> nat" where
  "f_rd i = unat (signed_drop_bit 11 i AND 0x1f)"

definition f_rt :: "32 word \<Rightarrow> nat" where
  "f_rt i = unat (signed_drop_bit 16 i AND 0x1f)"

definition f_rs :: "32 word \<Rightarrow> nat" where
  "f_rs i = unat (signed_drop_bit 21 i AND 0x1f)"

definition f_shamt :: "32 word \<Rightarrow> nat" where
  "f_shamt i = unat (signed_drop_bit 6 i AND 0x1f)"

definition immed :: "32 word \<Rightarrow> 32 word" where
  "immed i = (if i AND 0x8000 \<noteq> 0 then i OR - 0x8000 else i AND 0x7fff)"

subsection \<open>Memory\<close>

definition mem_at :: "32 word \<Rightarrow> nat \<Rightarrow> interp \<Rightarrow> exec_error + 8 word list" where
  "mem_at addr n s =
     (let a = unat (addr - memoffset) in
      if a + n \<le> length (ex_mem s) then Inr (get_bytes a n (ex_mem s)) else Inl BadAccess)"

definition mem_put :: "32 word \<Rightarrow> 8 word list \<Rightarrow> interp \<Rightarrow> exec_error + interp" where
  "mem_put addr bs s =
     (let a = unat (addr - memoffset) in
      if a + length bs \<le> length (ex_mem s) then Inr (s\<lparr>ex_mem := put_bytes a bs (ex_mem s)\<rparr>) else Inl BadAccess)"

definition fetch :: "32 word \<Rightarrow> interp \<Rightarrow> exec_error + 32 word" where
  "fetch addr s = rbind (mem_at addr 4 s) (\<lambda>bs. Inr (word4 (bs ! 0) (bs ! 1) (bs ! 2) (bs ! 3)))"

definition usfetch :: "32 word \<Rightarrow> interp \<Rightarrow> exec_error + 32 word" where
  "usfetch addr s = rbind (mem_at addr 2 s) (\<lambda>bs. Inr (ucast (word2 (bs ! 0) (bs ! 1))))"

definition sfetch :: "32 word \<Rightarrow> interp \<Rightarrow> exec_error + 32 word" where
  "sfetch addr s = rbind (mem_at addr 2 s) (\<lambda>bs. Inr (scast (word2 (bs ! 0) (bs ! 1))))"

definition ucfetch :: "32 word \<Rightarrow> interp \<Rightarrow> exec_error + 32 word" where
  "ucfetch addr s = rbind (mem_at addr 1 s) (\<lambda>bs. Inr (ucast (bs ! 0)))"

definition cfetch :: "32 word \<Rightarrow> interp \<Rightarrow> exec_error + 32 word" where
  "cfetch addr s = rbind (mem_at addr 1 s) (\<lambda>bs. Inr (scast (bs ! 0)))"

definition store :: "32 word \<Rightarrow> 32 word \<Rightarrow> interp \<Rightarrow> exec_error + interp" where
  "store addr i s = mem_put addr (bytes4 i) s"

definition sstore :: "32 word \<Rightarrow> 32 word \<Rightarrow> interp \<Rightarrow> exec_error + interp" where
  "sstore addr i s = mem_put addr (bytes2 (ucast i)) s"

definition cstore :: "32 word \<Rightarrow> 32 word \<Rightarrow> interp \<Rightarrow> exec_error + interp" where
  "cstore addr i s = mem_put addr [ucast i] s"

subsection \<open>System calls\<close>

text \<open>
  \<open>host\<close> is the call of the host's system: call number, the three arguments and memory to memory and result.  The
  numbers are those the comments of \<^verbatim>\<open>bin/system.c\<close> give.
\<close>

type_synonym host_call = "32 word \<Rightarrow> 32 word \<Rightarrow> 32 word \<Rightarrow> 32 word \<Rightarrow> 8 word list \<Rightarrow> 8 word list \<times> 32 word"

definition host_result :: "host_call \<Rightarrow> 32 word \<Rightarrow> 32 word \<Rightarrow> 32 word \<Rightarrow> 32 word \<Rightarrow> interp \<Rightarrow> interp" where
  "host_result host no o0 o1 o2 s =
     (let (mem, r) = host no o0 o1 o2 (ex_mem s) in set_Reg 1 r (s\<lparr>ex_mem := mem\<rparr>))"

definition ioctl_request :: "32 word \<Rightarrow> 32 word" where
  "ioctl_request o1 =
     (let sz = signed_drop_bit 16 o1 AND 0x7f; grp = ucast (signed_drop_bit 8 o1 AND 0xff) :: 8 word in
      if grp = 116 \<and> sz = 8 then (o1 AND NOT (push_bit 16 0x7f)) OR push_bit 16 6 else o1)"

definition system_trap :: "host_call \<Rightarrow> interp \<Rightarrow> exec_error + interp" where
  "system_trap host s =
     (let no = Reg s 2; o0 = Reg s 4; o1 = Reg s 5; o2 = Reg s 6 in
      if no = 1 then Inl SysExit
      else if no = 3 \<or> no = 4 \<or> no = 5 \<or> no = 19 then Inr (host_result host no o0 o1 o2 s)
      else if no = 6 then Inr (set_Reg 1 0 s)
      else if no = 17 then Inr (set_Reg 1 ((of_int (cdiv (sint o0) 8192) + 1) * 8192) s)
      else if no = 54 then Inr (set_Reg 1 0 (host_result host no o0 (ioctl_request o1) o2 s))
      else if no = 62 then Inr (host_result host no o1 o2 0 s)
      else if no = 64 then Inr (host_result host no 0 0 0 s)
      else Inl UnknownSyscall)"

definition system_break :: "host_call \<Rightarrow> interp \<Rightarrow> exec_error + interp" where
  "system_break host s = system_trap host s"

subsection \<open>Instructions\<close>

text \<open>The high word of a product from its four partial products.\<close>

definition mul_high :: "32 word \<Rightarrow> 32 word \<Rightarrow> 32 word" where
  "mul_high t1 t2 =
     (let t1l = t1 AND 0xffff; t1h = signed_drop_bit 16 t1 AND 0xffff;
          t2l = t2 AND 0xffff; t2h = signed_drop_bit 16 t2 AND 0xffff
      in t1h * t2h + signed_drop_bit 16 (t1h * t2l) + signed_drop_bit 16 (t2h * t1l))"

definition ex_mult :: "32 word \<Rightarrow> 32 word \<Rightarrow> interp \<Rightarrow> interp" where
  "ex_mult a b s =
     (let neg = ((sint a < 0) \<noteq> (sint b < 0));
          t1 = (if sint a < 0 then - a else a); t2 = (if sint b < 0 then - b else b);
          lo = t1 * t2; hi = mul_high t1 t2
      in if neg
         then let lo = NOT lo + 1; hi = NOT hi in s\<lparr>LO := lo, HI := (if lo = 0 then hi + 1 else hi)\<rparr>
         else s\<lparr>LO := lo, HI := hi\<rparr>)"

definition ex_div :: "32 word \<Rightarrow> 32 word \<Rightarrow> interp \<Rightarrow> exec_error + interp" where
  "ex_div a b s =
     (if b = 0 \<or> (a = 0x80000000 \<and> b = - 1) then Inl DivideTrap
      else Inr (s\<lparr>LO := of_int (cdiv (sint a) (sint b)), HI := of_int (cmod (sint a) (sint b))\<rparr>))"

definition ex_divu :: "32 word \<Rightarrow> 32 word \<Rightarrow> interp \<Rightarrow> exec_error + interp" where
  "ex_divu a b s = (if b = 0 then Inl DivideTrap else Inr (s\<lparr>LO := a div b, HI := a mod b\<rparr>))"

definition shift_count :: "32 word \<Rightarrow> nat" where
  "shift_count w = unat (w AND 0x1f)"

text \<open>The \<^verbatim>\<open>I_SPECIAL\<close> instructions by their function field, in octal in \<^verbatim>\<open>encode.h\<close>.\<close>

definition exec_special :: "host_call \<Rightarrow> 32 word \<Rightarrow> 32 word \<Rightarrow> interp \<Rightarrow> exec_error + interp" where
  "exec_special host instr xpc s =
     (let f = instr AND 0x3f; a = Reg s (f_rs instr); b = Reg s (f_rt instr); rd = f_rd instr in
      if f = 0 then Inr (set_Reg rd (push_bit (f_shamt instr) b) s)
      else if f = 2 then Inr (set_Reg rd (drop_bit (f_shamt instr) b) s)
      else if f = 3 then Inr (set_Reg rd (signed_drop_bit (f_shamt instr) b) s)
      else if f = 4 then Inr (set_Reg rd (push_bit (shift_count a) b) s)
      else if f = 6 then Inr (set_Reg rd (drop_bit (shift_count a) b) s)
      else if f = 7 then Inr (set_Reg rd (signed_drop_bit (shift_count a) b) s)
      else if f = 8 then Inr (s\<lparr>ex_npc := a\<rparr>)
      else if f = 9 then Inr (set_Reg rd (xpc + 8) (s\<lparr>ex_npc := a\<rparr>))
      else if f = 12 then system_trap host s
      else if f = 13 then system_break host s
      else if f = 16 then Inr (set_Reg rd (HI s) s)
      else if f = 17 then Inr (s\<lparr>HI := a\<rparr>)
      else if f = 18 then Inr (set_Reg rd (LO s) s)
      else if f = 19 then Inr (s\<lparr>LO := a\<rparr>)
      else if f = 24 then Inr (ex_mult a b s)
      else if f = 25 then Inr (s\<lparr>LO := a * b, HI := mul_high a b\<rparr>)
      else if f = 26 then ex_div a b s
      else if f = 27 then ex_divu a b s
      else if f = 32 \<or> f = 33 then Inr (set_Reg rd (a + b) s)
      else if f = 34 \<or> f = 35 then Inr (set_Reg rd (a - b) s)
      else if f = 36 then Inr (set_Reg rd (a AND b) s)
      else if f = 37 then Inr (set_Reg rd (a OR b) s)
      else if f = 38 then Inr (set_Reg rd (a XOR b) s)
      else if f = 39 then Inr (set_Reg rd (NOT (a OR b)) s)
      else if f = 42 then Inr (set_Reg rd (bool_word (sint a < sint b)) s)
      else if f = 43 then Inr (set_Reg rd (bool_word (a < b)) s)
      else Inl Unimplemented)"

definition ex_branch :: "bool \<Rightarrow> 32 word \<Rightarrow> 32 word \<Rightarrow> interp \<Rightarrow> interp" where
  "ex_branch taken instr xpc s = (if taken then s\<lparr>ex_npc := xpc + 4 + push_bit 2 (immed instr)\<rparr> else s)"

definition exec_bcond :: "32 word \<Rightarrow> 32 word \<Rightarrow> interp \<Rightarrow> exec_error + interp" where
  "exec_bcond instr xpc s =
     (let k = f_rt instr; link = set_Reg 31 (xpc + 8) s in
      if k = 0 then Inr (ex_branch (sint (Reg s (f_rs instr)) < 0) instr xpc s)
      else if k = 1 then Inr (ex_branch (sint (Reg s (f_rs instr)) \<ge> 0) instr xpc s)
      else if k = 16 then Inr (ex_branch (sint (Reg link (f_rs instr)) < 0) instr xpc link)
      else if k = 17 then Inr (ex_branch (sint (Reg link (f_rs instr)) \<ge> 0) instr xpc link)
      else Inl Unimplemented)"

definition jump_target :: "32 word \<Rightarrow> 32 word \<Rightarrow> 32 word" where
  "jump_target instr xpc = (xpc AND 0xf0000000) OR push_bit 2 (instr AND 0x03ffffff)"

text \<open>
  \<^verbatim>\<open>LWL\<close> masks with \<^verbatim>\<open>-1 >> n\<close>, an arithmetic shift of -1, which is -1.
\<close>

definition ex_lwl :: "32 word \<Rightarrow> nat \<Rightarrow> interp \<Rightarrow> exec_error + interp" where
  "ex_lwl i r s =
     (let old = Reg s r AND signed_drop_bit (8 * unat ((- i) AND 3)) (- 1) in
      rbind (fetch (i AND 0xfffffffc) s) (\<lambda>v. Inr (set_Reg r (old OR push_bit (8 * unat (i AND 3)) v) s)))"

definition ex_lwr :: "32 word \<Rightarrow> nat \<Rightarrow> interp \<Rightarrow> exec_error + interp" where
  "ex_lwr i r s =
     (let old = (if i AND 3 = 0 then 0 else Reg s r AND push_bit (8 * unat (i AND 3)) (- 1)) in
      rbind (fetch (i AND 0xfffffffc) s) (\<lambda>v.
        Inr (set_Reg r (old OR signed_drop_bit (8 * unat ((- i) AND 3)) v) s)))"

text \<open>The instructions by their opcode field.\<close>

definition exec_instr :: "host_call \<Rightarrow> 32 word \<Rightarrow> 32 word \<Rightarrow> interp \<Rightarrow> exec_error + interp" where
  "exec_instr host instr xpc s =
     (let p = signed_drop_bit 26 instr AND 0x3f; a = Reg s (f_rs instr); rt = f_rt instr; b = Reg s rt;
          im = immed instr; load = (\<lambda>r. rbind r (\<lambda>v. Inr (set_Reg rt v s))) in
      if p = 0 then exec_special host instr xpc s
      else if p = 1 then exec_bcond instr xpc s
      else if p = 2 then Inr (s\<lparr>ex_npc := jump_target instr xpc\<rparr>)
      else if p = 3 then Inr ((set_Reg 31 (xpc + 8) s)\<lparr>ex_npc := jump_target instr xpc\<rparr>)
      else if p = 4 then Inr (ex_branch (a = b) instr xpc s)
      else if p = 5 then Inr (ex_branch (a \<noteq> b) instr xpc s)
      else if p = 6 then Inr (ex_branch (sint a \<le> 0) instr xpc s)
      else if p = 7 then Inr (ex_branch (sint a > 0) instr xpc s)
      else if p = 8 \<or> p = 9 then Inr (set_Reg rt (a + im) s)
      else if p = 10 then Inr (set_Reg rt (bool_word (sint a < sint im)) s)
      else if p = 11 then Inr (set_Reg rt (bool_word (a < im)) s)
      else if p = 12 then Inr (set_Reg rt (a AND im) s)
      else if p = 13 then Inr (set_Reg rt (a OR im) s)
      else if p = 14 then Inr (set_Reg rt (a XOR im) s)
      else if p = 15 then Inr (set_Reg rt (push_bit 16 instr) s)
      else if p = 32 then load (cfetch (a + im) s)
      else if p = 33 then load (sfetch (a + im) s)
      else if p = 34 then ex_lwl (a + im) rt s
      else if p = 35 then load (fetch (a + im) s)
      else if p = 36 then load (ucfetch (a + im) s)
      else if p = 37 then load (usfetch (a + im) s)
      else if p = 38 then ex_lwr (a + im) rt s
      else if p = 40 then cstore (a + im) b s
      else if p = 41 then sstore (a + im) b s
      else if p = 42 then Inl Unimplemented
      else if p = 43 then store (a + im) b s
      else if p = 46 then Inl Unimplemented
      else if (16 \<le> p \<and> p \<le> 19) \<or> (48 \<le> p \<and> p \<le> 51) \<or> (56 \<le> p \<and> p \<le> 59) then Inl NoCoprocessors
      else Inl Unimplemented)"

text \<open>One round of the loop of \<^verbatim>\<open>runprogram\<close>, without the tracing; \<open>n\<close> rounds are run.\<close>

definition ex_round :: "host_call \<Rightarrow> interp \<Rightarrow> exec_error + interp" where
  "ex_round host s =
     (let xpc = ex_pc s; s = s\<lparr>ex_pc := ex_npc s, ex_npc := ex_npc s + 4\<rparr> in
      rbind (fetch xpc s) (\<lambda>instr.
      let s = set_Reg 0 0 s in
      if instr \<noteq> 0 then exec_instr host instr xpc s else Inr s))"

fun ex_loop :: "host_call \<Rightarrow> nat \<Rightarrow> interp \<Rightarrow> exec_error + interp" where
  "ex_loop host 0 s = Inr s"
| "ex_loop host (Suc n) s = rbind (ex_round host s) (ex_loop host n)"

text \<open>The arguments of the program: the strings, without their terminators, and the array of pointers to them.\<close>

fun setup_args :: "8 word list list \<Rightarrow> 32 word \<Rightarrow> 32 word \<Rightarrow> interp \<Rightarrow> exec_error + interp" where
  "setup_args [] aci ai s = Inr s"
| "setup_args (v # vs) aci ai s =
     rbind (mem_put ai (v @ [0]) s) (\<lambda>s.
     rbind (store aci ai s) (setup_args vs (aci + 4) (ai + of_nat (length v) + 1)))"

definition runprogram :: "host_call \<Rightarrow> nat \<Rightarrow> 32 word \<Rightarrow> 8 word list list \<Rightarrow> interp \<Rightarrow> exec_error + interp" where
  "runprogram host n startpc argv s =
     (let i = of_nat MEMSIZE - 1024 + memoffset;
          s = set_Reg 29 i (s\<lparr>ex_pc := startpc, ex_npc := startpc + 4\<rparr>) in
      rbind (store i (of_nat (length argv)) s) (\<lambda>s.
      rbind (setup_args argv (i + 4) (i + 4 + 32) s) (ex_loop host n)))"

subsection \<open>Statistics\<close>

definition ilog2_step :: "32 word \<Rightarrow> nat \<Rightarrow> 32 word \<times> nat \<Rightarrow> 32 word \<times> nat" where
  "ilog2_step msk k = (\<lambda>(i, l). let j = i AND msk in if j \<noteq> 0 then (j, l + k) else (i, l))"

definition ilog2 :: "32 word \<Rightarrow> nat" where
  "ilog2 i =
     (if i = 0 then 0
      else snd (ilog2_step 0xaaaaaaaa 1 (ilog2_step 0xcccccccc 2 (ilog2_step 0xf0f0f0f0 4
             (ilog2_step 0xff00ff00 8 (ilog2_step 0xffff0000 16 (i, 1)))))))"

record histograms =
  hists :: "nat \<Rightarrow> int \<Rightarrow> 32 word"
  hoflo :: "nat \<Rightarrow> 32 word"
  htotal :: "nat \<Rightarrow> 32 word"

definition henters :: "int \<Rightarrow> nat \<Rightarrow> histograms \<Rightarrow> histograms" where
  "henters n h s =
     (let s = (if 0 \<le> n \<and> n < 33 then s\<lparr>hists := (hists s)(h := (hists s h)(n := hists s h n + 1))\<rparr>
               else s\<lparr>hoflo := (hoflo s)(h := hoflo s h + 1)\<rparr>)
      in s\<lparr>htotal := (htotal s)(h := htotal s h + 1)\<rparr>)"

subsection \<open>The two interpreters decode alike\<close>

text \<open>
  The opcode numbers that \<^verbatim>\<open>encode.h\<close> gives are the indices of the decoding tables of \<^verbatim>\<open>machine/mipssim.h\<close>, and the field
  macros of \<^verbatim>\<open>instr.h\<close> extract what \<^const>\<open>Instruction_Decode\<close> extracts.
\<close>

lemma signed_shift_field: "n + k \<le> 32 \<Longrightarrow> signed_drop_bit n w AND mask k = drop_bit n w AND mask k" for w :: "32 word"
  by (rule bit_word_eqI) (auto simp: bit_simps)

lemma field_masks: "(0x1f :: 32 word) = mask 5" "(0x3f :: 32 word) = mask 6"
  by (simp_all add: mask_eq_exp_minus_1)

lemma decode_fields:
  "rs (Instruction_Decode v) = f_rs v" "rt (Instruction_Decode v) = f_rt v" "rd (Instruction_Decode v) = f_rd v"
  by (simp_all add: Instruction_Decode_def f_rs_def f_rt_def f_rd_def field_masks signed_shift_field Let_def split: prod.splits)

definition main_code :: "opcode \<Rightarrow> nat" where
  "main_code op = (case op of OP_J \<Rightarrow> 2 | OP_JAL \<Rightarrow> 3 | OP_BEQ \<Rightarrow> 4 | OP_BNE \<Rightarrow> 5 | OP_BLEZ \<Rightarrow> 6 | OP_BGTZ \<Rightarrow> 7
     | OP_ADDI \<Rightarrow> 8 | OP_ADDIU \<Rightarrow> 9 | OP_SLTI \<Rightarrow> 10 | OP_SLTIU \<Rightarrow> 11 | OP_ANDI \<Rightarrow> 12 | OP_ORI \<Rightarrow> 13 | OP_XORI \<Rightarrow> 14 | OP_LUI \<Rightarrow> 15
     | OP_LB \<Rightarrow> 32 | OP_LH \<Rightarrow> 33 | OP_LWL \<Rightarrow> 34 | OP_LW \<Rightarrow> 35 | OP_LBU \<Rightarrow> 36 | OP_LHU \<Rightarrow> 37 | OP_LWR \<Rightarrow> 38
     | OP_SB \<Rightarrow> 40 | OP_SH \<Rightarrow> 41 | OP_SWL \<Rightarrow> 42 | OP_SW \<Rightarrow> 43 | OP_SWR \<Rightarrow> 46 | SPECIAL \<Rightarrow> 0 | BCOND \<Rightarrow> 1 | _ \<Rightarrow> 64)"

definition special_code :: "opcode \<Rightarrow> nat" where
  "special_code op = (case op of OP_SLL \<Rightarrow> 0 | OP_SRL \<Rightarrow> 2 | OP_SRA \<Rightarrow> 3 | OP_SLLV \<Rightarrow> 4 | OP_SRLV \<Rightarrow> 6 | OP_SRAV \<Rightarrow> 7
     | OP_JR \<Rightarrow> 8 | OP_JALR \<Rightarrow> 9 | OP_SYSCALL \<Rightarrow> 12 | OP_MFHI \<Rightarrow> 16 | OP_MTHI \<Rightarrow> 17 | OP_MFLO \<Rightarrow> 18 | OP_MTLO \<Rightarrow> 19
     | OP_MULT \<Rightarrow> 24 | OP_MULTU \<Rightarrow> 25 | OP_DIV \<Rightarrow> 26 | OP_DIVU \<Rightarrow> 27 | OP_ADD \<Rightarrow> 32 | OP_ADDU \<Rightarrow> 33 | OP_SUB \<Rightarrow> 34
     | OP_SUBU \<Rightarrow> 35 | OP_AND \<Rightarrow> 36 | OP_OR \<Rightarrow> 37 | OP_XOR \<Rightarrow> 38 | OP_NOR \<Rightarrow> 39 | OP_SLT \<Rightarrow> 42 | OP_SLTU \<Rightarrow> 43 | _ \<Rightarrow> 64)"

definition valid_op :: "opcode \<Rightarrow> bool" where
  "valid_op op = (op \<noteq> OP_RES \<and> op \<noteq> OP_UNIMP)"

lemma main_table: "list_all (\<lambda>k. let op = fst (opTable ! k) in valid_op op \<longrightarrow> main_code op = k) [0..<64]"
  by code_simp

lemma main_formats: "list_all (\<lambda>k. snd (opTable ! k) = (if k = 0 then RFMT else if k = 2 \<or> k = 3 then JFMT else IFMT)) [0..<64]"
  by code_simp

lemma special_table: "list_all (\<lambda>k. let op = specialTable ! k in valid_op op \<longrightarrow> special_code op = k) [0..<64]"
  by code_simp

definition main_field :: "32 word \<Rightarrow> nat" where
  "main_field v = unat (drop_bit 26 v AND 0x3f)"

definition bcond_code :: "opcode \<Rightarrow> nat" where
  "bcond_code op = (case op of OP_BLTZ \<Rightarrow> 0 | OP_BGEZ \<Rightarrow> 1 | OP_BLTZAL \<Rightarrow> 16 | OP_BGEZAL \<Rightarrow> 17 | _ \<Rightarrow> 64)"

lemma bcond_field: "v AND 0x1f0000 = push_bit 16 (drop_bit 16 v AND mask 5)" for v :: "32 word"
proof -
  have c: "(0x1f0000 :: 32 word) = push_bit 16 (mask 5)" by (simp add: mask_eq_exp_minus_1 push_bit_eq_mult)
  show ?thesis unfolding c by (rule bit_word_eqI) (auto simp: bit_simps)
qed

lemma bcond_code_field: "bcond_op v = op \<Longrightarrow> valid_op op \<Longrightarrow> f_rt v = bcond_code op"
proof -
  have f: "f_rt v = unat (drop_bit 16 v AND mask 5)" by (simp add: f_rt_def field_masks signed_shift_field)
  have "drop_bit 16 v AND mask 5 = drop_bit 16 (v AND 0x1f0000)" unfolding bcond_field by (auto intro!: bit_word_eqI simp: bit_simps)
  then have "f_rt v = unat (drop_bit 16 (v AND 0x1f0000))" using f by simp
  then show "bcond_op v = op \<Longrightarrow> valid_op op \<Longrightarrow> f_rt v = bcond_code op"
    by (auto simp: bcond_op_def Let_def valid_op_def bcond_code_def drop_bit_eq_div split: if_splits)
qed

lemma decode_cases:
  assumes "opCode (Instruction_Decode v) = op" "valid_op op"
  obtains (main) "main_field v = main_code op" "op \<noteq> SPECIAL" "op \<noteq> BCOND"
  | (special) "main_field v = 0" "unat (v AND 0x3f) = special_code op"
  | (bcond) "main_field v = 1" "f_rt v = bcond_code op"
proof -
  let ?k = "main_field v"
  have k: "?k < 64" "unat (v AND 0x3f) < 64" using field_bound(2) by (simp_all add: main_field_def)
  have t: "valid_op (fst (opTable ! ?k)) \<Longrightarrow> main_code (fst (opTable ! ?k)) = ?k"
    using main_table k(1) by (simp add: list_all_iff Let_def)
  have st: "valid_op (specialTable ! unat (v AND 0x3f)) \<Longrightarrow> special_code (specialTable ! unat (v AND 0x3f)) = unat (v AND 0x3f)"
    using special_table k(2) by (simp add: list_all_iff Let_def)
  have op: "op = (if fst (opTable ! ?k) = SPECIAL then specialTable ! unat (v AND 0x3f)
      else if fst (opTable ! ?k) = BCOND then bcond_op v else fst (opTable ! ?k))"
    using assms(1) by (auto simp: Instruction_Decode_def main_field_def Let_def split: prod.splits)
  consider "fst (opTable ! ?k) = SPECIAL" | "fst (opTable ! ?k) = BCOND" | "op = fst (opTable ! ?k)" "op \<noteq> SPECIAL" "op \<noteq> BCOND"
    using op by (auto split: if_splits)
  then show thesis
  proof cases
    case 1
    then show ?thesis using t st op assms(2) by (intro special) (auto simp: valid_op_def main_code_def)
  next
    case 2
    then show ?thesis using t op assms(2) bcond_code_field [of v op] by (intro bcond) (auto simp: valid_op_def main_code_def)
  next
    case 3
    then show ?thesis using t assms(2) by (intro main) auto
  qed
qed

lemma imm_low: "w AND 0x7fff = (w AND 0xffff :: 32 word)" if "\<not> bit w 15" for w :: "32 word"
proof -
  have c: "(0x7fff :: 32 word) = mask 15" "(0xffff :: 32 word) = mask 16" by (simp_all add: mask_eq_exp_minus_1)
  show ?thesis unfolding c using that by (intro bit_word_eqI) (auto simp: bit_simps less_Suc_eq numeral_eq_Suc)
qed

lemma bit15: "w AND 0x8000 \<noteq> 0 \<longleftrightarrow> bit w 15" for w :: "32 word"
proof -
  have "(0x8000 :: 32 word) = 2 ^ 15" by simp
  then show ?thesis by (simp only: and_exp_eq_0_iff_not_bit) simp
qed

lemma immed_eq: "immed v = (let e = v AND 0xffff in if e AND 0x8000 \<noteq> 0 then e OR 0xffff0000 else e)"
proof -
  have c: "(0xffff :: 32 word) = mask 16" "(0xffff0000 :: 32 word) = NOT (mask 16)" "(- 0x8000 :: 32 word) = NOT (mask 15)"
    by (simp_all add: mask_eq_exp_minus_1)
  have e: "(v AND 0xffff) AND 0x8000 \<noteq> 0 \<longleftrightarrow> bit v 15" unfolding bit15 by (simp add: c bit_simps)
  have "v OR NOT (mask 15) = (v AND mask 16) OR NOT (mask 16)" if "bit v 15"
    using that by (intro bit_word_eqI) (auto simp: bit_simps less_Suc_eq numeral_eq_Suc)
  then show ?thesis unfolding immed_def Let_def e bit15 [of v] using imm_low [of v] by (simp add: c)
qed

lemma main_field_word: "signed_drop_bit 26 v AND 0x3f = of_nat (main_field v)"
  by (simp add: main_field_def field_masks signed_shift_field)

lemma format_of: "snd (opTable ! main_field v) = (if main_field v = 0 then RFMT else if main_field v = 2 \<or> main_field v = 3 then JFMT else IFMT)"
  using main_formats field_bound(2) [of "drop_bit 26 v"] by (simp add: list_all_iff main_field_def)

lemma extra_fields:
  "main_field v \<notin> {0, 2, 3} \<Longrightarrow> extra (Instruction_Decode v) = immed v"
  "main_field v = 0 \<Longrightarrow> unat (extra (Instruction_Decode v)) = f_shamt v"
  "main_field v = 2 \<or> main_field v = 3 \<Longrightarrow> extra (Instruction_Decode v) = v AND 0x3ffffff"
  using format_of [of v]
  by (auto simp: Instruction_Decode_def main_field_def immed_eq f_shamt_def field_masks signed_shift_field Let_def split: prod.splits if_splits)

subsection \<open>The two interpreters execute alike\<close>

text \<open>
  The instructions on which the two must agree: those that touch neither memory nor the system, where the simulator of the
  kernel does not raise an overflow, where the immediate of a logical operation has no sign to extend, and where a division
  does not trap.  A control transfer must not itself stand in a delay slot or just before a 256 MB boundary.  \<^verbatim>\<open>OR\<close>,
  \<^verbatim>\<open>SRL\<close>, \<^verbatim>\<open>SRLV\<close>, \<^verbatim>\<open>MULT\<close> and \<^verbatim>\<open>MULTU\<close> are not among them: there one of the two is wrong.
\<close>

definition simple_ops :: "opcode set" where
  "simple_ops = {OP_ADDIU, OP_ADDU, OP_SUBU, OP_AND, OP_XOR, OP_NOR, OP_SLL, OP_SLLV, OP_SRA, OP_SRAV, OP_SLT, OP_SLTI, OP_SLTIU,
     OP_SLTU, OP_LUI, OP_MFHI, OP_MFLO, OP_MTHI, OP_MTLO, OP_JR}"

definition transfer_ops :: "opcode set" where
  "transfer_ops = {OP_BEQ, OP_BNE, OP_BLEZ, OP_BGTZ, OP_BLTZ, OP_BGEZ, OP_BLTZAL, OP_BGEZAL, OP_J, OP_JAL, OP_JALR}"

definition common :: "opcode \<Rightarrow> Instruction \<Rightarrow> machine \<Rightarrow> bool" where
  "common op i m \<longleftrightarrow> op \<in> simple_ops
     \<or> op \<in> transfer_ops \<and> registers m NextPCReg = registers m PCReg + 4
         \<and> (registers m NextPCReg + 4) AND 0xf0000000 = registers m PCReg AND 0xf0000000 \<and> (op = OP_JALR \<longrightarrow> rs i \<noteq> rd i)
     \<or> op = OP_ADD \<and> \<not> add_overflows (registers m (rs i)) (registers m (rt i))
     \<or> op = OP_ADDI \<and> \<not> add_overflows (extra i) (registers m (rs i))
     \<or> op = OP_SUB \<and> \<not> sub_overflows (registers m (rs i)) (registers m (rt i))
     \<or> op \<in> {OP_ANDI, OP_ORI, OP_XORI} \<and> extra i AND 0x8000 = 0
     \<or> op = OP_DIV \<and> registers m (rt i) \<noteq> 0 \<and> \<not> (registers m (rs i) = 0x80000000 \<and> registers m (rt i) = - 1)
     \<or> op = OP_DIVU \<and> registers m (rt i) \<noteq> 0"

definition same_regs :: "interp \<Rightarrow> machine \<Rightarrow> bool" where
  "same_regs s m \<longleftrightarrow> (\<forall>r. 0 < r \<and> r < 32 \<longrightarrow> Reg s r = registers m r) \<and> HI s = registers m HiReg \<and> LO s = registers m LoReg"

definition outcome :: "interp \<Rightarrow> machine \<Rightarrow> exec_error + interp \<Rightarrow> exec_out result \<Rightarrow> bool" where
  "outcome s m r r' \<longleftrightarrow> (\<exists>s' m' pc. r = Inr s' \<and> r' = Inr (m', Some (pc, 0, 0)) \<and> same_regs s' m' \<and> ex_npc s' = pc \<and> ex_pc s' = ex_pc s
     \<and> (\<forall>q\<in>{PCReg, NextPCReg, LoadReg}. registers m' q = registers m q))"

lemma outcomeI:
  "same_regs s' m' \<Longrightarrow> ex_pc s' = ex_pc s \<Longrightarrow> (\<forall>q\<in>{PCReg, NextPCReg, LoadReg}. registers m' q = registers m q) \<Longrightarrow> ex_npc s' = pc \<Longrightarrow>
   outcome s m (Inr s') (fall_out pc m')"
  by (auto simp: outcome_def fall_out_def)

lemma same_regs_set: "same_regs s m \<Longrightarrow> r < 32 \<Longrightarrow> same_regs (set_Reg r v s) (set_reg r v m)"
  by (auto simp: same_regs_def set_Reg_def)

lemma top_bit_sint: "w AND 0x80000000 = 0 \<longleftrightarrow> 0 \<le> sint w" for w :: "32 word"
  using top_bit_iff [of w] sint_cases [of w] uint_lt2p [of w] by auto

lemma imm_and: "immed v AND 0x8000 = 0 \<Longrightarrow> immed v AND 0xffff = immed v"
proof -
  have c: "(0xffff :: 32 word) = mask 16" "(0x7fff :: 32 word) = mask 15" "(- 0x8000 :: 32 word) = NOT (mask 15)" by (simp_all add: mask_eq_exp_minus_1)
  assume "immed v AND 0x8000 = 0"
  then have "\<not> bit (immed v) 15" using bit15 [of "immed v"] by simp
  then have "\<not> bit v 15" by (auto simp: immed_def bit15 c bit_simps)
  then have "immed v = v AND mask 15" by (simp add: immed_def bit15 flip: c)
  then show ?thesis unfolding c by (simp only:) (rule bit_word_eqI, auto simp: bit_simps)
qed

lemma outcome_set:
  assumes "same_regs s m" "r < 32" "ex_npc s = pc"
  shows "outcome s m (Inr (set_Reg r v s)) (fall_out pc (set_reg r v m))"
  using assms same_regs_set [OF assms(1,2)] by (intro outcomeI) (auto simp: set_Reg_def)

lemma outcome_same: "same_regs s m \<Longrightarrow> ex_npc s = pc \<Longrightarrow> outcome s m (Inr s) (fall_out pc m)"
  by (rule outcomeI) auto

lemma outcome_hilo:
  assumes "same_regs s m" "ex_npc s = pc"
  shows "outcome s m (Inr (s\<lparr>HI := v\<rparr>)) (fall_out pc (set_reg HiReg v m))"
    and "outcome s m (Inr (s\<lparr>LO := v\<rparr>)) (fall_out pc (set_reg LoReg v m))"
    and "outcome s m (Inr (s\<lparr>LO := v, HI := u\<rparr>)) (fall_out pc (set_reg HiReg u (set_reg LoReg v m)))"
  using assms by (auto intro!: outcomeI simp: same_regs_def)

lemma outcome_jump: "same_regs s m \<Longrightarrow> outcome s m (Inr (s\<lparr>ex_npc := t\<rparr>)) (fall_out t m)"
  by (rule outcomeI) (auto simp: same_regs_def)

lemma outcome_link: "same_regs s m \<Longrightarrow> r < 32 \<Longrightarrow> outcome s m (Inr ((set_Reg r v s)\<lparr>ex_npc := t\<rparr>)) (fall_out t (set_reg r v m))"
  using same_regs_set [of s m r v] by (intro outcomeI) (auto simp: same_regs_def set_Reg_def)

lemmas outcomes = outcome_set outcome_same outcome_hilo outcome_jump outcome_link

lemma set_Reg_npc: "set_Reg r v (s\<lparr>ex_npc := t\<rparr>) = (set_Reg r v s)\<lparr>ex_npc := t\<rparr>"
  by (simp add: set_Reg_def)

lemma branch_eq:
  assumes "same_regs s m" "ex_npc s = pc" "extra (Instruction_Decode v) = immed v" "registers m NextPCReg = xpc + 4"
  shows "outcome s m (Inr (ex_branch b v xpc s)) (branch (Instruction_Decode v) m b pc)"
  using assms by (auto simp: ex_branch_def branch_def IndexToAddr_def intro!: outcomes)

lemma common_special:
  assumes "common op i m" "special_code op < 64"
  shows "op \<in> {OP_ADDU, OP_SUBU, OP_AND, OP_XOR, OP_NOR, OP_SLL, OP_SLLV, OP_SRA, OP_SRAV, OP_SLT, OP_SLTU, OP_MFHI, OP_MFLO, OP_MTHI, OP_MTLO, OP_JR}
    \<or> op = OP_JALR \<and> registers m NextPCReg = registers m PCReg + 4 \<and> rs i \<noteq> rd i
    \<or> op = OP_ADD \<and> \<not> add_overflows (registers m (rs i)) (registers m (rt i))
    \<or> op = OP_SUB \<and> \<not> sub_overflows (registers m (rs i)) (registers m (rt i))
    \<or> op = OP_DIV \<and> registers m (rt i) \<noteq> 0 \<and> \<not> (registers m (rs i) = 0x80000000 \<and> registers m (rt i) = - 1)
    \<or> op = OP_DIVU \<and> registers m (rt i) \<noteq> 0"
  using assms unfolding common_def simple_ops_def transfer_ops_def by (elim disjE conjE insertE emptyE; simp add: special_code_def)

lemma exec_special_same:
  assumes com: "common op (Instruction_Decode v) m" and code: "main_field v = 0" "v AND 0x3f = of_nat (special_code op)"
    and regs: "Reg s (f_rs v) = registers m (f_rs v)" "Reg s (f_rt v) = registers m (f_rt v)" "HI s = registers m HiReg"
      "LO s = registers m LoReg" "same_regs s m"
    and pc: "ex_npc s = registers m NextPCReg + 4" "xpc = registers m PCReg" and b: "f_rd v < 32" "f_rs v < 32" "f_rt v < 32"
    and op: "special_code op < 64"
  shows "outcome s m (exec_special host v xpc s) (exec_op h pid op (Instruction_Decode v) (registers m NextPCReg + 4) m)"
proof -
  have sh: "unat (extra (Instruction_Decode v)) = f_shamt v" by (rule extra_fields(2) [OF code(1)])
  note run = special_code_def decode_fields regs pc b outcomes sh shift_count_def
  have hi: "f_rs v \<noteq> 33" "f_rt v \<noteq> 33" using b by auto
  from common_special [OF com op] show ?thesis
    unfolding exec_special_def code(2) decode_fields
    by (elim disjE conjE insertE emptyE; hypsubst) (simp_all add: run exec_div_def exec_divu_def ex_div_def ex_divu_def set_Reg_npc hi add.commute [of 8] Let_def, auto)
qed

lemma exec_bcond_same:
  assumes com: "common op (Instruction_Decode v) m" and code: "main_field v = 1" "f_rt v = bcond_code op" "bcond_code op < 32"
    and regs: "Reg s (f_rs v) = registers m (f_rs v)" "same_regs s m"
    and pc: "ex_npc s = registers m NextPCReg + 4" "xpc = registers m PCReg" and b: "f_rs v < 32"
  shows "outcome s m (exec_bcond v xpc s) (exec_op h pid op (Instruction_Decode v) (registers m NextPCReg + 4) m)"
proof -
  have ex: "extra (Instruction_Decode v) = immed v" using extra_fields(1) [of v] code(1) by simp
  have op: "op \<in> {OP_BLTZ, OP_BGEZ, OP_BLTZAL, OP_BGEZAL}" using code(3) by (cases op) (auto simp: bcond_code_def)
  then have nxt: "registers m NextPCReg = xpc + 4" using com pc(2) by (auto simp: common_def simple_ops_def transfer_ops_def)
  let ?l = "set_Reg 31 (xpc + 8) s" and ?m = "set_reg R31 (xpc + 8) m" and ?i = "Instruction_Decode v"
  have l: "same_regs ?l ?m" using regs(2) by (simp add: same_regs_set)
  have here: "outcome s m (Inr (ex_branch c v xpc s)) (branch ?i m c (xpc + 8))" for c
    using regs(2) pc nxt ex by (intro branch_eq) simp_all
  have "outcome ?l ?m (Inr (ex_branch c v xpc ?l)) (branch ?i ?m c (xpc + 8))" for c
    using l pc nxt ex by (intro branch_eq) (simp_all add: set_Reg_def)
  then have there: "outcome s m (Inr (ex_branch c v xpc ?l)) (branch ?i ?m c (xpc + 8))" for c
    by (simp add: outcome_def) (simp add: set_Reg_def)
  have r: "Reg ?l (f_rs v) = registers ?m (f_rs v)" using regs(1) by (simp add: set_Reg_def)
  have e: "registers m NextPCReg + 4 = xpc + 8" "8 + xpc = xpc + 8" using nxt by simp_all
  note run = exec_bcond_def code(2) bcond_code_def Let_def decode_fields regs(1) r top_bit_sint not_le e
  from op consider "op = OP_BLTZ" | "op = OP_BGEZ" | "op = OP_BLTZAL" | "op = OP_BGEZAL" by auto
  then show ?thesis
  proof cases
    case 1
    then show ?thesis using here by (simp add: run del: registers_set_reg)
  next
    case 2
    then show ?thesis using here by (simp add: run del: registers_set_reg)
  next
    case 3
    then show ?thesis using there by (simp add: run del: registers_set_reg)
  next
    case 4
    then show ?thesis using there by (simp add: run del: registers_set_reg)
  qed
qed

lemma immed_low: "n < 16 \<Longrightarrow> bit (immed v) n = bit v n"
proof -
  assume n: "n < 16"
  have c: "(0x7fff :: 32 word) = mask 15" "(- 0x8000 :: 32 word) = NOT (mask 15)" by (simp_all add: mask_eq_exp_minus_1)
  show ?thesis using n unfolding immed_def bit15 c by (cases "n = 15") (auto simp: bit_simps)
qed

lemma common_main:
  assumes "common op i m" "main_code op < 64"
  shows "op \<in> {OP_ADDIU, OP_SLTI, OP_SLTIU, OP_LUI}
    \<or> op \<in> {OP_BEQ, OP_BNE, OP_BLEZ, OP_BGTZ, OP_J, OP_JAL} \<and> registers m NextPCReg = registers m PCReg + 4
        \<and> (registers m NextPCReg + 4) AND 0xf0000000 = registers m PCReg AND 0xf0000000
    \<or> op = OP_ADDI \<and> \<not> add_overflows (extra i) (registers m (rs i))
    \<or> op \<in> {OP_ANDI, OP_ORI, OP_XORI} \<and> extra i AND 0x8000 = 0"
  using assms unfolding common_def simple_ops_def transfer_ops_def by (elim disjE conjE insertE emptyE; simp add: main_code_def)

lemma exec_main_same:
  assumes com: "common op (Instruction_Decode v) m" and code: "main_field v = main_code op" "main_code op < 64"
    and regs: "Reg s (f_rs v) = registers m (f_rs v)" "Reg s (f_rt v) = registers m (f_rt v)" "same_regs s m"
    and pc: "ex_npc s = registers m NextPCReg + 4" "xpc = registers m PCReg" and b: "f_rt v < 32"
  shows "outcome s m (exec_instr host v xpc s) (exec_op h pid op (Instruction_Decode v) (registers m NextPCReg + 4) m)"
proof -
  have lui: "push_bit 16 (immed v) = push_bit 16 v"
    by (rule bit_word_eqI) (auto simp: bit_push_bit_iff immed_low)
  have ex: "extra (Instruction_Decode v) = (if main_code op = 2 \<or> main_code op = 3 then v AND 0x3ffffff else immed v)" if "main_code op \<noteq> 0"
    using extra_fields(1,3) [of v] code(1) that by auto
  note run = main_code_def decode_fields regs pc b outcomes lui jump_target_def IndexToAddr_def set_Reg_npc branch_eq
  from common_main [OF com code(2)] show ?thesis
    unfolding exec_instr_def main_field_word code(1)
    by (elim disjE conjE insertE emptyE; hypsubst) (simp_all add: run ex imm_and add.commute [of 8] Let_def)
qed

lemma exec_same:
  assumes op: "opCode (Instruction_Decode v) = op" and com: "common op (Instruction_Decode v) m"
    and regs: "\<forall>r<32. Reg s r = registers m r" "HI s = registers m HiReg" "LO s = registers m LoReg"
    and pc: "ex_npc s = registers m NextPCReg + 4" "xpc = registers m PCReg"
  shows "outcome s m (exec_instr host v xpc s) (exec_op h pid op (Instruction_Decode v) (registers m NextPCReg + 4) m)"
proof -
  have valid: "valid_op op" using com by (auto simp: common_def valid_op_def simple_ops_def transfer_ops_def)
  have b: "f_rs v < 32" "f_rt v < 32" "f_rd v < 32" using Decode_fields [of v] by (simp_all add: decode_fields)
  have r: "Reg s (f_rs v) = registers m (f_rs v)" "Reg s (f_rt v) = registers m (f_rt v)" using regs(1) b by simp_all
  have same: "same_regs s m" using regs by (simp add: same_regs_def)
  from op valid show ?thesis
  proof (cases rule: decode_cases)
    case main
    have "main_code op < 64" unfolding main(1) [symmetric] main_field_def by (rule field_bound)
    then show ?thesis using exec_main_same [OF com main(1) _ r same pc b(2)] by simp
  next
    case special
    have "of_nat (unat (v AND 0x3f)) = v AND 0x3f" by simp
    then have w: "v AND 0x3f = of_nat (special_code op)" unfolding special(2) by simp
    have "special_code op < 64" unfolding special(2) [symmetric] by (rule field_bound)
    then show ?thesis
      using exec_special_same [OF com special(1) w r regs(2,3) same pc b(3,1,2)]
      by (simp add: exec_instr_def main_field_word special(1) Let_def)
  next
    case bcond
    have "bcond_code op < 32" using b(2) bcond(2) by simp
    then show ?thesis
      using exec_bcond_same [OF com bcond _ r(1) same pc b(1)] by (simp add: exec_instr_def main_field_word bcond(1) Let_def)
  qed
qed

definition agrees :: "interp \<Rightarrow> machine \<Rightarrow> bool" where
  "agrees s m \<longleftrightarrow> same_regs s m \<and> registers m 0 = 0 \<and> registers m LoadReg = 0 \<and> ex_pc s = registers m PCReg \<and> ex_npc s = registers m NextPCReg"


text \<open>Both at \<^verbatim>\<open>ADDIU r2, r0, 8\<close>, loaded at the address of the interpreter's memory.\<close>

definition example_interp :: interp where
  "example_interp = \<lparr>Reg = (\<lambda>_. 0), HI = 0, LO = 0, ex_mem = [8, 0, 2, 0x24], ex_pc = memoffset, ex_npc = memoffset + 4\<rparr>"

definition example_cpu :: machine where
  "example_cpu = example_machine\<lparr>mainMemory := [8, 0, 2, 0x24] @ replicate 4092 0,
     registers := (\<lambda>_. 0)(PCReg := memoffset, NextPCReg := memoffset + 4),
     pageTable := Some (example_table[0 := (example_table ! 0)\<lparr>virtualPage := 0x200000\<rparr>])\<rparr>"

lemma example_cpu_fetch:
  "\<exists>m1. Machine_ReadMem h 0 memoffset 4 example_cpu = Inr (m1, Some 0x24020008) \<and> registers m1 = registers example_cpu"
proof -
  let ?t = "example_table[0 := (example_table ! 0)\<lparr>virtualPage := 0x200000\<rparr>]"
  have pt: "pageTable example_cpu = Some ?t" and len: "length example_table = 32" by (simp_all add: example_cpu_def example_table_def)
  have tab: "table_ok example_table (MemoryMap example_machine)"
    using example_machine_ok by (simp add: machine_ok_def example_machine_def)
  moreover have "te_valid (example_table ! 0) \<Longrightarrow> 0 \<in> bits_of (MemoryMap example_machine)"
    using tab by (auto simp: table_ok_def dest: spec [of _ 0])
  moreover have "\<not> (te_valid (example_table ! i) \<and> te_thread (example_table ! i) = 0)" if "0 < i" "i < 32" for i
    using that by (auto simp: example_table_def initial_entry_def nth_list_update simp del: upt_rec_numeral)
  moreover have "te_thread (example_table ! 0) = 0" by (simp add: example_table_def)
  ultimately have "table_ok ?t (MemoryMap example_machine)" using len by (auto simp: table_ok_def nth_list_update)
  then have ok: "machine_ok example_cpu" using example_machine_ok by (simp add: machine_ok_def example_cpu_def example_machine_def)
  have e: "entry_for ?t 0 (memoffset div 128) 0" using len by (simp add: entry_for_def example_table_def)
  have al: "aligned memoffset 4" by (simp add: aligned_def)
  have ro: "\<not> (readOnly (?t ! 0) \<and> False)" by simp
  obtain m1 where m1: "Machine_Translate 0 memoffset 4 False example_cpu = Inr (m1, Inr 0)" "registers m1 = registers example_cpu"
    using Translate_hit [OF ok pt e al ro] by auto
  have "mem_read (mainMemory example_cpu) 0 4 = Inr 0x24020008" by (simp add: mem_read_def example_cpu_def word4_def WordToHost_def)
  then show ?thesis using ReadMem_hit [OF ok _ m1(1), of h] m1(2) by auto
qed


subsection \<open>The bit length\<close>

text \<open>
  The state after a step of \<^verbatim>\<open>ilog2\<close>: the top bit \<open>t\<close> of the argument is still there, all the bits left lie in its block
  of \<open>2 ^ k\<close> bits, and \<open>l\<close> counts the bits below that block.
\<close>

definition narrowed :: "nat \<Rightarrow> nat \<Rightarrow> 32 word \<times> nat \<Rightarrow> bool" where
  "narrowed t k = (\<lambda>(i, l). bit i t \<and> (\<forall>n. bit i n \<longrightarrow> n \<le> t \<and> n div 2 ^ k = t div 2 ^ k) \<and> l = 1 + t div 2 ^ k * 2 ^ k)"

lemma half_block:
  fixes n :: nat
  shows "odd (n div 2 ^ k) \<Longrightarrow> n div 2 ^ k = Suc (2 * (n div 2 ^ Suc k))" "even (n div 2 ^ k) \<Longrightarrow> n div 2 ^ k = 2 * (n div 2 ^ Suc k)"
proof -
  have e: "n div 2 ^ Suc k = n div 2 ^ k div 2" by (simp only: power_Suc2 div_mult2_eq)
  have "odd m \<Longrightarrow> m = Suc (2 * (m div 2))" "even m \<Longrightarrow> m = 2 * (m div 2)" for m :: nat by presburger+
  then show "odd (n div 2 ^ k) \<Longrightarrow> n div 2 ^ k = Suc (2 * (n div 2 ^ Suc k))" "even (n div 2 ^ k) \<Longrightarrow> n div 2 ^ k = 2 * (n div 2 ^ Suc k)"
    unfolding e by blast+
qed

lemma ilog2_step_narrows:
  assumes inv: "narrowed t (Suc k) (i, l)" and msk: "\<And>n. n < 32 \<Longrightarrow> bit msk n = odd (n div 2 ^ k)"
  shows "narrowed t k (ilog2_step msk (2 ^ k) (i, l))"
proof -
  let ?j = "i AND msk"
  define q where "q = t div 2 ^ Suc k"
  have t: "bit i t" "\<And>n. bit i n \<Longrightarrow> n \<le> t" "\<And>n. bit i n \<Longrightarrow> n div 2 ^ Suc k = q" "l = 1 + q * 2 ^ Suc k"
    using inv unfolding narrowed_def prod.case q_def by blast+
  have even: "n div 2 ^ k = 2 * q" if "bit i n" "even (n div 2 ^ k)" for n by (rule half_block(2) [OF that(2), unfolded t(3) [OF that(1)]])
  have odd: "n div 2 ^ k = Suc (2 * q)" if "bit i n" "odd (n div 2 ^ k)" for n by (rule half_block(1) [OF that(2), unfolded t(3) [OF that(1)]])
  have j: "bit ?j n \<longleftrightarrow> bit i n \<and> odd (n div 2 ^ k)" for n
    using msk [of n] by (auto simp: bit_and_iff dest: bit_imp_le_length)
  show ?thesis
  proof (cases "?j = 0")
    case True
    then have "n div 2 ^ k = 2 * q" if "bit i n" for n using j [of n] that even [OF that] by simp
    then show ?thesis using t(1,2,4) True by (simp add: narrowed_def ilog2_step_def)
  next
    case False
    then obtain n where n: "bit i n" "odd (n div 2 ^ k)" using j by (auto simp: bit_eq_iff)
    have "Suc (2 * q) \<le> t div 2 ^ k" using div_le_mono [OF t(2) [OF n(1)], of "2 ^ k"] unfolding odd [OF n] .
    then have top: "odd (t div 2 ^ k)" using even [OF t(1)] by auto
    then have "bit ?j t" using t(1) j by simp
    moreover have "m \<le> t \<and> m div 2 ^ k = Suc (2 * q)" if "bit ?j m" for m using that odd t(2) j by blast
    ultimately show ?thesis using t(4) False odd [OF t(1) top] by (simp add: narrowed_def ilog2_step_def Let_def)
  qed
qed

lemma ilog2_masks:
  "list_all (\<lambda>n. bit (0xffff0000 :: 32 word) n = odd (n div 16) \<and> bit (0xff00ff00 :: 32 word) n = odd (n div 8)
     \<and> bit (0xf0f0f0f0 :: 32 word) n = odd (n div 4) \<and> bit (0xcccccccc :: 32 word) n = odd (n div 2) \<and> bit (0xaaaaaaaa :: 32 word) n = odd (n div 1)) [0..<32]"
  by (simp add: upt_conv_Cons)

lemma ilog2_top:
  assumes "bit i t" "\<And>n. bit i n \<Longrightarrow> n \<le> t"
  shows "ilog2 i = Suc t"
proof -
  have t: "t < 32" using bit_imp_le_length [OF assms(1)] by simp
  have "i \<noteq> 0" using assms(1) by auto
  have step: "narrowed t k (ilog2_step msk p x)"
    if "narrowed t j x" "j = Suc k" "p = 2 ^ k" "\<And>n. n < 32 \<Longrightarrow> bit msk n = odd (n div p)" for j k p msk x
    using that by (cases x) (auto intro: ilog2_step_narrows)
  define x4 where "x4 = ilog2_step 0xffff0000 16 (i, 1)"
  define x3 where "x3 = ilog2_step 0xff00ff00 8 x4"
  define x2 where "x2 = ilog2_step 0xf0f0f0f0 4 x3"
  define x1 where "x1 = ilog2_step 0xcccccccc 2 x2"
  define x0 where "x0 = ilog2_step 0xaaaaaaaa 1 x1"
  have "narrowed t 5 (i, 1)" using assms t by (auto simp: narrowed_def dest: bit_imp_le_length)
  then have "narrowed t 4 x4" unfolding x4_def by (rule step) (use ilog2_masks in \<open>simp_all add: list_all_iff\<close>)
  then have "narrowed t 3 x3" unfolding x3_def by (rule step) (use ilog2_masks in \<open>simp_all add: list_all_iff\<close>)
  then have "narrowed t 2 x2" unfolding x2_def by (rule step) (use ilog2_masks in \<open>simp_all add: list_all_iff\<close>)
  then have "narrowed t 1 x1" unfolding x1_def by (rule step) (use ilog2_masks in \<open>simp_all add: list_all_iff\<close>)
  then have "narrowed t 0 x0" unfolding x0_def by (rule step) (use ilog2_masks in \<open>simp_all add: list_all_iff\<close>)
  then have "snd x0 = 1 + t div 2 ^ 0 * 2 ^ 0" unfolding narrowed_def case_prod_unfold by blast
  then show ?thesis using \<open>i \<noteq> 0\<close> by (simp add: ilog2_def x0_def x1_def x2_def x3_def x4_def)
qed

text \<open>
  (C36) \<^verbatim>\<open>ilog2\<close> computes the bit length: 0 for 0, and otherwise the \<open>l\<close> with \<open>2 ^ (l - 1) \<le> i < 2 ^ l\<close>, for every 32-bit
  argument taken as unsigned.  The table in the comment above the function lists other values (2 for 4, say, instead of 3).
\<close>

theorem ilog2_bit_length:
  "if i = 0 then ilog2 i = 0 else 2 ^ (ilog2 i - 1) \<le> unat i \<and> unat i < 2 ^ ilog2 i"
proof (cases "i = 0")
  case False
  let ?S = "{n. bit i n}"
  have fin: "finite ?S" by (rule finite_subset [of _ "{..<32}"]) (auto dest: bit_imp_le_length)
  moreover have "?S \<noteq> {}" using False by (metis Collect_empty_eq bit_eqI bit_0_eq bot_apply bot_bool_def)
  ultimately have top: "bit i (Max ?S)" "\<And>n. bit i n \<Longrightarrow> n \<le> Max ?S" using Max_in [of ?S] Max_ge [of ?S] by auto
  then have l: "ilog2 i = Suc (Max ?S)" by (rule ilog2_top)
  have b: "bit (unat i) n = bit i n" for n by (simp add: bit_unsigned_iff)
  have "take_bit (Suc (Max ?S)) (unat i) = unat i"
    using top(2) by (intro bit_eqI) (auto simp: bit_take_bit_iff b less_Suc_eq_le)
  then have "unat i < 2 ^ Suc (Max ?S)" by (metis take_bit_nat_less_exp)
  moreover have "2 ^ Max ?S \<le> unat i"
  proof (rule ccontr)
    assume "\<not> 2 ^ Max ?S \<le> unat i"
    then have "take_bit (Max ?S) (unat i) = unat i" by (simp add: take_bit_nat_eq_self)
    then have "\<not> bit (unat i) (Max ?S)" by (metis bit_take_bit_iff less_irrefl)
    then show False using top(1) b by simp
  qed
  ultimately show ?thesis using False l by simp
qed (simp add: ilog2_def)

text \<open>The high word of a product loses the carries of the partial products.\<close>

lemma multu_high_word: "mul_high 0x1ffff 0x1ffff = 1" "uint (0x1ffff :: 32 word) * uint (0x1ffff :: 32 word) div 2 ^ 32 = 3"
  by (simp_all add: mul_high_def)

end
