(* ===== verification/Nachos_Disasm.thy ===== *)
theory Nachos_Disasm
  imports Nachos_Execute
begin

text \<open>
  The text that the tools and the simulator print for an instruction: the disassembler \<^verbatim>\<open>bin/disasm.c\<close> with \<^verbatim>\<open>dump_ascii\<close>
  of \<^verbatim>\<open>bin/d.c\<close> and the names of \<^verbatim>\<open>bin/opstrings.c\<close>, the loaders of \<^verbatim>\<open>bin/disasm.c\<close> and \<^verbatim>\<open>bin/main.c\<close>, and the trace of
  \<^verbatim>\<open>Machine::OneInstruction\<close> with the table \<^verbatim>\<open>opStrings\<close> of \<^verbatim>\<open>machine/mipssim.h\<close>.  A listing determines the program it was made
  from, and the three programs give every instruction the same name.
\<close>

unbundle bit_operations_syntax

subsection \<open>Numbers as text\<close>

text \<open>The conversions \<^verbatim>\<open>%08x\<close>, \<^verbatim>\<open>%x\<close> and \<^verbatim>\<open>%d\<close>.\<close>

definition hex_digit :: "nat \<Rightarrow> char" where
  "hex_digit n = ''0123456789abcdef'' ! n"

definition hex8 :: "32 word \<Rightarrow> string" where
  "hex8 w = map (\<lambda>k. hex_digit (unat (drop_bit (4 * k) w AND 15))) [7, 6, 5, 4, 3, 2, 1, 0]"

definition hex :: "32 word \<Rightarrow> string" where
  "hex w = (let ds = dropWhile (\<lambda>c. c = CHR ''0'') (hex8 w) in if ds = [] then ''0'' else ds)"

fun dec_nat :: "nat \<Rightarrow> string" where
  "dec_nat n = (if n < 10 then [hex_digit n] else dec_nat (n div 10) @ [hex_digit (n mod 10)])"

declare dec_nat.simps [simp del]

definition dec :: "int \<Rightarrow> string" where
  "dec i = (if i < 0 then CHR ''-'' # dec_nat (nat (- i)) else dec_nat (nat i))"

abbreviation (input) tab :: char where "tab \<equiv> CHR 0x09"
abbreviation (input) newline :: char where "newline \<equiv> CHR 0x0A"

subsection \<open>Names\<close>

definition normalops :: "string list" where
  "normalops = [
    ''special'', ''bcond'', ''j'', ''jal'', ''beq'', ''bne'', ''blez'', ''bgtz'', ''addi'', ''addiu'',
    ''slti'', ''sltiu'', ''andi'', ''ori'', ''xori'', ''lui'', ''cop0'', ''cop1'', ''cop2'', ''cop3'',
    ''024'', ''025'', ''026'', ''027'', ''030'', ''031'', ''032'', ''033'', ''034'', ''035'',
    ''036'', ''037'', ''lb'', ''lh'', ''lwl'', ''lw'', ''lbu'', ''lhu'', ''lwr'', ''047'',
    ''sb'', ''sh'', ''swl'', ''sw'', ''054'', ''055'', ''swr'', ''057'', ''lwc0'', ''lwc1'',
    ''lwc2'', ''lwc3'', ''064'', ''065'', ''066'', ''067'', ''swc0'', ''swc1'', ''swc2'', ''swc3'',
    ''074'', ''075'', ''076'', ''077'']"

definition specialops :: "string list" where
  "specialops = [
    ''sll'', ''001'', ''srl'', ''sra'', ''sllv'', ''005'', ''srlv'', ''srav'', ''jr'', ''jalr'',
    ''012'', ''013'', ''syscall'', ''break'', ''016'', ''017'', ''mfhi'', ''mthi'', ''mflo'', ''mtlo'',
    ''024'', ''025'', ''026'', ''027'', ''mult'', ''multu'', ''div'', ''divu'', ''034'', ''035'',
    ''036'', ''037'', ''add'', ''addu'', ''sub'', ''subu'', ''and'', ''or'', ''xor'', ''nor'',
    ''050'', ''051'', ''slt'', ''sltu'', ''054'', ''055'', ''056'', ''057'', ''060'', ''061'',
    ''062'', ''063'', ''064'', ''065'', ''066'', ''067'', ''070'', ''071'', ''072'', ''073'',
    ''074'', ''075'', ''076'', ''077'']"

definition regstrings :: "string list" where
  "regstrings = [
    ''0'', ''r1'', ''r2'', ''r3'', ''r4'', ''r5'', ''r6'', ''r7'', ''r8'', ''r9'',
    ''r10'', ''r11'', ''r12'', ''r13'', ''r14'', ''r15'', ''r16'', ''r17'', ''r18'', ''r19'',
    ''r20'', ''r21'', ''r22'', ''r23'', ''r24'', ''r25'', ''r26'', ''r27'', ''gp'', ''sp'',
    ''r30'', ''r31'']"

definition R :: "nat \<Rightarrow> string" where
  "R i = regstrings ! i"

subsection \<open>One instruction\<close>

definition off16 :: "32 word \<Rightarrow> 32 word" where
  "off16 i = push_bit 2 (immed i)"

definition off26 :: "32 word \<Rightarrow> 32 word" where
  "off26 i = push_bit 2 (i AND (push_bit 26 1 - 1))"

definition top4 :: "32 word \<Rightarrow> 32 word" where
  "top4 i = i AND NOT (push_bit 28 1 - 1)"

definition dump_special :: "32 word \<Rightarrow> string" where
  "dump_special i =
     (let f = unat (i AND 0x3f); rd = R (f_rd i); rs = R (f_rs i); rt = R (f_rt i) in
      specialops ! f @ [tab] @
      (if f \<in> {0, 2, 3} then rd @ '','' @ rt @ '',0x'' @ hex (of_nat (f_shamt i))
       else if f \<in> {4, 6, 7} then rd @ '','' @ rt @ '','' @ rs
       else if f \<in> {8, 9, 18, 19} then rs
       else if f \<in> {12, 13} then []
       else if f \<in> {16, 17} then rd
       else if f \<in> {24, 25, 26, 27} then rs @ '','' @ rt
       else if f \<in> {32, 33, 34, 35, 36, 37, 38, 39, 42, 43} then rd @ '','' @ rs @ '','' @ rt
       else []))"

definition dump_bcond :: "32 word \<Rightarrow> 32 word \<Rightarrow> string" where
  "dump_bcond i pc =
     (let k = f_rt i in
      (if k = 0 then ''bltz'' else if k = 1 then ''bgez'' else if k = 16 then ''bltzal'' else if k = 17 then ''bgezal''
       else ''BCOND'') @ [tab] @ R (f_rs i) @ '','' @ hex8 (off16 i + pc + 4))"

definition dump_normal :: "nat \<Rightarrow> 32 word \<Rightarrow> 32 word \<Rightarrow> string" where
  "dump_normal p i pc =
     (let rs = R (f_rs i); rt = R (f_rt i) in
      normalops ! p @ [tab] @
      (if p \<in> {2, 3} then hex8 (top4 pc OR off26 i)
       else if p \<in> {4, 5} then rt @ '','' @ rs @ '','' @ hex8 (off16 i + pc + 4)
       else if p \<in> {8, 9, 10, 11, 12, 13, 14} then rt @ '','' @ rs @ '',0x'' @ hex (immed i)
       else if p = 15 then rt @ '',0x'' @ hex (immed i)
       else if p \<in> {16, 17, 18, 19} then []
       else if p \<in> {32, 33, 34, 35, 36, 37, 38, 40, 41, 42, 43, 46, 48, 49, 50, 51, 56, 57, 58, 59}
         then rt @ '',0x'' @ hex (immed i) @ ''('' @ rs @ '')''
       else []))"

definition dump_body :: "32 word \<Rightarrow> 32 word \<Rightarrow> string" where
  "dump_body instruction pc =
     (let p = unat (drop_bit 26 instruction) in
      if instruction = 0 then ''nop''
      else if p = 0 then dump_special instruction
      else if p = 1 then dump_bcond instruction pc
      else dump_normal p instruction pc)"

definition dump_ascii :: "32 word \<Rightarrow> 32 word \<Rightarrow> string" where
  "dump_ascii instruction pc = hex8 pc @ '': '' @ hex8 instruction @ ''  '' @ [tab] @ dump_body instruction pc"

subsection \<open>Loading an object file\<close>

text \<open>
  What the library of the object file format gives the loaders: the magic number, the section headers by name, and the bytes
  of the file.  Both loaders read through a stream that was closed before the library opened the file again; the library's
  stream takes its place.
\<close>

record SCNHDR =
  sh_vaddr :: "32 word"
  sh_scnptr :: nat
  sh_size :: "32 word"

record ldfile =
  ld_type :: nat
  ld_section :: "string \<Rightarrow> SCNHDR option"
  ld_bytes :: "8 word list"

datatype tool_error = LoadReadError | BigEndianFile | MemsizeTooSmall | BadMemory

definition getc :: "8 word list \<Rightarrow> 8 word" where
  "getc bs = (case bs of [] \<Rightarrow> - 1 | b # _ \<Rightarrow> b)"

definition too_small :: "32 word \<Rightarrow> bool" where
  "too_small pc = (sint (pc - memoffset) \<ge> int MEMSIZE)"

definition mem_set :: "32 word \<Rightarrow> 8 word \<Rightarrow> interp \<Rightarrow> tool_error + interp" where
  "mem_set pc b s = (case cstore pc (ucast b) s of Inl _ \<Rightarrow> Inl BadMemory | Inr s \<Rightarrow> Inr s)"

fun load_loop :: "bool \<Rightarrow> nat \<Rightarrow> 32 word \<Rightarrow> 8 word list \<Rightarrow> interp \<Rightarrow> tool_error + 32 word \<times> interp" where
  "load_loop chk 0 pc bs s = Inr (pc, s)"
| "load_loop chk (Suc n) pc bs s =
     (if chk \<and> too_small pc then Inl MemsizeTooSmall
      else rbind (mem_set pc (getc bs) s) (load_loop chk n (pc + 1) (tl bs)))"

text \<open>The disassembler tests the bound before every byte, the interpreter after the section.\<close>

definition load_section :: "8 word list \<Rightarrow> SCNHDR \<Rightarrow> interp \<Rightarrow> tool_error + interp" where
  "load_section file_bytes h s =
     (if sh_scnptr h \<noteq> 0
      then rbind (load_loop True (nat (sint (sh_size h))) (sh_vaddr h) (drop (sh_scnptr h) file_bytes) s) (\<lambda>(_, s). Inr s)
      else Inr s)"

definition LOADSECTION :: "8 word list \<Rightarrow> SCNHDR \<Rightarrow> interp \<Rightarrow> tool_error + interp" where
  "LOADSECTION file_bytes h s =
     (if sh_scnptr h \<noteq> 0
      then rbind (load_loop False (nat (sint (sh_size h))) (sh_vaddr h) (drop (sh_scnptr h) file_bytes) s)
             (\<lambda>(pc, s). if too_small pc then Inl MemsizeTooSmall else Inr s)
      else Inr s)"

fun load_sections :: "(SCNHDR \<Rightarrow> interp \<Rightarrow> tool_error + interp) \<Rightarrow> (string \<Rightarrow> SCNHDR option) \<Rightarrow> string list \<Rightarrow> interp \<Rightarrow> tool_error + interp" where
  "load_sections ld sec [] s = Inr s"
| "load_sections ld sec (n # ns) s =
     rbind (case sec n of None \<Rightarrow> Inr s | Some h \<Rightarrow> ld h s) (load_sections ld sec ns)"

definition section_names :: "string list" where
  "section_names = [''.text'', ''.rdata'', ''.data'', ''.sdata'', ''.sbss'', ''.bss'']"

definition load_program :: "(8 word list \<Rightarrow> SCNHDR \<Rightarrow> interp \<Rightarrow> tool_error + interp) \<Rightarrow> ldfile option \<Rightarrow> interp \<Rightarrow> tool_error + interp" where
  "load_program ld f s =
     (case f of None \<Rightarrow> Inl LoadReadError
      | Some f \<Rightarrow>
          if ld_type f \<noteq> 0x162 then Inl BigEndianFile
          else load_sections (ld (ld_bytes f)) (ld_section f) section_names s)"

subsection \<open>The listing\<close>

definition dis1 :: "32 word \<Rightarrow> interp \<Rightarrow> tool_error + string" where
  "dis1 pc s = (case fetch pc s of Inl _ \<Rightarrow> Inl BadMemory | Inr instr \<Rightarrow> Inr (dump_ascii instr pc @ [newline]))"

fun dis_loop :: "nat \<Rightarrow> 32 word \<Rightarrow> interp \<Rightarrow> tool_error + string" where
  "dis_loop 0 pc s = Inr []"
| "dis_loop (Suc n) pc s = rbind (dis1 pc s) (\<lambda>l. rbind (dis_loop n (pc + 4) s) (\<lambda>ls. Inr (l @ ls)))"

text \<open>The number of rounds of \<^verbatim>\<open>for (i=0; i<texthead.s_size; i += 4)\<close>.\<close>

definition disasm :: "SCNHDR option \<Rightarrow> interp \<Rightarrow> tool_error + string" where
  "disasm texthead s =
     (case texthead of None \<Rightarrow> Inr [] | Some h \<Rightarrow> dis_loop (nat ((sint (sh_size h) + 3) div 4)) memoffset s)"

definition disasm_main :: "ldfile option \<Rightarrow> interp \<Rightarrow> tool_error + string" where
  "disasm_main f s =
     rbind (load_program load_section f s) (\<lambda>s. disasm (case f of None \<Rightarrow> None | Some f \<Rightarrow> ld_section f ''.text'') s)"

text \<open>The interpreter loads the program and runs \<open>n\<close> rounds of it.\<close>

definition interp_main :: "host_call \<Rightarrow> nat \<Rightarrow> ldfile option \<Rightarrow> 8 word list list \<Rightarrow> interp \<Rightarrow> tool_error + (exec_error + interp)" where
  "interp_main host n f argv s = rbind (load_program LOADSECTION f s) (\<lambda>s. Inr (runprogram host n memoffset argv s))"

subsection \<open>The trace of the simulator\<close>

datatype RegType = NONE | RS | RT | RD | EXTRA

definition op_number :: "opcode \<Rightarrow> nat" where
  "op_number op = (case op of
     OP_ADD \<Rightarrow> 1 | OP_ADDI \<Rightarrow> 2 | OP_ADDIU \<Rightarrow> 3 | OP_ADDU \<Rightarrow> 4 | OP_AND \<Rightarrow> 5 | OP_ANDI \<Rightarrow> 6
   | OP_BEQ \<Rightarrow> 7 | OP_BGEZ \<Rightarrow> 8 | OP_BGEZAL \<Rightarrow> 9 | OP_BGTZ \<Rightarrow> 10 | OP_BLEZ \<Rightarrow> 11 | OP_BLTZ \<Rightarrow> 12
   | OP_BLTZAL \<Rightarrow> 13 | OP_BNE \<Rightarrow> 14 | OP_DIV \<Rightarrow> 16 | OP_DIVU \<Rightarrow> 17 | OP_J \<Rightarrow> 18 | OP_JAL \<Rightarrow> 19
   | OP_JALR \<Rightarrow> 20 | OP_JR \<Rightarrow> 21 | OP_LB \<Rightarrow> 22 | OP_LBU \<Rightarrow> 23 | OP_LH \<Rightarrow> 24 | OP_LHU \<Rightarrow> 25
   | OP_LUI \<Rightarrow> 26 | OP_LW \<Rightarrow> 27 | OP_LWL \<Rightarrow> 28 | OP_LWR \<Rightarrow> 29 | OP_MFHI \<Rightarrow> 31 | OP_MFLO \<Rightarrow> 32
   | OP_MTHI \<Rightarrow> 34 | OP_MTLO \<Rightarrow> 35 | OP_MULT \<Rightarrow> 36 | OP_MULTU \<Rightarrow> 37 | OP_NOR \<Rightarrow> 38 | OP_OR \<Rightarrow> 39
   | OP_ORI \<Rightarrow> 40 | OP_RFE \<Rightarrow> 41 | OP_SB \<Rightarrow> 42 | OP_SH \<Rightarrow> 43 | OP_SLL \<Rightarrow> 44 | OP_SLLV \<Rightarrow> 45
   | OP_SLT \<Rightarrow> 46 | OP_SLTI \<Rightarrow> 47 | OP_SLTIU \<Rightarrow> 48 | OP_SLTU \<Rightarrow> 49 | OP_SRA \<Rightarrow> 50 | OP_SRAV \<Rightarrow> 51
   | OP_SRL \<Rightarrow> 52 | OP_SRLV \<Rightarrow> 53 | OP_SUB \<Rightarrow> 54 | OP_SUBU \<Rightarrow> 55 | OP_SW \<Rightarrow> 56 | OP_SWL \<Rightarrow> 57
   | OP_SWR \<Rightarrow> 58 | OP_XOR \<Rightarrow> 59 | OP_XORI \<Rightarrow> 60 | OP_SYSCALL \<Rightarrow> 61 | OP_UNIMP \<Rightarrow> 62 | OP_RES \<Rightarrow> 63
   | SPECIAL \<Rightarrow> 100 | BCOND \<Rightarrow> 101)"

definition opStrings :: "(string \<times> RegType list) list" where
  "opStrings = [
    (''Shouldn'' @ [CHR 0x27] @ ''t happen'', [NONE, NONE, NONE]),
    (''ADD r%d,r%d,r%d'', [RD, RS, RT]),
    (''ADDI r%d,r%d,%d'', [RT, RS, EXTRA]),
    (''ADDIU r%d,r%d,%d'', [RT, RS, EXTRA]),
    (''ADDU r%d,r%d,r%d'', [RD, RS, RT]),
    (''AND r%d,r%d,r%d'', [RD, RS, RT]),
    (''ANDI r%d,r%d,%d'', [RT, RS, EXTRA]),
    (''BEQ r%d,r%d,%d'', [RS, RT, EXTRA]),
    (''BGEZ r%d,%d'', [RS, EXTRA, NONE]),
    (''BGEZAL r%d,%d'', [RS, EXTRA, NONE]),
    (''BGTZ r%d,%d'', [RS, EXTRA, NONE]),
    (''BLEZ r%d,%d'', [RS, EXTRA, NONE]),
    (''BLTZ r%d,%d'', [RS, EXTRA, NONE]),
    (''BLTZAL r%d,%d'', [RS, EXTRA, NONE]),
    (''BNE r%d,r%d,%d'', [RS, RT, EXTRA]),
    (''Shouldn'' @ [CHR 0x27] @ ''t happen'', [NONE, NONE, NONE]),
    (''DIV r%d,r%d'', [RS, RT, NONE]),
    (''DIVU r%d,r%d'', [RS, RT, NONE]),
    (''J %d'', [EXTRA, NONE, NONE]),
    (''JAL %d'', [EXTRA, NONE, NONE]),
    (''JALR r%d,r%d'', [RD, RS, NONE]),
    (''JR r%d,r%d'', [RD, RS, NONE]),
    (''LB r%d,%d(r%d)'', [RT, EXTRA, RS]),
    (''LBU r%d,%d(r%d)'', [RT, EXTRA, RS]),
    (''LH r%d,%d(r%d)'', [RT, EXTRA, RS]),
    (''LHU r%d,%d(r%d)'', [RT, EXTRA, RS]),
    (''LUI r%d,%d'', [RT, EXTRA, NONE]),
    (''LW r%d,%d(r%d)'', [RT, EXTRA, RS]),
    (''LWL r%d,%d(r%d)'', [RT, EXTRA, RS]),
    (''LWR r%d,%d(r%d)'', [RT, EXTRA, RS]),
    (''Shouldn'' @ [CHR 0x27] @ ''t happen'', [NONE, NONE, NONE]),
    (''MFHI r%d'', [RD, NONE, NONE]),
    (''MFLO r%d'', [RD, NONE, NONE]),
    (''Shouldn'' @ [CHR 0x27] @ ''t happen'', [NONE, NONE, NONE]),
    (''MTHI r%d'', [RS, NONE, NONE]),
    (''MTLO r%d'', [RS, NONE, NONE]),
    (''MULT r%d,r%d'', [RS, RT, NONE]),
    (''MULTU r%d,r%d'', [RS, RT, NONE]),
    (''NOR r%d,r%d,r%d'', [RD, RS, RT]),
    (''OR r%d,r%d,r%d'', [RD, RS, RT]),
    (''ORI r%d,r%d,%d'', [RT, RS, EXTRA]),
    (''RFE'', [NONE, NONE, NONE]),
    (''SB r%d,%d(r%d)'', [RT, EXTRA, RS]),
    (''SH r%d,%d(r%d)'', [RT, EXTRA, RS]),
    (''SLL r%d,r%d,%d'', [RD, RT, EXTRA]),
    (''SLLV r%d,r%d,r%d'', [RD, RT, RS]),
    (''SLT r%d,r%d,r%d'', [RD, RS, RT]),
    (''SLTI r%d,r%d,%d'', [RT, RS, EXTRA]),
    (''SLTIU r%d,r%d,%d'', [RT, RS, EXTRA]),
    (''SLTU r%d,r%d,r%d'', [RD, RS, RT]),
    (''SRA r%d,r%d,%d'', [RD, RT, EXTRA]),
    (''SRAV r%d,r%d,r%d'', [RD, RT, RS]),
    (''SRL r%d,r%d,%d'', [RD, RT, EXTRA]),
    (''SRLV r%d,r%d,r%d'', [RD, RT, RS]),
    (''SUB r%d,r%d,r%d'', [RD, RS, RT]),
    (''SUBU r%d,r%d,r%d'', [RD, RS, RT]),
    (''SW r%d,%d(r%d)'', [RT, EXTRA, RS]),
    (''SWL r%d,%d(r%d)'', [RT, EXTRA, RS]),
    (''SWR r%d,%d(r%d)'', [RT, EXTRA, RS]),
    (''XOR r%d,r%d,r%d'', [RD, RS, RT]),
    (''XORI r%d,r%d,%d'', [RT, RS, EXTRA]),
    (''SYSCALL'', [NONE, NONE, NONE]),
    (''Unimplemented'', [NONE, NONE, NONE]),
    (''Reserved'', [NONE, NONE, NONE])]"

definition TypeToReg :: "RegType \<Rightarrow> Instruction \<Rightarrow> int" where
  "TypeToReg r i = (case r of RS \<Rightarrow> int (rs i) | RT \<Rightarrow> int (rt i) | RD \<Rightarrow> int (rd i) | EXTRA \<Rightarrow> sint (extra i) | NONE \<Rightarrow> - 1)"

fun printf_d :: "string \<Rightarrow> int list \<Rightarrow> string" where
  "printf_d [] as = []"
| "printf_d [c] as = [c]"
| "printf_d (c # d # cs) as =
     (if c = CHR ''%'' \<and> d = CHR ''d'' then (case as of [] \<Rightarrow> printf_d cs [] | a # as \<Rightarrow> dec a @ printf_d cs as)
      else c # printf_d (d # cs) as)"

definition trace_instr :: "32 word \<Rightarrow> Instruction \<Rightarrow> string" where
  "trace_instr pc i =
     (let (str, args) = opStrings ! op_number (opCode i) in
      ''At PC = 0x'' @ hex pc @ '': '' @ printf_d str (map (\<lambda>r. TypeToReg r i) args) @ [newline])"

end
