(* ===== verification/Spec2Isabelle.thy ===== *)
theory Spec2Isabelle
  imports Nachos_Prelude Nachos_List Nachos_Bitmap Nachos_Interrupt Nachos_Machine Nachos_Opcodes Nachos_Mips
    Nachos_Cpu Nachos_Exception Nachos_Threads Nachos_Synch Nachos_Disk Nachos_SynchDisk Nachos_FileHdr Nachos_OpenFile Nachos_Directory Nachos_FileSys Nachos_Network Nachos_Coff Nachos_Program Nachos_Console Nachos_ThreadTest
    Nachos_Execute Nachos_Disasm
begin

text \<open>Verification of the Nachos teaching kernel.\<close>

end
